(* ===== verification/Prelude.thy ===== *)
theory Prelude
  imports Main "HOL-Library.Word"
begin

text \<open>
  Shared vocabulary of the development: the machine types of the Go code, the result
  type of fallible Go functions, Go slices with their bounds panics, the big-endian
  coding of \<open>encoding/binary\<close>, the binary search of the standard \<open>slices\<close> package, and
  the collections of simplification and inversion rules the component theories share.
\<close>

unbundle bit_operations_syntax

named_theorems result_inv \<open>inversion of a successful fallible computation\<close>
named_theorems frame_simps \<open>state fields an operation leaves alone\<close>

section \<open>Machine types\<close>

type_synonym u64 = "64 word"
type_synonym byte = "8 word"
type_synonym bytes = "byte list"
type_synonym hash = "256 word"      \<comment> \<open>\<open>common.Hash\<close>, 32 bytes\<close>
type_synonym address = "160 word"   \<comment> \<open>\<open>common.Address\<close>, 20 bytes\<close>

abbreviation MaxUint64 :: u64 where "MaxUint64 \<equiv> -1"

abbreviation u64_len :: "'a list \<Rightarrow> u64" where
  "u64_len xs \<equiv> of_nat (length xs)"

lemma unat_u64_of_nat [simp]: "n < 2 ^ 64 \<Longrightarrow> unat (of_nat n :: u64) = n"
  by (simp add: unat_of_nat take_bit_nat_eq_self)

lemma unat_u64_bound: "unat (x :: u64) < 2 ^ 64"
  by (rule order_less_le_trans [OF unsigned_less]) simp

lemma u_plus_one: "x \<noteq> MaxUint64 \<Longrightarrow> unat (x + 1 :: u64) = unat x + 1"
proof -
  assume "x \<noteq> MaxUint64"
  then have "1 + x \<noteq> 0" by (simp add: add_eq_0_iff)
  then show ?thesis by (simp add: unatSuc add.commute)
qed

lemma u64_less_succ: "x \<noteq> MaxUint64 \<Longrightarrow> x < x + 1"
  by (simp add: word_less_nat_alt u_plus_one)

section \<open>Results\<close>

text \<open>A Go function that returns \<open>(T, error)\<close> returns \<open>'e + 'a\<close>: \<open>Inl\<close> the error, \<open>Inr\<close> the value.\<close>

definition bind_res :: "'e + 'a \<Rightarrow> ('a \<Rightarrow> 'e + 'b) \<Rightarrow> 'e + 'b" where
  "bind_res r f = (case r of Inl e \<Rightarrow> Inl e | Inr x \<Rightarrow> f x)"

lemma bind_res_simps [simp]:
  "bind_res (Inl e) f = Inl e"
  "bind_res (Inr x) f = f x"
  by (simp_all add: bind_res_def)

lemma bind_res_Inr_iff [result_inv]:
  "bind_res r f = Inr y \<longleftrightarrow> (\<exists>x. r = Inr x \<and> f x = Inr y)"
  by (cases r) simp_all

lemma bind_res_Inl_iff [result_inv]:
  "bind_res r f = Inl e \<longleftrightarrow> r = Inl e \<or> (\<exists>x. r = Inr x \<and> f x = Inl e)"
  by (cases r) simp_all

lemma bind_res_cong [fundef_cong]:
  "r = r' \<Longrightarrow> (\<And>x. r' = Inr x \<Longrightarrow> f x = g x) \<Longrightarrow> bind_res r f = bind_res r' g"
  by (cases r') auto

section \<open>Big-endian integers\<close>

text \<open>
  \<open>be_bytes n w\<close> is the low \<open>8 * n\<close> bits of \<open>w\<close>, most significant byte first:
  \<open>binary.BigEndian.PutUint64\<close> is \<open>be_bytes 8\<close>, the bytes of a \<open>common.Hash\<close> are
  \<open>be_bytes 32\<close>, those of a \<open>common.Address\<close> are \<open>be_bytes 20\<close>.
  \<open>be_word\<close> reads such a string back (\<open>binary.BigEndian.Uint64\<close> on its first 8 bytes).
\<close>

fun be_bytes :: "nat \<Rightarrow> 'a::len word \<Rightarrow> bytes" where
  "be_bytes 0 w = []"
| "be_bytes (Suc n) w = ucast (drop_bit (8 * n) w) # be_bytes n w"

definition be_word :: "bytes \<Rightarrow> 'a::len word" where
  "be_word bs = foldl (\<lambda>acc b. push_bit 8 acc OR ucast b) 0 bs"

lemma length_be_bytes [simp]: "length (be_bytes n w) = n"
  by (induction n) simp_all

lemma foldl_be_bytes:
  fixes w :: "'a::len word"
  shows "foldl (\<lambda>acc b. push_bit 8 acc OR ucast b) a (be_bytes n w)
    = push_bit (8 * n) a OR take_bit (8 * n) w"
proof (induction n arbitrary: a)
  case 0
  show ?case by simp
next
  case (Suc n)
  have "push_bit (8 * n) (push_bit 8 a OR ucast (ucast (drop_bit (8 * n) w) :: byte))
      OR take_bit (8 * n) w
    = push_bit (8 * Suc n) a OR take_bit (8 * Suc n) w"
    by (rule bit_word_eqI)
      (auto simp: bit_simps not_less not_le le_diff_conv less_diff_conv2 algebra_simps)
  with Suc.IH show ?case by simp
qed

theorem be_word_be_bytes [simp]:
  fixes w :: "'a::len word"
  assumes "8 * n = LENGTH('a)"
  shows "be_word (be_bytes n w) = w"
proof -
  have "be_word (be_bytes n w) = take_bit (8 * n) w"
    by (simp add: be_word_def foldl_be_bytes)
  then show ?thesis using assms by simp
qed

lemma be_bytes_inj:
  fixes v w :: "'a::len word"
  assumes "8 * n = LENGTH('a)" and "be_bytes n v = be_bytes n w"
  shows "v = w"
  using be_word_be_bytes [OF assms(1), of v] be_word_be_bytes [OF assms(1), of w]
  unfolding assms(2) by (rule trans [OF sym])

lemma foldl_be_word_snoc:
  "be_word (bs @ [b]) = (push_bit 8 (be_word bs) OR ucast b :: 'a::len word)"
  by (simp add: be_word_def)

lemma be_bytes_Suc_snoc:
  fixes w :: "'a::len word"
  shows "be_bytes (Suc n) w = be_bytes n (drop_bit 8 w) @ [ucast w]"
proof (induction n)
  case 0
  show ?case by simp
next
  case (Suc n)
  have "drop_bit (8 * Suc n) w = drop_bit (8 * n) (drop_bit 8 w)"
    by (simp add: drop_bit_drop_bit add.commute)
  with Suc show ?case by simp
qed

lemma be_bytes_cong:
  fixes v w :: "'a::len word"
  assumes "\<And>i. i < 8 * n \<Longrightarrow> bit v i = bit w i"
  shows "be_bytes n v = be_bytes n w"
  using assms
proof (induction n)
  case 0
  show ?case by simp
next
  case (Suc n)
  have "(ucast (drop_bit (8 * n) v) :: byte) = ucast (drop_bit (8 * n) w)"
    by (rule bit_word_eqI) (auto simp: bit_simps Suc.prems)
  moreover have "be_bytes n v = be_bytes n w"
    by (rule Suc.IH) (simp add: Suc.prems)
  ultimately show ?case by simp
qed

text \<open>Reading a byte string that fits the word and writing it again gives the string back.\<close>

theorem be_bytes_be_word:
  assumes "8 * length bs \<le> LENGTH('a::len)"
  shows "be_bytes (length bs) (be_word bs :: 'a word) = bs"
  using assms
proof (induction bs rule: rev_induct)
  case Nil
  show ?case by simp
next
  case (snoc b bs)
  let ?w = "be_word bs :: 'a word"
  have "be_bytes (length bs) (drop_bit 8 (push_bit 8 ?w OR ucast b)) = be_bytes (length bs) ?w"
    by (rule be_bytes_cong)
      (use snoc.prems in \<open>auto simp: bit_simps dest: bit_imp_le_length\<close>)
  also have "\<dots> = bs" using snoc by simp
  finally have tl: "be_bytes (length bs) (drop_bit 8 (push_bit 8 ?w OR ucast b)) = bs" .
  have hd: "ucast (push_bit 8 ?w OR ucast b) = b"
    by (rule bit_word_eqI) (use snoc.prems in \<open>auto simp: bit_simps\<close>)
  show ?case
    by (simp only: length_append_singleton be_bytes_Suc_snoc foldl_be_word_snoc tl hd)
qed

section \<open>Go slices\<close>

text \<open>
  \<open>xs[lo:hi]\<close>. The run time panics when \<open>lo > hi\<close> or \<open>hi\<close> exceeds the slice; the panic is
  \<open>None\<close>. (Go bounds \<open>hi\<close> by the capacity; bounding it by the length makes the model panic
  at least as often as the code, so absence of panics carries over.)
\<close>

definition go_slice :: "'a list \<Rightarrow> nat \<Rightarrow> nat \<Rightarrow> 'a list option" where
  "go_slice xs lo hi = (if lo \<le> hi \<and> hi \<le> length xs then Some (take (hi - lo) (drop lo xs)) else None)"

lemma go_slice_Some_iff [result_inv]:
  "go_slice xs lo hi = Some ys \<longleftrightarrow> lo \<le> hi \<and> hi \<le> length xs \<and> ys = take (hi - lo) (drop lo xs)"
  by (auto simp: go_slice_def)

lemma go_slice_length: "go_slice xs lo hi = Some ys \<Longrightarrow> length ys = hi - lo"
  by (auto simp: go_slice_def split: if_splits)

lemma go_slice_append [simp]:
  "go_slice (xs @ ys) 0 (length xs) = Some xs"
  "go_slice (xs @ ys) (length xs) (length (xs @ ys)) = Some ys"
  by (simp_all add: go_slice_def)

section \<open>Binary search\<close>

text \<open>
  \<open>slices.BinarySearchFunc\<close>: the loop \<open>for i < j\<close> with \<open>h := (i + j) / 2\<close>, which moves \<open>i\<close>
  above \<open>h\<close> while the comparison is negative and \<open>j\<close> down to \<open>h\<close> otherwise.
\<close>

function bsearch_loop :: "('a \<Rightarrow> 'b \<Rightarrow> int) \<Rightarrow> 'a list \<Rightarrow> 'b \<Rightarrow> nat \<Rightarrow> nat \<Rightarrow> nat" where
  "bsearch_loop cmp xs t i j =
    (if i < j then
       let h = (i + j) div 2
       in if cmp (xs ! h) t < 0 then bsearch_loop cmp xs t (h + 1) j else bsearch_loop cmp xs t i h
     else i)"
  by pat_completeness auto
termination
  by (relation "measure (\<lambda>(cmp, xs, t, i, j). j - i)") auto

declare bsearch_loop.simps [simp del]

definition BinarySearchFunc :: "('a \<Rightarrow> 'b \<Rightarrow> int) \<Rightarrow> 'a list \<Rightarrow> 'b \<Rightarrow> nat \<times> bool" where
  "BinarySearchFunc cmp xs t =
    (let i = bsearch_loop cmp xs t 0 (length xs)
     in (i, i < length xs \<and> cmp (xs ! i) t = 0))"

text \<open>
  Whatever the comparison, the loop ends on a boundary: the element below the result
  compares negative, the element at the result does not.
\<close>

lemma bsearch_loop_boundary:
  assumes "i \<le> j"
  shows "i \<le> bsearch_loop cmp xs t i j \<and> bsearch_loop cmp xs t i j \<le> j
    \<and> (i < bsearch_loop cmp xs t i j \<longrightarrow> cmp (xs ! (bsearch_loop cmp xs t i j - 1)) t < 0)
    \<and> (bsearch_loop cmp xs t i j < j \<longrightarrow> \<not> cmp (xs ! bsearch_loop cmp xs t i j) t < 0)"
  using assms
proof (induction cmp xs t i j rule: bsearch_loop.induct)
  case (1 cmp xs t i j)
  let ?h = "(i + j) div 2"
  show ?case
  proof (cases "i < j")
    case False
    then have "bsearch_loop cmp xs t i j = i" by (simp add: bsearch_loop.simps [of cmp xs t i j])
    with "1.prems" False show ?thesis by simp
  next
    case True
    then have h: "i \<le> ?h" "?h < j" by simp_all
    show ?thesis
    proof (cases "cmp (xs ! ?h) t < 0")
      case neg: True
      have eq: "bsearch_loop cmp xs t i j = bsearch_loop cmp xs t (?h + 1) j"
        using True neg by (simp add: bsearch_loop.simps [of cmp xs t i j])
      have IH: "?h + 1 \<le> bsearch_loop cmp xs t (?h + 1) j \<and> bsearch_loop cmp xs t (?h + 1) j \<le> j
        \<and> (?h + 1 < bsearch_loop cmp xs t (?h + 1) j \<longrightarrow>
             cmp (xs ! (bsearch_loop cmp xs t (?h + 1) j - 1)) t < 0)
        \<and> (bsearch_loop cmp xs t (?h + 1) j < j \<longrightarrow>
             \<not> cmp (xs ! bsearch_loop cmp xs t (?h + 1) j) t < 0)"
        using "1.IH"(1) [OF True refl neg] h by simp
      then show ?thesis
        unfolding eq using h neg
        by (cases "bsearch_loop cmp xs t (?h + 1) j = ?h + 1") auto
    next
      case nneg: False
      have eq: "bsearch_loop cmp xs t i j = bsearch_loop cmp xs t i ?h"
        using True nneg by (simp add: bsearch_loop.simps [of cmp xs t i j])
      show ?thesis
        unfolding eq using "1.IH"(2) [OF True refl nneg] h nneg
        by (cases "bsearch_loop cmp xs t i ?h = ?h") auto
    qed
  qed
qed

lemma BinarySearchFunc_boundary:
  assumes "BinarySearchFunc cmp xs t = (p, found)"
  shows "p \<le> length xs"
    and "0 < p \<Longrightarrow> cmp (xs ! (p - 1)) t < 0"
    and "p < length xs \<Longrightarrow> \<not> cmp (xs ! p) t < 0"
    and "found \<longleftrightarrow> p < length xs \<and> cmp (xs ! p) t = 0"
  using assms bsearch_loop_boundary [of 0 "length xs" cmp xs t]
  by (auto simp: BinarySearchFunc_def Let_def)

section \<open>Lists kept in key order\<close>

lemma takeWhile_dropWhile_split:
  assumes "\<And>x. x \<in> set ys \<Longrightarrow> P x" and "\<And>x. x \<in> set zs \<Longrightarrow> \<not> P x"
  shows "takeWhile P (ys @ zs) = ys" and "dropWhile P (ys @ zs) = zs"
  using assms by (cases zs; auto simp: takeWhile_append2)+

lemma sorted_wrt_take: "sorted_wrt R xs \<Longrightarrow> sorted_wrt R (take n xs)"
  by (metis append_take_drop_id sorted_wrt_append)

lemma sorted_wrt_drop: "sorted_wrt R xs \<Longrightarrow> sorted_wrt R (drop n xs)"
  by (metis append_take_drop_id sorted_wrt_append)

end
