(* ===== verification/Batch_Buffer.thy ===== *)
theory Batch_Buffer
  imports Prelude
begin

text \<open>
  \<open>op/batch_buffer.go\<close>: the interface \<open>Batch\<close>, the validity verdicts, and the buffer of
  batches kept in block-number order. A Go value that implements \<open>Batch\<close> is immutable and
  is seen only through its five methods, so it is the record of their answers. The
  pointers the Go methods return (\<open>&b.batches[0]\<close>) are values here: nothing writes through
  them, and no operation writes a slot below the start of the slice.
\<close>

section \<open>Batches\<close>

record block_id =                       \<comment> \<open>\<open>eth.BlockID\<close>\<close>
  bid_hash :: hash
  bid_number :: u64

record header =                         \<comment> \<open>the part of \<open>types.Header\<close> the streamer reads\<close>
  hdr_hash :: hash
  hdr_parent :: hash

record batch =
  Number :: u64
  L1Origin :: block_id
  Header :: header
  Hash :: hash
  Signer :: address

datatype batch_validity = BatchDrop | BatchAccept | BatchUndecided | BatchPast

datatype buffer_error = ErrAtCapacity | ErrDuplicateBatch

section \<open>The buffer\<close>

record batch_buffer =
  batches :: "batch list"
  buf_capacity :: u64

definition NewBatchBuffer :: "u64 \<Rightarrow> batch_buffer" where
  "NewBatchBuffer capacity = \<lparr>batches = [], buf_capacity = capacity\<rparr>"

definition Capacity :: "batch_buffer \<Rightarrow> u64" where
  "Capacity b = buf_capacity b"

definition Len :: "batch_buffer \<Rightarrow> nat" where
  "Len b = length (batches b)"

definition Clear :: "batch_buffer \<Rightarrow> batch_buffer" where
  "Clear b = b\<lparr>batches := []\<rparr>"

text \<open>The comparison of \<open>Insert\<close>: equal hashes first, then numbers, equal numbers as less.\<close>

definition cmp_batch :: "batch \<Rightarrow> batch \<Rightarrow> int" where
  "cmp_batch a t =
    (if Hash a = Hash t then 0
     else if Number a < Number t then -1
     else if Number a > Number t then 1
     else -1)"

definition Insert :: "batch_buffer \<Rightarrow> batch \<Rightarrow> buffer_error + batch_buffer" where
  "Insert b x =
    (if of_nat (Len b) \<ge> buf_capacity b then Inl ErrAtCapacity
     else
       let (pos, alreadyExists) = BinarySearchFunc cmp_batch (batches b) x
       in if alreadyExists then Inl ErrDuplicateBatch
          else Inr (b\<lparr>batches := take pos (batches b) @ x # drop pos (batches b)\<rparr>))"

definition Get :: "batch_buffer \<Rightarrow> int \<Rightarrow> batch option" where
  "Get b i = (if 0 \<le> i \<and> i < int (Len b) then Some (batches b ! nat i) else None)"

definition Peek_buf :: "batch_buffer \<Rightarrow> batch option" where
  "Peek_buf b = (case batches b of [] \<Rightarrow> None | x # _ \<Rightarrow> Some x)"

definition Pop :: "batch_buffer \<Rightarrow> batch option \<times> batch_buffer" where
  "Pop b = (case batches b of [] \<Rightarrow> (None, b) | x # xs \<Rightarrow> (Some x, b\<lparr>batches := xs\<rparr>))"

section \<open>Order by number\<close>

definition by_number :: "batch list \<Rightarrow> bool" where
  "by_number xs = sorted_wrt (\<lambda>a b. Number a \<le> Number b) xs"

text \<open>
  A hash stands for the content, so two batches with one hash carry one number: what
  \<open>Insert\<close> relies on of \<open>Keccak256\<close>, stated for the batches at hand.
\<close>

definition hash_binds :: "batch list \<Rightarrow> batch \<Rightarrow> bool" where
  "hash_binds xs x = (\<forall>y \<in> set xs. Hash y = Hash x \<longrightarrow> Number y = Number x)"

definition buffer_ok :: "batch_buffer \<Rightarrow> bool" where
  "buffer_ok b = (by_number (batches b) \<and> Len b \<le> unat (buf_capacity b))"

text \<open>The reference: insertion behind every batch whose number is not greater.\<close>

definition stable_insert :: "batch \<Rightarrow> batch list \<Rightarrow> batch list" where
  "stable_insert x xs =
    takeWhile (\<lambda>y. Number y \<le> Number x) xs @ x # dropWhile (\<lambda>y. Number y \<le> Number x) xs"

lemma by_number_Nil [simp]: "by_number []"
  by (simp add: by_number_def)

lemma by_number_Cons [simp]:
  "by_number (x # xs) \<longleftrightarrow> (\<forall>y \<in> set xs. Number x \<le> Number y) \<and> by_number xs"
  by (simp add: by_number_def)

lemma by_number_append:
  "by_number (xs @ ys) \<longleftrightarrow>
    by_number xs \<and> by_number ys \<and> (\<forall>x \<in> set xs. \<forall>y \<in> set ys. Number x \<le> Number y)"
  by (simp add: by_number_def sorted_wrt_append)

lemma by_number_nth:
  "by_number xs \<Longrightarrow> i \<le> j \<Longrightarrow> j < length xs \<Longrightarrow> Number (xs ! i) \<le> Number (xs ! j)"
  by (cases "i = j") (auto simp: by_number_def sorted_wrt_iff_nth_less)

lemma cmp_batch_neg: "cmp_batch a t < 0 \<Longrightarrow> Number a \<le> Number t \<and> Hash a \<noteq> Hash t"
  by (auto simp: cmp_batch_def split: if_splits)

lemma cmp_batch_pos:
  "\<not> cmp_batch a t < 0 \<Longrightarrow> cmp_batch a t \<noteq> 0 \<Longrightarrow> Number t < Number a"
  by (auto simp: cmp_batch_def split: if_splits)

lemma cmp_batch_zero [simp]: "cmp_batch a t = 0 \<longleftrightarrow> Hash a = Hash t"
  by (auto simp: cmp_batch_def)

lemma set_stable_insert [simp]: "set (stable_insert x xs) = insert x (set xs)"
proof -
  have "set xs = set (takeWhile (\<lambda>y. Number y \<le> Number x) xs @ dropWhile (\<lambda>y. Number y \<le> Number x) xs)"
    by (simp only: takeWhile_dropWhile_id)
  then show ?thesis by (auto simp: stable_insert_def simp del: takeWhile_dropWhile_id)
qed

lemma length_stable_insert [simp]: "length (stable_insert x xs) = Suc (length xs)"
proof -
  have "length xs = length (takeWhile (\<lambda>y. Number y \<le> Number x) xs)
      + length (dropWhile (\<lambda>y. Number y \<le> Number x) xs)"
    by (simp only: flip: length_append) simp
  then show ?thesis by (simp add: stable_insert_def)
qed

lemma by_number_dropWhile_greater:
  "by_number xs \<Longrightarrow> y \<in> set (dropWhile (\<lambda>y. Number y \<le> n) xs) \<Longrightarrow> n < Number y"
  by (induction xs) (force split: if_splits)+

lemma by_number_insert_between:
  assumes "by_number (us @ vs)" and "\<And>u. u \<in> set us \<Longrightarrow> Number u \<le> Number x"
    and "\<And>v. v \<in> set vs \<Longrightarrow> Number x \<le> Number v"
  shows "by_number (us @ x # vs)"
  using assms by (auto simp: by_number_append)

lemma by_number_stable_insert:
  assumes s: "by_number xs"
  shows "by_number (stable_insert x xs)"
  unfolding stable_insert_def
proof (rule by_number_insert_between)
  let ?P = "\<lambda>y. Number y \<le> Number x"
  show "by_number (takeWhile ?P xs @ dropWhile ?P xs)" using s by simp
  show "Number y \<le> Number x" if "y \<in> set (takeWhile ?P xs)" for y
    using that by (rule set_takeWhileD [THEN conjunct2])
  show "Number x \<le> Number y" if "y \<in> set (dropWhile ?P xs)" for y
    using by_number_dropWhile_greater [OF s that] by simp
qed

text \<open>Where the binary search stops in a buffer in order.\<close>

lemma search_split:
  assumes s: "by_number xs" and bs: "BinarySearchFunc cmp_batch xs x = (p, False)"
  shows "take p xs = takeWhile (\<lambda>y. Number y \<le> Number x) xs"
    and "drop p xs = dropWhile (\<lambda>y. Number y \<le> Number x) xs"
proof -
  let ?P = "\<lambda>y. Number y \<le> Number x"
  note b = BinarySearchFunc_boundary [OF bs]
  have low: "Number y \<le> Number x" if y: "y \<in> set (take p xs)" for y
  proof -
    obtain i where i: "i < p" "i < length xs" "y = xs ! i"
      using y by (auto simp: in_set_conv_nth)
    have "cmp_batch (xs ! (p - 1)) x < 0" using b(2) i by simp
    moreover have "Number (xs ! i) \<le> Number (xs ! (p - 1))"
      using by_number_nth [OF s, of i "p - 1"] i b(1) by simp
    ultimately show ?thesis using i cmp_batch_neg order_trans by blast
  qed
  have high: "\<not> Number y \<le> Number x" if y: "y \<in> set (drop p xs)" for y
  proof -
    obtain i where "i < length xs - p" "y = xs ! (p + i)"
      using y by (auto simp: in_set_conv_nth)
    then have i: "p + i < length xs" "y = xs ! (p + i)" by simp_all
    then have "Number x < Number (xs ! p)"
      using b(3,4) cmp_batch_pos [of "xs ! p" x] by simp
    moreover have "Number (xs ! p) \<le> Number (xs ! (p + i))"
      using by_number_nth [OF s, of p "p + i"] i by simp
    ultimately show ?thesis using i by simp
  qed
  show "take p xs = takeWhile (\<lambda>y. Number y \<le> Number x) xs"
    "drop p xs = dropWhile (\<lambda>y. Number y \<le> Number x) xs"
    using takeWhile_dropWhile_split [of "take p xs" ?P "drop p xs", OF low high] by simp_all
qed

section \<open>What Insert does\<close>

definition has_room :: "batch_buffer \<Rightarrow> bool" where
  "has_room b = (of_nat (Len b) < buf_capacity b)"

lemma has_room_iff: "buffer_ok b \<Longrightarrow> has_room b \<longleftrightarrow> Len b < unat (buf_capacity b)"
  using unat_u64_bound [of "buf_capacity b"]
  by (simp add: has_room_def buffer_ok_def word_less_nat_alt)

lemma Insert_Inr:
  assumes ok: "buffer_ok b" and ins: "Insert b x = Inr b'"
  shows "batches b' = stable_insert x (batches b)"
    and "buf_capacity b' = buf_capacity b"
    and "buffer_ok b'"
    and "has_room b"
proof -
  obtain p where room: "\<not> of_nat (Len b) \<ge> buf_capacity b"
    and bs: "BinarySearchFunc cmp_batch (batches b) x = (p, False)"
    and b': "b' = b\<lparr>batches := take p (batches b) @ x # drop p (batches b)\<rparr>"
    using ins by (auto simp: Insert_def split: if_splits prod.splits)
  have srt: "by_number (batches b)" using ok by (simp add: buffer_ok_def)
  show con: "batches b' = stable_insert x (batches b)"
    unfolding b' stable_insert_def search_split [OF srt bs] by simp
  show cap: "buf_capacity b' = buf_capacity b" by (simp add: b')
  show room': "has_room b" using room by (simp add: has_room_def not_le)
  have "Len b' = Suc (Len b)" by (simp add: Len_def con)
  then show "buffer_ok b'"
    using has_room_iff [OF ok] room' srt
    by (simp add: buffer_ok_def con cap by_number_stable_insert)
qed

lemma Insert_capacity: "Insert b x = Inl ErrAtCapacity \<longleftrightarrow> \<not> has_room b"
  by (auto simp: Insert_def has_room_def not_less split: prod.splits)

lemma Insert_duplicate:
  "Insert b x = Inl ErrDuplicateBatch \<Longrightarrow> \<exists>y \<in> set (batches b). Hash y = Hash x"
  by (auto simp: Insert_def BinarySearchFunc_def Let_def split: if_splits)

lemma Insert_fresh:
  assumes "has_room b" and "\<And>y. y \<in> set (batches b) \<Longrightarrow> Hash y \<noteq> Hash x"
  shows "\<exists>b'. Insert b x = Inr b'"
proof (cases "Insert b x")
  case (Inl e)
  then have "e = ErrAtCapacity \<or> e = ErrDuplicateBatch" by (cases e) simp_all
  with Inl assms show ?thesis using Insert_capacity Insert_duplicate by blast
qed simp

lemma stable_insert_by_number_class:
  assumes "by_number xs"
  shows "filter (\<lambda>y. Number y = n) (stable_insert x xs)
    = filter (\<lambda>y. Number y = n) xs @ (if Number x = n then [x] else [])"
proof -
  let ?P = "\<lambda>y. Number y \<le> Number x" and ?Q = "\<lambda>y. Number y = n"
  have split: "filter ?Q xs = filter ?Q (takeWhile ?P xs) @ filter ?Q (dropWhile ?P xs)"
    by (simp only: filter_append [symmetric] takeWhile_dropWhile_id)
  have "filter ?Q (dropWhile ?P xs) = []" if "Number x = n"
    using by_number_dropWhile_greater [OF assms] that by (fastforce simp: filter_empty_conv)
  then show ?thesis by (auto simp: stable_insert_def split)
qed

section \<open>The contract the streamer uses\<close>

locale pending_buffer =
  fixes content :: "'q \<Rightarrow> batch list"
    and ok :: "'q \<Rightarrow> bool"
    and room :: "'q \<Rightarrow> bool"
    and ins :: "'q \<Rightarrow> batch \<Rightarrow> buffer_error + 'q"
    and front :: "'q \<Rightarrow> batch option"
    and pop :: "'q \<Rightarrow> batch option \<times> 'q"
    and clr :: "'q \<Rightarrow> 'q"
  assumes front_content: "front q = (case content q of [] \<Rightarrow> None | x # _ \<Rightarrow> Some x)"
    and pop_content: "content (snd (pop q)) = tl (content q)"
    and pop_front: "fst (pop q) = front q"
    and pop_ok: "ok q \<Longrightarrow> ok (snd (pop q))"
    and clr_content: "content (clr q) = []"
    and clr_ok: "ok q \<Longrightarrow> ok (clr q)"
    and ok_ordered: "ok q \<Longrightarrow> by_number (content q)"
    and ins_content: "ok q \<Longrightarrow> ins q x = Inr q' \<Longrightarrow> content q' = stable_insert x (content q)"
    and ins_keeps_ok: "ok q \<Longrightarrow> ins q x = Inr q' \<Longrightarrow> ok q'"
    and ins_full: "ins q x = Inl ErrAtCapacity \<longleftrightarrow> \<not> room q"
    and ins_dup: "ins q x = Inl ErrDuplicateBatch \<Longrightarrow> \<exists>y \<in> set (content q). Hash y = Hash x"
begin

lemma front_None [simp]: "front q = None \<longleftrightarrow> content q = []"
  by (simp add: front_content split: list.splits)

lemma front_Some: "front q = Some x \<longleftrightarrow> (\<exists>xs. content q = x # xs)"
  by (auto simp: front_content split: list.splits)

lemma front_in: "front q = Some x \<Longrightarrow> x \<in> set (content q)"
  by (auto simp: front_Some)

lemma front_least:
  "ok q \<Longrightarrow> front q = Some x \<Longrightarrow> y \<in> set (content q) \<Longrightarrow> Number x \<le> Number y"
  using ok_ordered [of q] by (auto simp: front_Some)

text \<open>The front is the earliest inserted among the batches of its number.\<close>

lemma front_first_of_class:
  "front q = Some x \<Longrightarrow> hd (filter (\<lambda>y. Number y = Number x) (content q)) = x"
  by (auto simp: front_Some)

lemma ins_content_in:
  "ok q \<Longrightarrow> ins q x = Inr q' \<Longrightarrow> set (content q') = insert x (set (content q))"
  by (simp add: ins_content)

lemma ins_class:
  "ok q \<Longrightarrow> ins q x = Inr q' \<Longrightarrow>
    filter (\<lambda>y. Number y = n) (content q')
      = filter (\<lambda>y. Number y = n) (content q) @ (if Number x = n then [x] else [])"
  by (simp add: ins_content ok_ordered stable_insert_by_number_class)

lemma pop_shrinks: "front q = Some x \<Longrightarrow> content q = x # content (snd (pop q))"
  by (auto simp: front_Some pop_content)

end

interpretation buf: pending_buffer batches buffer_ok has_room Insert Peek_buf Pop Clear
proof unfold_locales
  fix q q' :: batch_buffer and x
  show "Peek_buf q = (case batches q of [] \<Rightarrow> None | x # _ \<Rightarrow> Some x)"
    by (simp add: Peek_buf_def)
  show "batches (snd (Pop q)) = tl (batches q)"
    by (simp add: Pop_def split: list.splits)
  show "fst (Pop q) = Peek_buf q"
    by (simp add: Pop_def Peek_buf_def split: list.splits)
  show "batches (Clear q) = []" by (simp add: Clear_def)
  show "buffer_ok q \<Longrightarrow> by_number (batches q)" by (simp add: buffer_ok_def)
  show "buffer_ok q \<Longrightarrow> Insert q x = Inr q' \<Longrightarrow> batches q' = stable_insert x (batches q)"
    by (rule Insert_Inr(1))
  show "buffer_ok q \<Longrightarrow> Insert q x = Inr q' \<Longrightarrow> buffer_ok q'"
    by (rule Insert_Inr(3))
  show "Insert q x = Inl ErrAtCapacity \<longleftrightarrow> \<not> has_room q" by (rule Insert_capacity)
  show "Insert q x = Inl ErrDuplicateBatch \<Longrightarrow> \<exists>y \<in> set (batches q). Hash y = Hash x"
    by (rule Insert_duplicate)
  show "buffer_ok q \<Longrightarrow> buffer_ok (Clear q)"
    by (simp add: buffer_ok_def Clear_def Len_def)
  show "buffer_ok q \<Longrightarrow> buffer_ok (snd (Pop q))"
    by (cases "batches q") (auto simp: Pop_def buffer_ok_def Len_def)
qed

section \<open>Properties\<close>

definition sample_batch :: "u64 \<Rightarrow> hash \<Rightarrow> hash \<Rightarrow> batch" where
  "sample_batch n h p =
    \<lparr>Number = n, L1Origin = \<lparr>bid_hash = 7, bid_number = 1\<rparr>,
     Header = \<lparr>hdr_hash = h, hdr_parent = p\<rparr>, Hash = h, Signer = 5\<rparr>"

lemma sample_batch_simps [simp]:
  "Number (sample_batch n h p) = n" "Hash (sample_batch n h p) = h"
  "Header (sample_batch n h p) = \<lparr>hdr_hash = h, hdr_parent = p\<rparr>"
  "Signer (sample_batch n h p) = 5"
  "L1Origin (sample_batch n h p) = \<lparr>bid_hash = 7, bid_number = 1\<rparr>"
  by (simp_all add: sample_batch_def)

text \<open>
  C19. A successful \<open>Insert\<close> implements stable ordered insertion: although its comparison is
  not an order (an entry with the same number and another hash always compares as less),
  the binary search puts the new batch behind every batch whose number is not greater,
  and the buffer stays in number order, within its capacity.
\<close>

theorem insert_refines_stable_insert:
  assumes "buffer_ok b" and "Insert b x = Inr b'"
  shows "batches b' = stable_insert x (batches b) \<and> buf_capacity b' = buf_capacity b \<and> buffer_ok b'"
  using Insert_Inr [OF assms] by simp

lemma insert_refines_stable_insert_witness:
  "\<exists>b'. Insert \<lparr>batches = [sample_batch 1 1 0, sample_batch 3 3 0], buf_capacity = 4\<rparr> (sample_batch 2 2 0) = Inr b'
    \<and> batches b' = [sample_batch 1 1 0, sample_batch 2 2 0, sample_batch 3 3 0]"
proof -
  let ?b = "\<lparr>batches = [sample_batch 1 1 0, sample_batch 3 3 0], buf_capacity = 4\<rparr>"
  have ok: "buffer_ok ?b" by (simp add: buffer_ok_def Len_def)
  have "\<exists>b'. Insert ?b (sample_batch 2 2 0) = Inr b'"
    by (rule Insert_fresh) (auto simp: has_room_def Len_def)
  then obtain b' where b': "Insert ?b (sample_batch 2 2 0) = Inr b'" ..
  show ?thesis
    using b' insert_refines_stable_insert [OF ok b'] by (simp add: stable_insert_def)
qed

text \<open>
  Batches of one number are read in the order they were committed: a successful
  \<open>Insert\<close> appends the new batch to the subsequence of its number and leaves the
  subsequence of every other number as it was, so \<open>Peek\<close> returns a batch that was inserted
  before every other buffered batch of its number, and whose number is least.
\<close>

theorem insert_keeps_commit_order:
  assumes "buffer_ok b" and "Insert b x = Inr b'"
  shows "(\<forall>n. filter (\<lambda>y. Number y = n) (batches b')
      = filter (\<lambda>y. Number y = n) (batches b) @ (if Number x = n then [x] else []))
    \<and> (\<forall>z. Peek_buf b' = Some z \<longrightarrow>
      hd (filter (\<lambda>y. Number y = Number z) (batches b')) = z \<and> (\<forall>y \<in> set (batches b'). Number z \<le> Number y))"
  using buf.ins_class [OF assms] buf.front_first_of_class buf.front_least buf.ins_keeps_ok [OF assms]
  by blast

lemma insert_keeps_commit_order_witness:
  "\<exists>b'. Insert \<lparr>batches = [sample_batch 1 1 0], buf_capacity = 4\<rparr> (sample_batch 1 2 0) = Inr b'
    \<and> filter (\<lambda>y. Number y = 1) (batches b') = [sample_batch 1 1 0, sample_batch 1 2 0]
    \<and> Peek_buf b' = Some (sample_batch 1 1 0)"
proof -
  let ?b = "\<lparr>batches = [sample_batch 1 1 0], buf_capacity = 4\<rparr>"
  have ok: "buffer_ok ?b" by (simp add: buffer_ok_def Len_def)
  obtain b' where b': "Insert ?b (sample_batch 1 2 0) = Inr b'"
    using Insert_fresh [of ?b "sample_batch 1 2 0"] by (auto simp: has_room_def Len_def)
  have "filter (\<lambda>y. Number y = 1) (batches b') = [sample_batch 1 1 0, sample_batch 1 2 0]"
    using insert_keeps_commit_order [OF ok b'] by simp
  moreover have "Peek_buf b' = Some (sample_batch 1 1 0)"
    using Insert_Inr(1) [OF ok b'] by (simp add: stable_insert_def Peek_buf_def)
  ultimately show ?thesis using b' by simp
qed

text \<open>A stored copy is found when no later entry has its number.\<close>

lemma Insert_finds_last_copy:
  assumes ok: "buffer_ok b"
    and room: "Len b < unat (buf_capacity b)" and hb: "hash_binds (batches b) x"
    and bs: "batches b = us @ y # vs" and y: "Hash y = Hash x" and last: "\<forall>v \<in> set vs. Number x < Number v"
  shows "Insert b x = Inl ErrDuplicateBatch"
proof -
  obtain p found where srch: "BinarySearchFunc cmp_batch (batches b) x = (p, found)" by fastforce
  note bd = BinarySearchFunc_boundary [OF srch]
  have ny: "Number y = Number x" using hb bs y by (simp add: hash_binds_def)
  have beyond: "\<not> cmp_batch v x < 0" if "v \<in> set vs" for v
    using last that cmp_batch_neg [of v x] by (meson leD)
  have "p \<le> length us"
  proof (rule ccontr)
    assume "\<not> p \<le> length us"
    then have "batches b ! (p - 1) = y \<or> batches b ! (p - 1) \<in> set vs" and "0 < p"
      using bd(1) bs by (auto simp: nth_append nth_Cons' not_le)
    then show False using bd(2) beyond y by (metis cmp_batch_zero less_irrefl)
  qed
  then have "p < length (batches b)" and "Number (batches b ! p) \<le> Number y"
    using bs ok by_number_nth [of "batches b" p "length us"] by (auto simp: buffer_ok_def)
  then have "cmp_batch (batches b ! p) x = 0"
    using bd(3) cmp_batch_pos [of "batches b ! p" x] ny by fastforce
  with bd(4) \<open>p < length (batches b)\<close> have found by simp
  with srch room show "Insert b x = Inl ErrDuplicateBatch"
    using has_room_iff [OF ok] by (simp add: Insert_def has_room_def)
qed

text \<open>
  C37. When \<open>Insert\<close> fails and when it does not: \<open>ErrAtCapacity\<close> exactly on a full buffer;
  \<open>ErrDuplicateBatch\<close> only for a hash the buffer holds; a new hash always goes in while
  there is room; and a duplicate is caught whenever the stored copy is the last of its number.
\<close>

theorem insert_outcomes:
  assumes ok: "buffer_ok b"
  shows "(Insert b x = Inl ErrAtCapacity \<longleftrightarrow> Len b = unat (buf_capacity b))
    \<and> (Insert b x = Inl ErrDuplicateBatch \<longrightarrow> (\<exists>y \<in> set (batches b). Hash y = Hash x))
    \<and> (Len b < unat (buf_capacity b) \<and> (\<forall>y \<in> set (batches b). Hash y \<noteq> Hash x) \<longrightarrow>
          (\<exists>b'. Insert b x = Inr b'))
    \<and> (Len b < unat (buf_capacity b) \<and> hash_binds (batches b) x \<and>
          (\<exists>us y vs. batches b = us @ y # vs \<and> Hash y = Hash x \<and> (\<forall>v \<in> set vs. Number x < Number v)) \<longrightarrow>
          Insert b x = Inl ErrDuplicateBatch)"
proof (intro conjI impI)
  show "Insert b x = Inl ErrAtCapacity \<longleftrightarrow> Len b = unat (buf_capacity b)"
    using ok Insert_capacity [of b x] has_room_iff [OF ok] by (auto simp: buffer_ok_def)
qed (use Insert_duplicate [of b x] Insert_fresh [of b x] has_room_iff [OF ok]
    Insert_finds_last_copy [OF ok] in blast)+

lemma insert_outcomes_witness:
  "Insert \<lparr>batches = [sample_batch 1 1 0, sample_batch 3 3 0], buf_capacity = 4\<rparr> (sample_batch 1 1 0)
    = Inl ErrDuplicateBatch"
proof -
  let ?b = "\<lparr>batches = [sample_batch 1 1 0, sample_batch 3 3 0], buf_capacity = 4\<rparr>"
  have "buffer_ok ?b" by (simp add: buffer_ok_def Len_def)
  moreover have "\<exists>us y vs. batches ?b = us @ y # vs \<and> Hash y = Hash (sample_batch 1 1 0)
      \<and> (\<forall>v \<in> set vs. Number (sample_batch 1 1 0) < Number v)"
    by (rule exI [of _ "[]"]) simp
  ultimately show ?thesis
    using insert_outcomes [of ?b "sample_batch 1 1 0"] by (simp add: Len_def hash_binds_def)
qed

text \<open>
  The duplicate check is incomplete: after two batches of one number, the first of them
  is accepted a second time, because the search only looks at the slot it ends on and the
  later entry of that number sends it past the copy.
\<close>

theorem insert_misses_duplicate:
  assumes "Number y = Number z" and "Hash y \<noteq> Hash z" and "2 < cap"
  shows "Insert \<lparr>batches = [y, z], buf_capacity = cap\<rparr> y = Inr \<lparr>batches = [y, z, y], buf_capacity = cap\<rparr>"
proof -
  have "cmp_batch z y < 0" using assms by (simp add: cmp_batch_def)
  then have "bsearch_loop cmp_batch [y, z] y 0 2 = 2"
    by (simp add: bsearch_loop.simps [of _ _ _ 0 2] bsearch_loop.simps [of _ _ _ "Suc (Suc 0)" 2] Let_def)
  then have "BinarySearchFunc cmp_batch [y, z] y = (2, False)"
    by (simp add: BinarySearchFunc_def Let_def numeral_2_eq_2)
  with assms(3) show ?thesis by (simp add: Insert_def Len_def not_le)
qed

lemma insert_misses_duplicate_witness:
  "Insert \<lparr>batches = [sample_batch 5 1 0, sample_batch 5 2 0], buf_capacity = 1024\<rparr> (sample_batch 5 1 0)
    = Inr \<lparr>batches = [sample_batch 5 1 0, sample_batch 5 2 0, sample_batch 5 1 0], buf_capacity = 1024\<rparr>"
  by (rule insert_misses_duplicate) simp_all

end
