(* ===== verification/Op_Types.thy ===== *)
theory Op_Types
  imports Batch_Buffer
begin

text \<open>
  The state of \<open>BatchStreamer\<close> (\<open>op/op_streamer.go\<close>) and its surroundings. Everything the
  streamer calls outside this repository (the L1 and HotShot clients, the light client, the
  generated contract binding, the LRU caches, the wall clock, the function that decodes a
  transaction) is a field of the record \<open>env\<close>. A remote call takes the state of the world
  and returns a new one, so two calls with the same arguments may answer differently.
\<close>

section \<open>Data\<close>

record finalized_state =               \<comment> \<open>\<open>FinalizedState\<close>\<close>
  ViewNum :: u64
  BlockHeight :: u64
  BlockCommRoot :: int

record l1_block_ref =                  \<comment> \<open>\<open>eth.L1BlockRef\<close>\<close>
  ref_hash :: hash
  ref_number :: u64
  ref_parent :: hash
  ref_time :: u64

definition zero_ref :: l1_block_ref where
  "zero_ref = \<lparr>ref_hash = 0, ref_number = 0, ref_parent = 0, ref_time = 0\<rparr>"

record l1_state =                      \<comment> \<open>\<open>l1State\<close>\<close>
  st_hash :: hash
  authorizedBatchers :: "address list"

type_synonym ext_err = string          \<comment> \<open>an error of a remote call, opaque\<close>

record ns_block =                      \<comment> \<open>\<open>NamespaceTransactionsRangeData\<close>: the payloads of one block\<close>
  Transactions :: "bytes list"

datatype streamer_error =
    NoAuthenticatorAddress
  | BindFailed ext_err
  | LatestHeightFailed ext_err
  | HeightOverflows
  | FinishZero
  | RangeCallFailed ext_err
  | RangeFailed streamer_error

text \<open>The header versions of the Espresso SDK; the finalized block is behind a pointer.\<close>

record l1_block_info =
  info_number :: u64
  info_timestamp :: u64
  info_hash :: hash

datatype versioned_header =
    Header0_1 "l1_block_info option"
  | Header0_2 "l1_block_info option"
  | Header0_3 "l1_block_info option"
  | HeaderUnknown

datatype go_panic = NilDereference | UnsupportedHeader | IndexOutOfRange

definition deref :: "'a option \<Rightarrow> go_panic + 'a" where
  "deref p = (case p of None \<Rightarrow> Inl NilDereference | Some x \<Rightarrow> Inr x)"

fun GetFinalizedL1 :: "versioned_header \<Rightarrow> go_panic + l1_block_info" where
  "GetFinalizedL1 (Header0_1 p) = deref p"
| "GetFinalizedL1 (Header0_2 p) = deref p"
| "GetFinalizedL1 (Header0_3 p) = deref p"
| "GetFinalizedL1 HeaderUnknown = Inl UnsupportedHeader"

section \<open>The surroundings\<close>

record ('k, 'v, 'c) lru =              \<comment> \<open>\<open>simplelru.LRU\<close>\<close>
  lru_new :: "nat \<Rightarrow> 'c"
  lru_get :: "'c \<Rightarrow> 'k \<Rightarrow> 'v option \<times> 'c"
  lru_add :: "'c \<Rightarrow> 'k \<Rightarrow> 'v \<Rightarrow> 'c"

text \<open>
  What the streamer relies on of the cache: a fresh cache is empty, \<open>Get\<close> only reorders, a
  stored value is found until it is evicted, and \<open>Add\<close> may evict other keys but invents nothing.
\<close>

definition lru_lawful :: "('k, 'v, 'c) lru \<Rightarrow> bool" where
  "lru_lawful l =
    ((\<forall>n k. fst (lru_get l (lru_new l n) k) = None)
     \<and> (\<forall>c k k'. fst (lru_get l (snd (lru_get l c k)) k') = fst (lru_get l c k'))
     \<and> (\<forall>c k v. fst (lru_get l (lru_add l c k v) k) = Some v)
     \<and> (\<forall>c k v k'. k' \<noteq> k \<longrightarrow>
          fst (lru_get l (lru_add l c k v) k') = None
          \<or> fst (lru_get l (lru_add l c k v) k') = fst (lru_get l c k')))"

record ('w, 'c, 't) env =
  FetchLatestBlockHeight :: "'w \<Rightarrow> (ext_err + u64) \<times> 'w"
  FetchNamespaceTransactionsInRange :: "u64 \<Rightarrow> u64 \<Rightarrow> u64 \<Rightarrow> 'w \<Rightarrow> (ext_err + ns_block list) \<times> 'w"
  LightClientFinalizedState :: "u64 \<Rightarrow> 'w \<Rightarrow> (ext_err + finalized_state) \<times> 'w"
  HeaderHashByNumber :: "u64 \<Rightarrow> 'w \<Rightarrow> (ext_err + hash) \<times> 'w"
  EspressoBatcher :: "u64 \<Rightarrow> 'w \<Rightarrow> (ext_err + address) \<times> 'w"
  EspressoBatcherAtBlock :: "u64 \<Rightarrow> u64 \<Rightarrow> 'w \<Rightarrow> (ext_err + address) \<times> 'w"
  NewBatchAuthenticatorCaller :: "address \<Rightarrow> ext_err option"
  unmarshalBatch :: "bytes \<Rightarrow> ext_err + batch"
  UnixNow :: "'w \<Rightarrow> u64 \<times> 'w"
  state_lru :: "(u64, l1_state, 'c) lru"
  ts_lru :: "(hash, u64, 't) lru"

section \<open>The streamer\<close>

record ('c, 't) streamer =
  Namespace :: u64
  nextBatchPos :: u64
  fallbackBatchPos :: u64
  hotShotPos :: u64
  fallbackHotShotPos :: u64
  originHotShotPos :: u64
  FinalizedL1 :: l1_block_ref
  skipPos :: u64
  headBatch :: "batch option"
  BatchBuffer :: batch_buffer
  finalizedL1StateCache :: 'c
  espressoBatcher :: address
  trackBatchTimestamp :: bool
  batchTimestamps :: "'t option"

definition BatchBufferCapacity :: u64 where "BatchBufferCapacity = 1024"

definition HOTSHOT_BLOCK_FETCH_LIMIT :: u64 where "HOTSHOT_BLOCK_FETCH_LIMIT = 100"

definition NewEspressoStreamer ::
  "('w, 'c, 't) env \<Rightarrow> u64 \<Rightarrow> u64 \<Rightarrow> u64 \<Rightarrow> address \<Rightarrow> bool \<Rightarrow> streamer_error + ('c, 't) streamer" where
  "NewEspressoStreamer e namespace originHotShot originBatchPos authenticator track =
    (if authenticator = 0 then Inl NoAuthenticatorAddress
     else case NewBatchAuthenticatorCaller e authenticator of
       Some err \<Rightarrow> Inl (BindFailed err)
     | None \<Rightarrow> Inr
        \<lparr>Namespace = namespace,
         nextBatchPos = originBatchPos + 1,
         fallbackBatchPos = originBatchPos,
         hotShotPos = originHotShot,
         fallbackHotShotPos = originHotShot,
         originHotShotPos = originHotShot,
         FinalizedL1 = zero_ref,
         skipPos = MaxUint64,
         headBatch = None,
         BatchBuffer = NewBatchBuffer BatchBufferCapacity,
         finalizedL1StateCache = lru_new (state_lru e) 1000,
         espressoBatcher = 0,
         trackBatchTimestamp = track,
         batchTimestamps =
           (if track then Some (lru_new (ts_lru e) (unat BatchBufferCapacity)) else None)\<rparr>)"

end
