(* ===== verification/Op_Streamer.thy ===== *)
theory Op_Streamer
  imports Op_Types
begin

text \<open>
  The operations of \<open>BatchStreamer\<close>, method by method. A method of the Go receiver takes the
  environment, the streamer and the world and returns its result with both states; log calls
  have no effect on either and are left out.
\<close>

section \<open>CheckBatch\<close>

definition CheckBatch ::
  "('w, 'c, 't) env \<Rightarrow> batch \<Rightarrow> ('c, 't) streamer \<Rightarrow> 'w \<Rightarrow> batch_validity \<times> ('c, 't) streamer \<times> 'w" where
  "CheckBatch e b s w =
    (if Number b < nextBatchPos s then (BatchPast, s, w)
     else if FinalizedL1 s = zero_ref then (BatchUndecided, s, w)
     else
       let origin = L1Origin b in
       if bid_number origin > ref_number (FinalizedL1 s) then
         (if espressoBatcher s \<noteq> 0 \<and> Signer b \<noteq> espressoBatcher s
          then (BatchDrop, s, w) else (BatchUndecided, s, w))
       else
         let (cached, c) = lru_get (state_lru e) (finalizedL1StateCache s) (bid_number origin);
             s = s\<lparr>finalizedL1StateCache := c\<rparr>;
             verdict = (\<lambda>st. if Signer b \<notin> set (authorizedBatchers st) then BatchDrop
                             else if st_hash st \<noteq> bid_hash origin then BatchDrop
                             else BatchAccept)
         in case cached of
              Some st \<Rightarrow> (verdict st, s, w)
            | None \<Rightarrow>
                (case HeaderHashByNumber e (bid_number origin) w of
                   (Inl err, w) \<Rightarrow> (BatchUndecided, s, w)
                 | (Inr h, w) \<Rightarrow>
                     (case EspressoBatcherAtBlock e (ref_number (FinalizedL1 s)) (bid_number origin) w of
                        (Inl err, w) \<Rightarrow> (BatchUndecided, s, w)
                      | (Inr a, w) \<Rightarrow>
                          if a = 0 then (BatchDrop, s, w)
                          else
                            let st = \<lparr>st_hash = h, authorizedBatchers = [a]\<rparr>;
                                s = s\<lparr>finalizedL1StateCache :=
                                       lru_add (state_lru e) (finalizedL1StateCache s) (bid_number origin) st\<rparr>
                            in (verdict st, s, w))))"

text \<open>The cache is all that \<open>CheckBatch\<close> writes.\<close>

lemma CheckBatch_frame:
  assumes "CheckBatch e b s w = (v, s', w')"
  shows "\<exists>c. s' = s\<lparr>finalizedL1StateCache := c\<rparr>"
proof -
  have same: "\<exists>c. s = s\<lparr>finalizedL1StateCache := c\<rparr>"
    by (rule exI [of _ "finalizedL1StateCache s"]) simp
  show ?thesis
    using assms same
    by (auto simp: CheckBatch_def Let_def split: if_splits prod.splits option.splits sum.splits)
qed

section \<open>HasNext, Peek, Next\<close>

text \<open>
  The first half of the \<open>HasNext\<close> loop body: find a candidate. Either there is none
  (\<open>return false\<close>), or a stale entry was popped (\<open>continue\<close>), or there is a head batch to check.
\<close>

datatype ('c, 't) candidate =
    NoCandidate
  | StalePopped "('c, 't) streamer"
  | Candidate batch "('c, 't) streamer"

definition find_candidate :: "('c, 't) streamer \<Rightarrow> ('c, 't) candidate" where
  "find_candidate s =
    (case headBatch s of
       Some h \<Rightarrow> Candidate h s
     | None \<Rightarrow>
         (case Peek_buf (BatchBuffer s) of
            None \<Rightarrow> NoCandidate
          | Some nextBuffered \<Rightarrow>
              if Number nextBuffered < nextBatchPos s
              then StalePopped (s\<lparr>BatchBuffer := snd (Pop (BatchBuffer s))\<rparr>)
              else if Number nextBuffered \<noteq> nextBatchPos s then NoCandidate
              else Candidate nextBuffered
                     (s\<lparr>headBatch := Some nextBuffered, BatchBuffer := snd (Pop (BatchBuffer s))\<rparr>)))"

definition pending :: "('c, 't) streamer \<Rightarrow> nat" where
  "pending s = Len (BatchBuffer s) + (if headBatch s = None then 0 else 1)"

lemma Pop_pending: "Peek_buf b = Some x \<Longrightarrow> Len b = Suc (Len (snd (Pop b)))"
  using buf.pop_shrinks [of b x] by (simp add: Len_def)

lemma find_candidate_pending:
  "find_candidate s = StalePopped s' \<Longrightarrow> pending s' < pending s"
  "find_candidate s = Candidate b s' \<Longrightarrow> pending s' = pending s \<and> headBatch s' = Some b"
  by (auto simp: find_candidate_def pending_def dest!: Pop_pending split: option.splits if_splits)

lemma dropped_candidate_pending:
  assumes "find_candidate s = Candidate b s1" and "(v, s2, w2) = CheckBatch e b s1 w"
  shows "pending (s2\<lparr>headBatch := None\<rparr>) < pending s"
  using find_candidate_pending(2) [OF assms(1)] CheckBatch_frame [OF assms(2) [symmetric]]
  by (auto simp: pending_def)

function HasNext :: "('w, 'c, 't) env \<Rightarrow> ('c, 't) streamer \<Rightarrow> 'w \<Rightarrow> bool \<times> ('c, 't) streamer \<times> 'w" where
  "HasNext e s w =
    (case find_candidate s of
       NoCandidate \<Rightarrow> (False, s, w)
     | StalePopped s \<Rightarrow> HasNext e s w
     | Candidate b s \<Rightarrow>
         (case CheckBatch e b s w of
            (BatchAccept, s, w) \<Rightarrow> (True, s, w)
          | (BatchUndecided, s, w) \<Rightarrow> (False, s, w)
          | (BatchDrop, s, w) \<Rightarrow> HasNext e (s\<lparr>headBatch := None\<rparr>) w
          | (BatchPast, s, w) \<Rightarrow> HasNext e (s\<lparr>headBatch := None\<rparr>) w))"
  by pat_completeness auto
termination
  by (relation "measure (\<lambda>(e, s, w). pending s)")
    (auto intro: find_candidate_pending dropped_candidate_pending)

declare HasNext.simps [simp del]

definition Peek ::
  "('w, 'c, 't) env \<Rightarrow> ('c, 't) streamer \<Rightarrow> 'w \<Rightarrow> batch option \<times> ('c, 't) streamer \<times> 'w" where
  "Peek e s w =
    (case HasNext e s w of
       (available, s, w) \<Rightarrow> (if available then headBatch s else None, s, w))"

definition Next ::
  "('w, 'c, 't) env \<Rightarrow> ('c, 't) streamer \<Rightarrow> 'w \<Rightarrow> batch option \<times> ('c, 't) streamer \<times> 'w" where
  "Next e s w =
    (case HasNext e s w of
       (available, s, w) \<Rightarrow>
         if available then
           let head = headBatch s;
               s = s\<lparr>nextBatchPos := nextBatchPos s + 1, headBatch := None\<rparr>;
               s = (if skipPos s \<noteq> MaxUint64 then s\<lparr>hotShotPos := skipPos s, skipPos := MaxUint64\<rparr> else s)
           in (head, s, w)
         else (None, s, w))"

section \<open>Reset, Refresh\<close>

definition Reset :: "('c, 't) streamer \<Rightarrow> ('c, 't) streamer" where
  "Reset s = s\<lparr>hotShotPos := fallbackHotShotPos s,
               nextBatchPos := fallbackBatchPos s + 1,
               headBatch := None,
               skipPos := MaxUint64,
               BatchBuffer := Clear (BatchBuffer s)\<rparr>"

definition confirmEspressoBlockHeight ::
  "('w, 'c, 't) env \<Rightarrow> block_id \<Rightarrow> ('c, 't) streamer \<Rightarrow> 'w \<Rightarrow> bool \<times> ('c, 't) streamer \<times> 'w" where
  "confirmEspressoBlockHeight e safeL1Origin s w =
    (case LightClientFinalizedState e (bid_number safeL1Origin) w of
       (Inl err, w) \<Rightarrow>
         (False, s\<lparr>fallbackHotShotPos := max (fallbackHotShotPos s) (originHotShotPos s)\<rparr>, w)
     | (Inr st, w) \<Rightarrow>
         if BlockHeight st \<le> originHotShotPos s then (False, s, w)
         else (BlockHeight st < fallbackHotShotPos s, s\<lparr>fallbackHotShotPos := BlockHeight st\<rparr>, w))"

definition RefreshSafeL1Origin ::
  "('w, 'c, 't) env \<Rightarrow> block_id \<Rightarrow> ('c, 't) streamer \<Rightarrow> 'w \<Rightarrow> ('c, 't) streamer \<times> 'w" where
  "RefreshSafeL1Origin e safeL1Origin s w =
    (case confirmEspressoBlockHeight e safeL1Origin s w of
       (shouldReset, s, w) \<Rightarrow> (if shouldReset then Reset s else s, w))"

definition refresh_batcher ::
  "('w, 'c, 't) env \<Rightarrow> l1_block_ref \<Rightarrow> ('c, 't) streamer \<Rightarrow> 'w \<Rightarrow> ('c, 't) streamer \<times> 'w" where
  "refresh_batcher e finalizedL1 s w =
    (case EspressoBatcher e (ref_number finalizedL1) w of
       (Inl err, w) \<Rightarrow> (s, w)
     | (Inr a, w) \<Rightarrow> (if a \<noteq> 0 then s\<lparr>espressoBatcher := a\<rparr> else s, w))"

definition refresh_positions :: "u64 \<Rightarrow> ('c, 't) streamer \<Rightarrow> ('c, 't) streamer" where
  "refresh_positions safeBatchNumber s =
    (if fallbackBatchPos s = safeBatchNumber then s
     else
       let shouldReset = safeBatchNumber < fallbackBatchPos s \<or> fallbackHotShotPos s > hotShotPos s;
           s = s\<lparr>fallbackBatchPos := safeBatchNumber\<rparr>;
           shouldReset = (shouldReset \<or> nextBatchPos s \<le> fallbackBatchPos s)
       in if shouldReset then Reset s else s)"

text \<open>\<open>Refresh\<close> always returns a nil error.\<close>

definition Refresh ::
  "('w, 'c, 't) env \<Rightarrow> l1_block_ref \<Rightarrow> u64 \<Rightarrow> block_id \<Rightarrow> ('c, 't) streamer \<Rightarrow> 'w
    \<Rightarrow> ('c, 't) streamer \<times> 'w" where
  "Refresh e finalizedL1 safeBatchNumber safeL1Origin s w =
    (let s = s\<lparr>FinalizedL1 := finalizedL1\<rparr>;
         (s, w) = refresh_batcher e finalizedL1 s w;
         (s, w) = RefreshSafeL1Origin e safeL1Origin s w
     in (refresh_positions safeBatchNumber s, w))"

definition GetFallbackHotshotPos :: "('c, 't) streamer \<Rightarrow> u64" where
  "GetFallbackHotshotPos s = fallbackHotShotPos s"

definition UnmarshalBatch :: "('w, 'c, 't) env \<Rightarrow> bytes \<Rightarrow> ext_err + batch" where
  "UnmarshalBatch e b = unmarshalBatch e b"

text \<open>
  The timestamp lookup moves the entry to the front of the cache. With tracking on the
  cache is never nil, so the dereference of a nil cache is the unreachable \<open>None\<close> branch.
\<close>

definition GetBatchFinalizationTimestamp ::
  "('w, 'c, 't) env \<Rightarrow> hash \<Rightarrow> ('c, 't) streamer \<Rightarrow> u64 option \<times> ('c, 't) streamer" where
  "GetBatchFinalizationTimestamp e h s =
    (if \<not> trackBatchTimestamp s then (None, s)
     else case batchTimestamps s of
       None \<Rightarrow> (None, s)
     | Some c \<Rightarrow> (let (r, c) = lru_get (ts_lru e) c h in (r, s\<lparr>batchTimestamps := Some c\<rparr>)))"

section \<open>SetProperHead\<close>

text \<open>The loop over the buffer: drop the front while it has the expected number and another parent.\<close>

fun drain_forks :: "u64 \<Rightarrow> hash \<Rightarrow> batch list \<Rightarrow> batch list" where
  "drain_forks pos parentHash [] = []"
| "drain_forks pos parentHash (head # rest) =
    (if Number head \<noteq> pos then head # rest
     else if hdr_parent (Header head) \<noteq> parentHash then drain_forks pos parentHash rest
     else head # rest)"

definition SetProperHead :: "hash \<Rightarrow> ('c, 't) streamer \<Rightarrow> ('c, 't) streamer" where
  "SetProperHead parentHash s =
    (case headBatch s of
       Some h \<Rightarrow> if Number h \<noteq> nextBatchPos s then s
                  else s\<lparr>headBatch := None,
                         BatchBuffer := (BatchBuffer s)\<lparr>batches :=
                           drain_forks (nextBatchPos s) parentHash (batches (BatchBuffer s))\<rparr>\<rparr>
     | None \<Rightarrow> s\<lparr>headBatch := None,
                  BatchBuffer := (BatchBuffer s)\<lparr>batches :=
                    drain_forks (nextBatchPos s) parentHash (batches (BatchBuffer s))\<rparr>\<rparr>)"

section \<open>Reading HotShot\<close>

text \<open>The last step of \<open>processEspressoTransaction\<close>: note when HotShot finalized the batch.\<close>

definition record_timestamp ::
  "('w, 'c, 't) env \<Rightarrow> batch \<Rightarrow> u64 \<Rightarrow> ('c, 't) streamer \<Rightarrow> ('c, 't) streamer" where
  "record_timestamp e b hotshotTimestamp s =
    (if trackBatchTimestamp s \<and> hotshotTimestamp \<noteq> 0
     then s\<lparr>batchTimestamps :=
       map_option (\<lambda>c. lru_add (ts_lru e) c (Hash b) hotshotTimestamp) (batchTimestamps s)\<rparr>
     else s)"

text \<open>
  A batch that was not rejected becomes the head or goes to the buffer. The error result is
  the capacity error or nil (\<open>None\<close>).
\<close>

definition store_batch ::
  "('w, 'c, 't) env \<Rightarrow> batch \<Rightarrow> u64 \<Rightarrow> ('c, 't) streamer \<Rightarrow> buffer_error option \<times> ('c, 't) streamer" where
  "store_batch e b hotshotTimestamp s =
    (let duplicate_head = (case headBatch s of
           Some h \<Rightarrow> Number b = Number h \<and> Hash b = Hash h | None \<Rightarrow> False)
     in if duplicate_head then (None, s)
        else if Number b = nextBatchPos s \<and> headBatch s = None
        then (None, record_timestamp e b hotshotTimestamp (s\<lparr>headBatch := Some b\<rparr>))
        else (case Insert (BatchBuffer s) b of
                Inl ErrDuplicateBatch \<Rightarrow> (None, record_timestamp e b hotshotTimestamp s)
              | Inl ErrAtCapacity \<Rightarrow> (Some ErrAtCapacity, s)
              | Inr buf \<Rightarrow> (None, record_timestamp e b hotshotTimestamp (s\<lparr>BatchBuffer := buf\<rparr>))))"

definition processEspressoTransaction ::
  "('w, 'c, 't) env \<Rightarrow> bytes \<Rightarrow> u64 \<Rightarrow> ('c, 't) streamer \<Rightarrow> 'w
    \<Rightarrow> buffer_error option \<times> ('c, 't) streamer \<times> 'w" where
  "processEspressoTransaction e txn hotshotTimestamp s w =
    (case UnmarshalBatch e txn of
       Inl err \<Rightarrow> (None, s, w)
     | Inr b \<Rightarrow>
         (case CheckBatch e b s w of (validity, s, w) \<Rightarrow>
            if validity = BatchDrop \<or> validity = BatchPast then (None, s, w)
            else (case store_batch e b hotshotTimestamp s of (err, s) \<Rightarrow> (err, s, w))))"

fun process_txns ::
  "('w, 'c, 't) env \<Rightarrow> u64 \<Rightarrow> u64 \<Rightarrow> bytes list \<Rightarrow> ('c, 't) streamer \<Rightarrow> 'w \<Rightarrow> ('c, 't) streamer \<times> 'w" where
  "process_txns e blockPos ts [] s w = (s, w)"
| "process_txns e blockPos ts (txn # txns) s w =
    (case processEspressoTransaction e txn ts s w of
       (err, s, w) \<Rightarrow>
         process_txns e blockPos ts txns
           (if err = Some ErrAtCapacity
            then s\<lparr>skipPos := min (skipPos s) (if blockPos > 0 then blockPos - 1 else 0)\<rparr>
            else s) w)"

definition header_timestamp :: "u64 list \<Rightarrow> nat \<Rightarrow> ('c, 't) streamer \<Rightarrow> u64" where
  "header_timestamp stamps i s = (if trackBatchTimestamp s \<and> i < length stamps then stamps ! i else 0)"

fun process_blocks ::
  "('w, 'c, 't) env \<Rightarrow> u64 \<Rightarrow> u64 list \<Rightarrow> nat \<Rightarrow> ns_block list \<Rightarrow> ('c, 't) streamer \<Rightarrow> 'w
    \<Rightarrow> ('c, 't) streamer \<times> 'w" where
  "process_blocks e start stamps i [] s w = (s, w)"
| "process_blocks e start stamps i (blk # blks) s w =
    (let blockPos = start + of_nat i;
         ts = header_timestamp stamps i s;
         (s, w) = process_txns e blockPos ts (Transactions blk) s w
     in process_blocks e start stamps (Suc i) blks s w)"

definition fetchHotShotRange ::
  "('w, 'c, 't) env \<Rightarrow> u64 \<Rightarrow> u64 \<Rightarrow> ('c, 't) streamer \<Rightarrow> 'w
    \<Rightarrow> streamer_error option \<times> ('c, 't) streamer \<times> 'w" where
  "fetchHotShotRange e start finish s w =
    (if finish = 0 then (Some FinishZero, s, w)
     else
       case FetchNamespaceTransactionsInRange e start finish (Namespace s) w of
         (Inl err, w) \<Rightarrow> (Some (RangeCallFailed err), s, w)
       | (Inr blocks, w) \<Rightarrow>
           if blocks = [] then (None, s, w)
           else
             let (now, w) = UnixNow e w;
                 stamps = (if trackBatchTimestamp s then replicate (length blocks) now else []);
                 s = s\<lparr>hotShotPos := finish - 1\<rparr>;
                 (s, w) = process_blocks e start stamps 0 blocks s w
             in (None, s, w))"

definition computeEspressoBlockHeightsRange :: "u64 \<Rightarrow> u64 \<Rightarrow> ('c, 't) streamer \<Rightarrow> u64 \<times> u64" where
  "computeEspressoBlockHeightsRange finalizedBlockHeight limit s =
    (let start = (if hotShotPos s > 0 then hotShotPos s + 1 else hotShotPos s)
     in (start, min (start + limit) (finalizedBlockHeight + 1)))"

section \<open>Update\<close>

text \<open>
  The loop of \<open>Update\<close> has no bound of its own, so it is a partial function: \<open>None\<close> is a
  call that never returns. The result is the error, if any, and both states.
\<close>

partial_function (option) update_loop ::
  "('w, 'c, 't) env \<Rightarrow> u64 \<Rightarrow> nat \<Rightarrow> ('c, 't) streamer \<Rightarrow> 'w
    \<Rightarrow> (streamer_error option \<times> ('c, 't) streamer \<times> 'w) option" where
  "update_loop e finalizedBlockHeight i s w =
    (case computeEspressoBlockHeightsRange finalizedBlockHeight HOTSHOT_BLOCK_FETCH_LIMIT s of
       (start, finish) \<Rightarrow>
         if start \<ge> finish \<or> (start + 1 = finish \<and> i > 0) then Some (None, s, w)
         else
           (case fetchHotShotRange e start finish s w of
              (err, s, w) \<Rightarrow>
                (case err of
                   Some x \<Rightarrow> Some (Some (RangeFailed x), s, w)
                 | None \<Rightarrow>
                     (case HasNext e s w of
                        (available, s, w) \<Rightarrow>
                          if available then Some (None, s, w)
                          else update_loop e finalizedBlockHeight (Suc i) s w))))"

declare update_loop.simps [code]

definition Update ::
  "('w, 'c, 't) env \<Rightarrow> ('c, 't) streamer \<Rightarrow> 'w \<Rightarrow> (streamer_error option \<times> ('c, 't) streamer \<times> 'w) option" where
  "Update e s w =
    (case FetchLatestBlockHeight e w of
       (Inl err, w) \<Rightarrow> Some (Some (LatestHeightFailed err), s, w)
     | (Inr latest, w) \<Rightarrow>
         if latest = MaxUint64 then Some (Some HeightOverflows, s, w)
         else if latest < 2 then Some (None, s, w)
         else update_loop e (latest - 2) 0 s w)"

end
