(* ===== verification/Op_Invariant.thy ===== *)
theory Op_Invariant
  imports Op_Streamer
begin

text \<open>
  The well-formedness invariant of \<open>BatchStreamer\<close> and what each operation leaves alone.
\<close>

section \<open>Frames\<close>

text \<open>\<open>HasNext\<close> may write the head, the buffer and the cache; \<open>CheckBatch\<close> only the cache.\<close>

definition refill :: "('c, 't) streamer \<Rightarrow> ('c, 't) streamer \<Rightarrow> bool" where
  "refill s s' =
    (nextBatchPos s' = nextBatchPos s \<and> hotShotPos s' = hotShotPos s \<and> skipPos s' = skipPos s
     \<and> fallbackBatchPos s' = fallbackBatchPos s \<and> fallbackHotShotPos s' = fallbackHotShotPos s
     \<and> originHotShotPos s' = originHotShotPos s \<and> FinalizedL1 s' = FinalizedL1 s
     \<and> espressoBatcher s' = espressoBatcher s \<and> Namespace s' = Namespace s
     \<and> trackBatchTimestamp s' = trackBatchTimestamp s \<and> batchTimestamps s' = batchTimestamps s)"

definition cache_update :: "('c, 't) streamer \<Rightarrow> ('c, 't) streamer \<Rightarrow> bool" where
  "cache_update s s' = (refill s s' \<and> headBatch s' = headBatch s \<and> BatchBuffer s' = BatchBuffer s)"

lemma refill_refl [simp]: "refill s s"
  by (simp add: refill_def)

lemma refill_trans: "refill s s' \<Longrightarrow> refill s' s'' \<Longrightarrow> refill s s''"
  by (simp add: refill_def)

lemma refill_updates [simp]:
  "refill s (s'\<lparr>headBatch := h\<rparr>) = refill s s'"
  "refill s (s'\<lparr>BatchBuffer := b\<rparr>) = refill s s'"
  "refill s (s'\<lparr>finalizedL1StateCache := c\<rparr>) = refill s s'"
  by (simp_all add: refill_def)

lemma CheckBatch_cache_update: "CheckBatch e b s w = (v, s', w') \<Longrightarrow> cache_update s s'"
  using CheckBatch_frame [of e b s w v s' w'] by (auto simp: cache_update_def)

lemma cache_update_refill: "cache_update s s' \<Longrightarrow> refill s s'"
  by (simp add: cache_update_def)

lemmas CheckBatch_refill = cache_update_refill [OF CheckBatch_cache_update]

section \<open>The invariant\<close>

text \<open>
  The buffer is in order and within capacity, and the head batch, when there is one, is the
  batch the streamer is to give out next.
\<close>

definition streamer_ok :: "('c, 't) streamer \<Rightarrow> bool" where
  "streamer_ok s =
    (buffer_ok (BatchBuffer s)
     \<and> buf_capacity (BatchBuffer s) = BatchBufferCapacity
     \<and> (\<forall>h. headBatch s = Some h \<longrightarrow> Number h = nextBatchPos s))"

lemma Pop_capacity [simp]: "buf_capacity (snd (Pop b)) = buf_capacity b"
  by (simp add: Pop_def split: list.splits)

lemma Clear_capacity [simp]: "buf_capacity (Clear b) = buf_capacity b"
  by (simp add: Clear_def)

lemma streamer_ok_cong:
  "BatchBuffer s' = BatchBuffer s \<Longrightarrow> headBatch s' = headBatch s \<or> headBatch s' = None
    \<Longrightarrow> nextBatchPos s' = nextBatchPos s \<Longrightarrow> streamer_ok s \<Longrightarrow> streamer_ok s'"
  by (auto simp: streamer_ok_def)

lemma find_candidate_ok:
  assumes "streamer_ok s"
  shows "find_candidate s = StalePopped s' \<Longrightarrow> streamer_ok s' \<and> nextBatchPos s' = nextBatchPos s"
    and "find_candidate s = Candidate b s' \<Longrightarrow>
      streamer_ok s' \<and> nextBatchPos s' = nextBatchPos s \<and> headBatch s' = Some b"
  using assms
  by (auto simp: find_candidate_def streamer_ok_def buf.pop_ok split: option.splits if_splits)

section \<open>The loop of HasNext\<close>

text \<open>
  The rule for the loop: an invariant \<open>P\<close> of the iterations, \<open>A\<close> for a return with an
  accepted head, \<open>U\<close> for a return with an undecided one.
\<close>

lemma HasNext_induct [consumes 0, case_names step]:
  assumes "\<And>s w. (\<And>s1. find_candidate s = StalePopped s1 \<Longrightarrow> P s1 w) \<Longrightarrow>
      (\<And>b s1 v s2 w2. find_candidate s = Candidate b s1 \<Longrightarrow> CheckBatch e b s1 w = (v, s2, w2) \<Longrightarrow>
        P (s2\<lparr>headBatch := None\<rparr>) w2) \<Longrightarrow> P s w"
  shows "P s w"
proof (induction "pending s" arbitrary: s w rule: less_induct)
  case less
  show ?case
    by (rule assms) (blast intro: less find_candidate_pending dropped_candidate_pending [OF _ sym])+
qed

lemma HasNext_rule:
  assumes run: "HasNext e s w = (r, s', w')" and init: "P s w"
    and stale: "\<And>s s1 w. P s w \<Longrightarrow> find_candidate s = StalePopped s1 \<Longrightarrow> P s1 w"
    and dropped: "\<And>s s1 b w v s2 w2. P s w \<Longrightarrow> find_candidate s = Candidate b s1 \<Longrightarrow>
      CheckBatch e b s1 w = (v, s2, w2) \<Longrightarrow> v = BatchDrop \<or> v = BatchPast \<Longrightarrow> P (s2\<lparr>headBatch := None\<rparr>) w2"
    and accepted: "\<And>s s1 b w s2 w2. P s w \<Longrightarrow> find_candidate s = Candidate b s1 \<Longrightarrow>
      CheckBatch e b s1 w = (BatchAccept, s2, w2) \<Longrightarrow> A b s2 w2"
    and undecided: "\<And>s s1 b w s2 w2. P s w \<Longrightarrow> find_candidate s = Candidate b s1 \<Longrightarrow>
      CheckBatch e b s1 w = (BatchUndecided, s2, w2) \<Longrightarrow> U b s2 w2"
  shows "if r then \<exists>b. A b s' w'
    else P s' w' \<and> find_candidate s' = NoCandidate \<or> (\<exists>b. U b s' w')"
  using run init
proof (induction s w rule: HasNext_induct [where e = e])
  case (step s w)
  note unfold = HasNext.simps [of e s w] and run = step.prems(1) and P = step.prems(2)
  show ?case
  proof (cases "find_candidate s")
    case NoCandidate
    with run P show ?thesis by (auto simp: unfold)
  next
    case (StalePopped s1)
    with run have "HasNext e s1 w = (r, s', w')" by (simp add: unfold)
    then show ?thesis using step.IH(1) [OF StalePopped] stale [OF P StalePopped] by simp
  next
    case (Candidate b s1)
    obtain v s2 w2 where chk: "CheckBatch e b s1 w = (v, s2, w2)" by (cases "CheckBatch e b s1 w")
    have again: ?thesis if "v = BatchDrop \<or> v = BatchPast"
    proof (rule step.IH(2) [OF Candidate chk])
      show "HasNext e (s2\<lparr>headBatch := None\<rparr>) w2 = (r, s', w')"
        using that run Candidate chk by (auto simp: unfold)
      show "P (s2\<lparr>headBatch := None\<rparr>) w2" by (rule dropped [OF P Candidate chk that])
    qed
    show ?thesis
    proof (cases v)
      case BatchAccept
      have "A b s2 w2" by (rule accepted [OF P Candidate chk [unfolded BatchAccept]])
      with Candidate chk run BatchAccept show ?thesis by (auto simp: unfold)
    next
      case BatchUndecided
      have "U b s2 w2" by (rule undecided [OF P Candidate chk [unfolded BatchUndecided]])
      with Candidate chk run BatchUndecided show ?thesis by (auto simp: unfold)
    qed (simp_all add: again)
  qed
qed

text \<open>The common case: one invariant of all the states the loop passes through.\<close>

lemma HasNext_invariant:
  assumes run: "HasNext e s w = (r, s', w')" and init: "P s w"
    and stale: "\<And>s s1 w. P s w \<Longrightarrow> find_candidate s = StalePopped s1 \<Longrightarrow> P s1 w"
    and checked: "\<And>s s1 b w v s2 w2. P s w \<Longrightarrow> find_candidate s = Candidate b s1 \<Longrightarrow>
      CheckBatch e b s1 w = (v, s2, w2) \<Longrightarrow> P s2 w2"
    and dropped: "\<And>s w. P s w \<Longrightarrow> P (s\<lparr>headBatch := None\<rparr>) w"
  shows "P s' w'"
proof -
  have "if r then \<exists>b::batch. P s' w' else P s' w' \<and> find_candidate s' = NoCandidate \<or> (\<exists>b::batch. P s' w')"
    by (rule HasNext_rule [OF run, where P = P and A = "\<lambda>_. P" and U = "\<lambda>_. P"])
      (use init stale checked dropped in blast)+
  then show ?thesis by (auto split: if_splits)
qed

lemma find_candidate_refill:
  "find_candidate s = StalePopped s' \<Longrightarrow> refill s s'"
  "find_candidate s = Candidate b s' \<Longrightarrow> refill s s'"
  by (auto simp: find_candidate_def split: option.splits if_splits)

lemma checked_candidate_refill:
  "find_candidate s = Candidate b s1 \<Longrightarrow> CheckBatch e b s1 w = (v, s2, w2) \<Longrightarrow> refill s s2"
  by (blast intro: refill_trans find_candidate_refill CheckBatch_refill)

lemma HasNext_refill: "HasNext e s w = (r, s', w') \<Longrightarrow> refill s s'"
  by (erule HasNext_invariant [where P = "\<lambda>x _. refill s x"])
    (auto dest: checked_candidate_refill find_candidate_refill(1) intro: refill_trans)

lemma streamer_ok_no_head: "streamer_ok s \<Longrightarrow> streamer_ok (s\<lparr>headBatch := None\<rparr>)"
  by (simp add: streamer_ok_def)

lemma CheckBatch_ok: "CheckBatch e b s w = (v, s', w') \<Longrightarrow> streamer_ok s \<Longrightarrow> streamer_ok s'"
  by (drule CheckBatch_cache_update) (auto simp: cache_update_def refill_def streamer_ok_def)

lemma HasNext_ok:
  assumes "HasNext e s w = (r, s', w')" and "streamer_ok s"
  shows "streamer_ok s'"
  using assms
  by (rule HasNext_invariant [where P = "\<lambda>x _. streamer_ok x"])
    (auto dest: find_candidate_ok intro: CheckBatch_ok streamer_ok_no_head)

text \<open>
  \<open>True\<close> means: the head batch is the next batch and its last check accepted it.
\<close>

lemma HasNext_True:
  assumes run: "HasNext e s w = (True, s', w')" and ok: "streamer_ok s"
  obtains b s1 w1 where "headBatch s' = Some b" and "Number b = nextBatchPos s"
    and "CheckBatch e b s1 w1 = (BatchAccept, s', w')" and "refill s s1" and "streamer_ok s1"
proof -
  let ?P = "\<lambda>x _. streamer_ok x \<and> refill s x"
  let ?A = "\<lambda>b x v. headBatch x = Some b \<and> Number b = nextBatchPos s
    \<and> (\<exists>s1 w1. CheckBatch e b s1 w1 = (BatchAccept, x, v) \<and> refill s s1 \<and> streamer_ok s1)"
  have cand: "streamer_ok x1 \<and> refill s x1 \<and> headBatch x1 = Some b \<and> nextBatchPos x1 = nextBatchPos s"
    if "streamer_ok x \<and> refill s x" "find_candidate x = Candidate b x1" for x x1 b
    using that find_candidate_ok(2) [of x b x1] find_candidate_refill(2) [of x b x1]
    by (auto intro: refill_trans simp: refill_def)
  have "if True then \<exists>b. ?A b s' w'
    else ?P s' w' \<and> find_candidate s' = NoCandidate \<or> (\<exists>b::batch. True)"
  proof (rule HasNext_rule [OF run, where P = ?P and U = "\<lambda>_ _ _. True"])
    show "?P s w" using ok by simp
    show "?P x1 v" if "?P x v" "find_candidate x = StalePopped x1" for x x1 v
      using that find_candidate_ok(1) [of x x1] find_candidate_refill(1) [of x x1]
      by (auto intro: refill_trans)
    show "?P (x2\<lparr>headBatch := None\<rparr>) u2"
      if "?P x u" "find_candidate x = Candidate b x1" "CheckBatch e b x1 u = (v, x2, u2)"
      for x x1 b u v x2 u2
      using cand [OF that(1,2)] CheckBatch_ok [OF that(3)] CheckBatch_refill [OF that(3)]
      by (auto simp: streamer_ok_def intro: refill_trans)
    show "?A b x2 u2"
      if "?P x u" "find_candidate x = Candidate b x1" "CheckBatch e b x1 u = (BatchAccept, x2, u2)"
      for x x1 b u x2 u2
      using cand [OF that(1,2)] that(3) CheckBatch_cache_update [OF that(3)]
      by (auto simp: cache_update_def streamer_ok_def)
  qed simp
  then show ?thesis using that by auto
qed

section \<open>Next and Peek\<close>

definition rewound :: "('c, 't) streamer \<Rightarrow> u64" where
  "rewound s = (if skipPos s \<noteq> MaxUint64 then skipPos s else hotShotPos s)"

lemma Next_cases:
  assumes run: "Next e s w = (res, s', w')" and ok: "streamer_ok s"
  obtains (none) "res = None" "refill s s'" "streamer_ok s'" "HasNext e s w = (False, s', w')"
  | (some) b s1 s2 w2 where "res = Some b" "Number b = nextBatchPos s"
      "nextBatchPos s' = nextBatchPos s + 1" "hotShotPos s' = rewound s" "skipPos s' = MaxUint64"
      "headBatch s' = None" "BatchBuffer s' = BatchBuffer s2" "streamer_ok s'"
      "fallbackBatchPos s' = fallbackBatchPos s" "fallbackHotShotPos s' = fallbackHotShotPos s"
      "originHotShotPos s' = originHotShotPos s" "FinalizedL1 s' = FinalizedL1 s"
      "finalizedL1StateCache s' = finalizedL1StateCache s2"
      "HasNext e s w = (True, s2, w')" "headBatch s2 = Some b"
      "CheckBatch e b s1 w2 = (BatchAccept, s2, w')" "refill s s1" "refill s s2"
proof (cases "HasNext e s w")
  case (fields r s2 w2)
  show ?thesis
  proof (cases r)
    case False
    with fields run have "res = None" "s' = s2" "w' = w2" by (simp_all add: Next_def)
    with fields False show ?thesis
      using HasNext_refill [OF fields] HasNext_ok [OF fields ok] by (intro none) simp_all
  next
    case True
    with fields have hn: "HasNext e s w = (True, s2, w2)" by simp
    obtain b s1 w1 where b: "headBatch s2 = Some b" "Number b = nextBatchPos s"
      "CheckBatch e b s1 w1 = (BatchAccept, s2, w2)" "refill s s1"
      using HasNext_True [OF hn ok] by metis
    note rf = HasNext_refill [OF fields] and ok2 = HasNext_ok [OF fields ok]
    have s': "s' = (if skipPos s2 \<noteq> MaxUint64
        then s2\<lparr>nextBatchPos := nextBatchPos s2 + 1, headBatch := None, hotShotPos := skipPos s2, skipPos := MaxUint64\<rparr>
        else s2\<lparr>nextBatchPos := nextBatchPos s2 + 1, headBatch := None\<rparr>)"
      and res: "res = Some b" and w': "w' = w2"
      using run fields True b by (auto simp: Next_def Let_def split: if_splits)
    show ?thesis
      by (rule some [of b s2 s1 w1])
        (use fields True b rf ok2 s' res w' in \<open>auto simp: refill_def rewound_def streamer_ok_def\<close>)
  qed
qed

lemma Peek_cases:
  assumes run: "Peek e s w = (res, s', w')" and ok: "streamer_ok s"
  obtains (none) "res = None" "refill s s'" "streamer_ok s'" "HasNext e s w = (False, s', w')"
  | (some) b where "res = Some b" "Number b = nextBatchPos s" "headBatch s' = Some b"
      "refill s s'" "streamer_ok s'" "HasNext e s w = (True, s', w')"
proof (cases "HasNext e s w")
  case (fields r s2 w2)
  show ?thesis
  proof (cases r)
    case False
    with fields run have "res = None" "s' = s2" "w' = w2" by (simp_all add: Peek_def)
    with fields False show ?thesis
      using HasNext_refill [OF fields] HasNext_ok [OF fields ok] by (intro none) simp_all
  next
    case True
    with fields have hn: "HasNext e s w = (True, s2, w2)" by simp
    obtain b s1 w1 where "headBatch s2 = Some b" "Number b = nextBatchPos s"
      using HasNext_True [OF hn ok] by metis
    with True fields run have eqs: "res = Some b" "s' = s2" "w' = w2" by (simp_all add: Peek_def)
    show ?thesis
      by (rule some [of b])
        (simp_all add: eqs hn HasNext_refill [OF fields] HasNext_ok [OF fields ok]
          \<open>headBatch s2 = Some b\<close> \<open>Number b = nextBatchPos s\<close>)
  qed
qed

section \<open>The other operations keep the invariant\<close>

lemma drain_forks_dropWhile:
  "drain_forks pos parentHash xs
    = dropWhile (\<lambda>b. Number b = pos \<and> hdr_parent (Header b) \<noteq> parentHash) xs"
  by (induction xs) simp_all

lemma by_number_dropWhile: "by_number xs \<Longrightarrow> by_number (dropWhile P xs)"
  by (induction xs) simp_all

lemma buffer_ok_drain:
  "buffer_ok b \<Longrightarrow> buffer_ok (b\<lparr>batches := drain_forks pos parentHash (batches b)\<rparr>)"
  using length_dropWhile_le [of "\<lambda>x. Number x = pos \<and> hdr_parent (Header x) \<noteq> parentHash" "batches b"]
  by (auto simp: buffer_ok_def Len_def drain_forks_dropWhile by_number_dropWhile)

lemma SetProperHead_ok: "streamer_ok s \<Longrightarrow> streamer_ok (SetProperHead parentHash s)"
  by (auto simp: SetProperHead_def streamer_ok_def buffer_ok_drain split: option.splits)

lemma SetProperHead_refill: "refill s (SetProperHead parentHash s)"
  by (auto simp: SetProperHead_def refill_def split: option.splits)

lemma Reset_ok: "streamer_ok s \<Longrightarrow> streamer_ok (Reset s)"
  by (simp add: Reset_def streamer_ok_def buf.clr_ok)

lemma NewEspressoStreamer_ok:
  "NewEspressoStreamer e ns hp bp a track = Inr s \<Longrightarrow> streamer_ok s"
  by (auto simp: NewEspressoStreamer_def streamer_ok_def NewBatchBuffer_def buffer_ok_def Len_def
      split: if_splits option.splits)

lemma confirm_ok:
  "confirmEspressoBlockHeight e o1 s w = (r, s', w') \<Longrightarrow> streamer_ok s \<Longrightarrow> streamer_ok s'"
  by (auto simp: confirmEspressoBlockHeight_def streamer_ok_def split: prod.splits sum.splits if_splits)

lemma RefreshSafeL1Origin_ok:
  "RefreshSafeL1Origin e o1 s w = (s', w') \<Longrightarrow> streamer_ok s \<Longrightarrow> streamer_ok s'"
  by (auto simp: RefreshSafeL1Origin_def Reset_ok dest: confirm_ok split: prod.splits if_splits)

lemma refresh_batcher_ok:
  "refresh_batcher e l1 s w = (s', w') \<Longrightarrow> streamer_ok s \<Longrightarrow> streamer_ok s'"
  by (auto simp: refresh_batcher_def streamer_ok_def split: prod.splits sum.splits if_splits)

lemma refresh_positions_ok: "streamer_ok s \<Longrightarrow> streamer_ok (refresh_positions n s)"
proof -
  assume "streamer_ok s"
  then have "streamer_ok (s\<lparr>fallbackBatchPos := n\<rparr>)" by (simp add: streamer_ok_def)
  with \<open>streamer_ok s\<close> show ?thesis by (simp add: refresh_positions_def Let_def Reset_ok)
qed

lemma Refresh_ok:
  assumes "Refresh e l1 n o1 s w = (s', w')" and ok: "streamer_ok s"
  shows "streamer_ok s'"
proof -
  obtain s1 w1 s2 w2 where s1: "refresh_batcher e l1 (s\<lparr>FinalizedL1 := l1\<rparr>) w = (s1, w1)"
    and s2: "RefreshSafeL1Origin e o1 s1 w1 = (s2, w2)" and s': "s' = refresh_positions n s2"
    using assms(1) by (auto simp: Refresh_def split: prod.splits)
  have "streamer_ok (s\<lparr>FinalizedL1 := l1\<rparr>)" using ok by (simp add: streamer_ok_def)
  then have "streamer_ok s2"
    using refresh_batcher_ok [OF s1] RefreshSafeL1Origin_ok [OF s2] by blast
  then show ?thesis by (simp add: s' refresh_positions_ok)
qed

section \<open>Reading HotShot\<close>

text \<open>What reading transactions may write, besides the head, the buffer and the caches: \<open>skipPos\<close>.\<close>

definition intake :: "('c, 't) streamer \<Rightarrow> ('c, 't) streamer \<Rightarrow> bool" where
  "intake s s' =
    (nextBatchPos s' = nextBatchPos s
     \<and> fallbackBatchPos s' = fallbackBatchPos s \<and> fallbackHotShotPos s' = fallbackHotShotPos s
     \<and> originHotShotPos s' = originHotShotPos s \<and> FinalizedL1 s' = FinalizedL1 s
     \<and> espressoBatcher s' = espressoBatcher s \<and> Namespace s' = Namespace s
     \<and> trackBatchTimestamp s' = trackBatchTimestamp s)"

lemma intake_refl [simp]: "intake s s"
  by (simp add: intake_def)

lemma intake_trans: "intake s s' \<Longrightarrow> intake s' s'' \<Longrightarrow> intake s s''"
  by (simp add: intake_def)

lemma refill_intake: "refill s s' \<Longrightarrow> intake s s'"
  by (simp add: refill_def intake_def)

lemma intake_updates [simp]:
  "intake s (s'\<lparr>headBatch := h\<rparr>) = intake s s'"
  "intake s (s'\<lparr>BatchBuffer := b\<rparr>) = intake s s'"
  "intake s (s'\<lparr>skipPos := p\<rparr>) = intake s s'"
  "intake s (s'\<lparr>hotShotPos := p\<rparr>) = intake s s'"
  "intake s (s'\<lparr>batchTimestamps := t\<rparr>) = intake s s'"
  by (simp_all add: intake_def)

lemma record_timestamp_eq: "\<exists>t. record_timestamp e b ts s = s\<lparr>batchTimestamps := t\<rparr>"
proof (cases "trackBatchTimestamp s \<and> ts \<noteq> 0")
  case True
  show ?thesis unfolding record_timestamp_def if_P [OF True] by (rule exI) (rule refl)
next
  case False
  show ?thesis
    unfolding record_timestamp_def if_not_P [OF False] by (intro exI [of _ "batchTimestamps s"]) simp
qed

lemma store_batch_cases:
  assumes run: "store_batch e b ts s = (err, s')"
  obtains (duplicate_head) h where "err = None" "s' = s" "headBatch s = Some h" "Hash b = Hash h"
  | (full) "err = Some ErrAtCapacity" "s' = s" "Insert (BatchBuffer s) b = Inl ErrAtCapacity"
  | (duplicate) t where "err = None" "s' = s\<lparr>batchTimestamps := t\<rparr>"
      "Insert (BatchBuffer s) b = Inl ErrDuplicateBatch"
  | (head) t where "err = None" "headBatch s = None" "Number b = nextBatchPos s"
      "s' = s\<lparr>headBatch := Some b, batchTimestamps := t\<rparr>"
  | (buffered) buf t where "err = None" "Insert (BatchBuffer s) b = Inr buf"
      "headBatch s = None \<longrightarrow> Number b \<noteq> nextBatchPos s"
      "s' = s\<lparr>BatchBuffer := buf, batchTimestamps := t\<rparr>"
proof (cases "\<exists>h. headBatch s = Some h \<and> Number b = Number h \<and> Hash b = Hash h")
  case True
  then obtain h where "headBatch s = Some h" "Number b = Number h" "Hash b = Hash h" by blast
  with run show ?thesis by (intro duplicate_head [of h]) (simp_all add: store_batch_def)
next
  case nodup: False
  show ?thesis
  proof (cases "Number b = nextBatchPos s \<and> headBatch s = None")
    case True
    obtain t where "record_timestamp e b ts (s\<lparr>headBatch := Some b\<rparr>) = s\<lparr>headBatch := Some b, batchTimestamps := t\<rparr>"
      using record_timestamp_eq [of e b ts "s\<lparr>headBatch := Some b\<rparr>"] by blast
    with True run show ?thesis by (intro head [of t]) (simp_all add: store_batch_def)
  next
    case nohead: False
    have ev: "store_batch e b ts s =
      (case Insert (BatchBuffer s) b of
         Inl ErrDuplicateBatch \<Rightarrow> (None, record_timestamp e b ts s)
       | Inl ErrAtCapacity \<Rightarrow> (Some ErrAtCapacity, s)
       | Inr buf \<Rightarrow> (None, record_timestamp e b ts (s\<lparr>BatchBuffer := buf\<rparr>)))"
      using nodup nohead by (cases "headBatch s") (auto simp add: store_batch_def)
    show ?thesis
    proof (cases "Insert (BatchBuffer s) b")
      case (Inl x)
      show ?thesis
      proof (cases x)
        case ErrAtCapacity
        with ev run Inl show ?thesis by (intro full) simp_all
      next
        case ErrDuplicateBatch
        obtain t where "record_timestamp e b ts s = s\<lparr>batchTimestamps := t\<rparr>"
          using record_timestamp_eq [of e b ts s] by blast
        with ErrDuplicateBatch ev run Inl show ?thesis by (intro duplicate [of t]) simp_all
      qed
    next
      case (Inr buf)
      obtain t where "record_timestamp e b ts (s\<lparr>BatchBuffer := buf\<rparr>) = s\<lparr>BatchBuffer := buf, batchTimestamps := t\<rparr>"
        using record_timestamp_eq [of e b ts "s\<lparr>BatchBuffer := buf\<rparr>"] by blast
      with Inr ev run have "err = None" "s' = s\<lparr>BatchBuffer := buf, batchTimestamps := t\<rparr>" by simp_all
      with Inr nohead show ?thesis by (intro buffered [of buf t]) auto
    qed
  qed
qed

lemma process_cases:
  assumes run: "processEspressoTransaction e txn ts s w = (err, s', w')"
  obtains (unreadable) x where "UnmarshalBatch e txn = Inl x" "err = None" "s' = s" "w' = w"
  | (rejected) b v where "UnmarshalBatch e txn = Inr b" "CheckBatch e b s w = (v, s', w')"
      "v = BatchDrop \<or> v = BatchPast" "err = None"
  | (kept) b v s1 where "UnmarshalBatch e txn = Inr b" "CheckBatch e b s w = (v, s1, w')"
      "v = BatchAccept \<or> v = BatchUndecided" "store_batch e b ts s1 = (err, s')"
proof (cases "UnmarshalBatch e txn")
  case (Inl x)
  with run show ?thesis by (intro unreadable [of x]) (simp_all add: processEspressoTransaction_def)
next
  case (Inr b)
  obtain v s1 w1 where chk: "CheckBatch e b s w = (v, s1, w1)" by (cases "CheckBatch e b s w")
  note ev = run [unfolded processEspressoTransaction_def Inr, simplified chk, simplified]
  show ?thesis
  proof (cases "v = BatchDrop \<or> v = BatchPast")
    case True
    with ev Inr chk show ?thesis by (intro rejected [of b v]) simp_all
  next
    case False
    then have "v = BatchAccept \<or> v = BatchUndecided" by (cases v) simp_all
    with False ev Inr chk show ?thesis by (intro kept [of b v s1]) (simp_all split: prod.splits)
  qed
qed

lemma store_batch_ok:
  assumes "store_batch e b ts s = (err, s')" and "streamer_ok s"
  shows "streamer_ok s'" and "intake s s'" and "hotShotPos s' = hotShotPos s" and "skipPos s' = skipPos s"
  using assms
  by (cases rule: store_batch_cases; auto simp: streamer_ok_def buf.ins_keeps_ok Insert_Inr(2))+

text \<open>A range either fails, or brings no block, or sets the position and reads its blocks.\<close>

lemma fetch_cases:
  assumes run: "fetchHotShotRange e start finish s w = (err, s', w')"
  obtains (zero) "finish = 0" "err = Some FinishZero" "s' = s" "w' = w"
  | (failed) x where "FetchNamespaceTransactionsInRange e start finish (Namespace s) w = (Inl x, w')"
      "err = Some (RangeCallFailed x)" "s' = s"
  | (empty) "FetchNamespaceTransactionsInRange e start finish (Namespace s) w = (Inr [], w')"
      "err = None" "s' = s"
  | (blocks) blks w1 now w2 stamps where
      "FetchNamespaceTransactionsInRange e start finish (Namespace s) w = (Inr blks, w1)"
      "blks \<noteq> []" "UnixNow e w1 = (now, w2)" "err = None" "finish \<noteq> 0"
      "process_blocks e start stamps 0 blks (s\<lparr>hotShotPos := finish - 1\<rparr>) w2 = (s', w')"
proof (cases "finish = 0")
  case True
  with run show ?thesis by (intro zero) (simp_all add: fetchHotShotRange_def)
next
  case False
  obtain res w1 where call: "FetchNamespaceTransactionsInRange e start finish (Namespace s) w = (res, w1)"
    by fastforce
  show ?thesis
  proof (cases res)
    case (Inl x)
    with run False call show ?thesis by (intro failed) (auto simp: fetchHotShotRange_def)
  next
    case (Inr blks)
    show ?thesis
    proof (cases "blks = []")
      case True
      with run False call Inr show ?thesis by (intro empty) (simp_all add: fetchHotShotRange_def)
    next
      case some: False
      obtain now w2 where n: "UnixNow e w1 = (now, w2)" by fastforce
      let ?stamps = "if trackBatchTimestamp s then replicate (length blks) now else []"
      obtain s3 w3 where p: "process_blocks e start ?stamps 0 blks (s\<lparr>hotShotPos := finish - 1\<rparr>) w2 = (s3, w3)"
        by fastforce
      have "err = None" "s' = s3" "w' = w3"
        using run False call Inr some n p by (simp_all add: fetchHotShotRange_def Let_def)
      with call Inr some n False p show ?thesis
        by (intro blocks [of blks w1 now w2 ?stamps]) simp_all
    qed
  qed
qed

section \<open>The loop of Update\<close>

text \<open>
  The rule for the loop: an invariant \<open>P\<close> of the ranges and of \<open>HasNext\<close>; a return without
  error has nothing left to read or comes from a \<open>HasNext\<close> that found a batch.
\<close>

definition exhausted :: "u64 \<Rightarrow> ('c, 't) streamer \<Rightarrow> bool" where
  "exhausted fin s =
    (case computeEspressoBlockHeightsRange fin HOTSHOT_BLOCK_FETCH_LIMIT s of
       (start, finish) \<Rightarrow> start \<ge> finish \<or> start + 1 = finish)"

lemma update_loop_rule:
  assumes run: "update_loop e fin i s w = Some (err, s', w')" and init: "P s w"
    and fetch: "\<And>s w start finish err s1 w1. P s w \<Longrightarrow>
      computeEspressoBlockHeightsRange fin HOTSHOT_BLOCK_FETCH_LIMIT s = (start, finish) \<Longrightarrow>
      start < finish \<Longrightarrow> fetchHotShotRange e start finish s w = (err, s1, w1) \<Longrightarrow> P s1 w1"
    and hasnext: "\<And>s w r s1 w1. P s w \<Longrightarrow> HasNext e s w = (r, s1, w1) \<Longrightarrow> P s1 w1"
  shows "P s' w' \<and> (err = None \<longrightarrow>
    exhausted fin s' \<or> (\<exists>s1 w1. HasNext e s1 w1 = (True, s', w') \<and> P s1 w1))"
proof -
  let ?Q = "\<lambda>r. P (fst (snd r)) (snd (snd r)) \<and> (fst r = None \<longrightarrow>
    exhausted fin (fst (snd r)) \<or> (\<exists>s1 w1. HasNext e s1 w1 = (True, fst (snd r), snd (snd r)) \<and> P s1 w1))"
  have "e = e \<and> fin = fin \<longrightarrow> P s w \<longrightarrow> ?Q (err, s', w')"
  proof (rule update_loop.raw_induct [where
        P = "\<lambda>e' fin' i s w r. e' = e \<and> fin' = fin \<longrightarrow> P s w \<longrightarrow> ?Q r", OF _ run])
    fix loop e' fin' i s w r
    assume IH: "\<And>e' fin' i s w r. loop e' fin' i s w = Some r \<Longrightarrow> e' = e \<and> fin' = fin \<longrightarrow> P s w \<longrightarrow> ?Q r"
      and step: "(case computeEspressoBlockHeightsRange fin' HOTSHOT_BLOCK_FETCH_LIMIT s of
       (start, finish) \<Rightarrow>
         if start \<ge> finish \<or> (start + 1 = finish \<and> i > 0) then Some (None, s, w)
         else
           (case fetchHotShotRange e' start finish s w of
              (err, s, w) \<Rightarrow>
                (case err of
                   Some x \<Rightarrow> Some (Some (RangeFailed x), s, w)
                 | None \<Rightarrow>
                     (case HasNext e' s w of
                        (available, s, w) \<Rightarrow>
                          if available then Some (None, s, w)
                          else loop e' fin' (Suc i) s w)))) = Some r"
    show "e' = e \<and> fin' = fin \<longrightarrow> P s w \<longrightarrow> ?Q r"
    proof (intro impI)
      assume e: "e' = e \<and> fin' = fin" and P: "P s w"
      obtain start finish where rng: "computeEspressoBlockHeightsRange fin HOTSHOT_BLOCK_FETCH_LIMIT s = (start, finish)"
        by fastforce
      show "?Q r"
      proof (cases "start \<ge> finish \<or> (start + 1 = finish \<and> i > 0)")
        case True
        then have "exhausted fin s" by (auto simp: exhausted_def rng)
        with True step P show ?thesis by (auto simp: e rng)
      next
        case False
        obtain er s1 w1 where f: "fetchHotShotRange e start finish s w = (er, s1, w1)"
          by (cases "fetchHotShotRange e start finish s w")
        obtain av s2 w2 where h: "HasNext e s1 w1 = (av, s2, w2)" by (cases "HasNext e s1 w1")
        have P1: "P s1 w1" using fetch [OF P rng _ f] False by (simp add: not_le)
        have P2: "P s2 w2" by (rule hasnext [OF P1 h])
        have "loop e fin (Suc i) s2 w2 = Some r \<Longrightarrow> ?Q r" using IH P2 by blast
        with step False P1 P2 h show ?thesis
          by (auto simp: e rng f split: option.splits if_splits)
      qed
    qed
  qed
  with init show ?thesis by simp
qed

section \<open>Invariants of reading\<close>

text \<open>
  What a property of the streamer's state has to survive for the reading of HotShot to keep
  it: the three writes of a transaction (the rewind mark only goes down), then the writes
  of a range and of \<open>HasNext\<close>. \<open>Q\<close> is what is known of the transactions read.
\<close>

locale intake_invariant =
  fixes e :: "('w, 'c, 't) env" and P :: "('c, 't) streamer \<Rightarrow> bool" and Q :: "bytes \<Rightarrow> bool"
  assumes check_keeps: "P s \<Longrightarrow> CheckBatch e b s w = (v, s', w') \<Longrightarrow> P s'"
    and store_keeps: "P s \<Longrightarrow> Q txn \<Longrightarrow> UnmarshalBatch e txn = Inr b \<Longrightarrow>
      store_batch e b ts s = (err, s') \<Longrightarrow> P s'"
    and skip_keeps: "P s \<Longrightarrow> p \<le> skipPos s \<Longrightarrow> P (s\<lparr>skipPos := p\<rparr>)"
begin

lemma process_keeps:
  "processEspressoTransaction e txn ts s w = (err, s', w') \<Longrightarrow> P s \<Longrightarrow> Q txn \<Longrightarrow> P s'"
  by (erule process_cases) (auto intro: check_keeps store_keeps)

lemma process_txns_keeps:
  "process_txns e pos ts txns s w = (s', w') \<Longrightarrow> P s \<Longrightarrow> (\<And>t. t \<in> set txns \<Longrightarrow> Q t) \<Longrightarrow> P s'"
proof (induction txns arbitrary: s w)
  case (Cons txn txns)
  obtain err s1 w1 where p: "processEspressoTransaction e txn ts s w = (err, s1, w1)"
    by (cases "processEspressoTransaction e txn ts s w")
  have "P s1" by (rule process_keeps [OF p Cons.prems(2)]) (simp add: Cons.prems(3))
  then have "P (if err = Some ErrAtCapacity
      then s1\<lparr>skipPos := min (skipPos s1) (if pos > 0 then pos - 1 else 0)\<rparr> else s1)"
    by (cases "err = Some ErrAtCapacity") (simp_all only: if_True if_False simp_thms skip_keeps min.cobounded1)
  moreover have "Q t" if "t \<in> set txns" for t using Cons.prems(3) [of t] that by simp
  ultimately show ?case
    using Cons.prems(1) Cons.IH by (simp only: p process_txns.simps prod.case)
qed simp

lemma process_blocks_keeps:
  "process_blocks e start stamps i blks s w = (s', w') \<Longrightarrow> P s \<Longrightarrow>
    (\<And>blk t. blk \<in> set blks \<Longrightarrow> t \<in> set (Transactions blk) \<Longrightarrow> Q t) \<Longrightarrow> P s'"
proof (induction blks arbitrary: i s w)
  case (Cons blk blks)
  obtain s1 w1 where t: "process_txns e (start + of_nat i) (header_timestamp stamps i s) (Transactions blk) s w = (s1, w1)"
    by fastforce
  have "P s1" by (rule process_txns_keeps [OF t Cons.prems(2)]) (rule Cons.prems(3) [OF list.set_intros(1)])
  moreover have "Q t" if "b \<in> set blks" "t \<in> set (Transactions b)" for b t using Cons.prems(3) [of b t] that by simp
  ultimately show ?case using Cons.prems(1) Cons.IH by (simp add: Let_def t)
qed simp

end

locale reading_invariant = intake_invariant +
  assumes posted: "P s \<Longrightarrow> FetchNamespaceTransactionsInRange e start finish (Namespace s) w = (Inr blks, w')
      \<Longrightarrow> blk \<in> set blks \<Longrightarrow> t \<in> set (Transactions blk) \<Longrightarrow> Q t"
    and pos_keeps: "P s \<Longrightarrow> P (s\<lparr>hotShotPos := p\<rparr>)"
    and stale_keeps: "P s \<Longrightarrow> find_candidate s = StalePopped s' \<Longrightarrow> P s'"
    and candidate_keeps: "P s \<Longrightarrow> find_candidate s = Candidate b s' \<Longrightarrow> P s'"
    and drop_keeps: "P s \<Longrightarrow> P (s\<lparr>headBatch := None\<rparr>)"
begin

lemma fetch_keeps: "fetchHotShotRange e start finish s w = (err, s', w') \<Longrightarrow> P s \<Longrightarrow> P s'"
  by (erule fetch_cases) (auto intro: process_blocks_keeps pos_keeps posted)

lemma HasNext_keeps: "HasNext e s w = (r, s', w') \<Longrightarrow> P s \<Longrightarrow> P s'"
  by (erule HasNext_invariant [where P = "\<lambda>x _. P x"])
    (auto intro: stale_keeps candidate_keeps check_keeps drop_keeps)

lemma update_loop_keeps: "update_loop e fin i s w = Some (err, s', w') \<Longrightarrow> P s \<Longrightarrow> P s'"
  by (drule update_loop_rule [where P = "\<lambda>x _. P x"]) (auto intro: fetch_keeps HasNext_keeps)

lemma Update_keeps: "Update e s w = Some (err, s', w') \<Longrightarrow> P s \<Longrightarrow> P s'"
  by (auto simp: Update_def dest: update_loop_keeps split: prod.splits sum.splits if_splits)

end

lemma CheckBatch_ok_intake:
  assumes "streamer_ok x \<and> intake s x" and "CheckBatch e b x w = (v, x', w')"
  shows "streamer_ok x' \<and> intake s x'"
  using assms(1) CheckBatch_ok [OF assms(2)] intake_trans [OF _ refill_intake [OF CheckBatch_refill [OF assms(2)]]]
  by simp

lemma store_batch_ok_intake:
  assumes "streamer_ok x \<and> intake s x" and "store_batch e b ts x = (err, x')"
  shows "streamer_ok x' \<and> intake s x'"
  using assms(1) store_batch_ok(1,2) [OF assms(2)] intake_trans [of s x x'] by simp

lemma find_candidate_ok_intake:
  assumes "streamer_ok x \<and> intake s x"
  shows "find_candidate x = StalePopped x' \<Longrightarrow> streamer_ok x' \<and> intake s x'"
    and "find_candidate x = Candidate b x' \<Longrightarrow> streamer_ok x' \<and> intake s x'"
  using assms find_candidate_ok(1) [of x x'] find_candidate_ok(2) [of x b x']
    find_candidate_refill(1) [of x x'] find_candidate_refill(2) [of x b x']
    refill_intake [of x x'] intake_trans [of s x x'] by blast+

interpretation ok_inv: reading_invariant e "\<lambda>x. streamer_ok x \<and> intake s x" "\<lambda>_. True"
  for e :: "('w, 'c, 't) env" and s
  by unfold_locales
    ((erule (1) CheckBatch_ok_intake store_batch_ok_intake find_candidate_ok_intake)
      | (simp add: streamer_ok_def; fail))+

lemma Update_ok:
  assumes "Update e s w = Some (err, s', w')" and "streamer_ok s"
  shows "streamer_ok s' \<and> intake s s'"
  by (rule ok_inv.Update_keeps [OF assms(1)]) (simp add: assms(2))

end
