(* ===== verification/Op_Sample.thy ===== *)
theory Op_Sample
  imports Op_Streamer
begin

text \<open>
  A small closed environment on which the witnesses of the \<open>op\<close> theories evaluate: an L1
  whose every finalized block has hash 7 and batcher 5, the transactions \<open>[n, h]\<close> that
  decode to batch number \<open>n\<close> with hash \<open>h\<close>, a HotShot chain given as a list of blocks (the
  state of the world), and an association list as the cache.
\<close>

definition alist_lru :: "('k, 'v, ('k \<times> 'v) list) lru" where
  "alist_lru = \<lparr>lru_new = (\<lambda>n. []), lru_get = (\<lambda>c k. (map_of c k, c)), lru_add = (\<lambda>c k v. (k, v) # c)\<rparr>"

lemma alist_lru_lawful: "lru_lawful alist_lru"
  by (simp add: lru_lawful_def alist_lru_def)

fun sample_decode :: "bytes \<Rightarrow> ext_err + batch" where
  "sample_decode [n, h] = Inr (sample_batch (ucast n) (ucast h) 0)"
| "sample_decode bs = Inl ''undecodable''"

type_synonym sample_world = "ns_block list"

definition sample_env :: "(sample_world, (u64 \<times> l1_state) list, (hash \<times> u64) list) env" where
  "sample_env =
    \<lparr>FetchLatestBlockHeight = (\<lambda>w. (Inr (of_nat (length w) + 1), w)),
     FetchNamespaceTransactionsInRange =
       (\<lambda>from until ns w. (Inr (take (unat until - unat from) (drop (unat from) w)), w)),
     LightClientFinalizedState = (\<lambda>n w. (Inr \<lparr>ViewNum = 0, BlockHeight = 0, BlockCommRoot = 0\<rparr>, w)),
     HeaderHashByNumber = (\<lambda>n w. (Inr 7, w)),
     EspressoBatcher = (\<lambda>at w. (Inr 5, w)),
     EspressoBatcherAtBlock = (\<lambda>at n w. (Inr 5, w)),
     NewBatchAuthenticatorCaller = (\<lambda>a. None),
     unmarshalBatch = sample_decode,
     UnixNow = (\<lambda>w. (1000, w)),
     state_lru = alist_lru,
     ts_lru = alist_lru\<rparr>"

definition sample_l1 :: l1_block_ref where
  "sample_l1 = \<lparr>ref_hash = 7, ref_number = 1, ref_parent = 6, ref_time = 12\<rparr>"

text \<open>A streamer that starts behind batch 0, refreshed once.\<close>

definition sample_streamer :: "((u64 \<times> l1_state) list, (hash \<times> u64) list) streamer" where
  "sample_streamer =
    \<lparr>Namespace = 42, nextBatchPos = 1, fallbackBatchPos = 0, hotShotPos = 0, fallbackHotShotPos = 0,
     originHotShotPos = 0, FinalizedL1 = sample_l1, skipPos = MaxUint64, headBatch = None,
     BatchBuffer = NewBatchBuffer BatchBufferCapacity, finalizedL1StateCache = [], espressoBatcher = 5,
     trackBatchTimestamp = False, batchTimestamps = None\<rparr>"

definition sample_world :: sample_world where
  "sample_world = [\<lparr>Transactions = []\<rparr>, \<lparr>Transactions = [[1, 11]]\<rparr>, \<lparr>Transactions = [[2, 12], [0]]\<rparr>]"

definition sample_cached :: "(u64 \<times> l1_state) list" where
  "sample_cached = [(1 :: u64, \<lparr>st_hash = 7, authorizedBatchers = [5]\<rparr>)]"

text \<open>The state after one \<open>Update\<close>: batch 1 is the head, batch 2 waits, the junk is gone.\<close>

definition sample_updated :: "((u64 \<times> l1_state) list, (hash \<times> u64) list) streamer" where
 
  "sample_updated = sample_streamer\<lparr>hotShotPos := 2, headBatch := Some (sample_batch 1 11 0),
     BatchBuffer := \<lparr>batches = [sample_batch 2 12 0], buf_capacity = 1024\<rparr>,
     finalizedL1StateCache := sample_cached\<rparr>"

lemmas sample_defs = sample_env_def sample_l1_def sample_streamer_def sample_updated_def
  sample_world_def sample_cached_def alist_lru_def

lemma sample_check:
  assumes "FinalizedL1 s = sample_l1" "finalizedL1StateCache s = [] \<or> finalizedL1StateCache s = sample_cached"
    "nextBatchPos s \<le> n"
  shows "CheckBatch sample_env (sample_batch n h p) s w = (BatchAccept, s\<lparr>finalizedL1StateCache := sample_cached\<rparr>, w)"
  using assms
  by (auto simp add: CheckBatch_def sample_defs zero_ref_def Let_def)

lemma sample_insert: "Insert (NewBatchBuffer 1024) b = Inr \<lparr>batches = [b], buf_capacity = 1024\<rparr>"
  by (simp add: Insert_def NewBatchBuffer_def Len_def BinarySearchFunc_def bsearch_loop.simps)

lemma sample_unmarshal [simp]:
  "UnmarshalBatch sample_env [n, h] = Inr (sample_batch (ucast n) (ucast h) 0)"
  "UnmarshalBatch sample_env [n] = Inl ''undecodable''"
  by (simp_all add: UnmarshalBatch_def sample_env_def)

lemma sample_range:
  "computeEspressoBlockHeightsRange 2 HOTSHOT_BLOCK_FETCH_LIMIT sample_streamer = (0, 3)"
  by (simp add: computeEspressoBlockHeightsRange_def HOTSHOT_BLOCK_FETCH_LIMIT_def sample_streamer_def min_def)

lemma sample_fetch:
  "fetchHotShotRange sample_env 0 3 sample_streamer sample_world = (None, sample_updated, sample_world)"
proof -
  have call: "FetchNamespaceTransactionsInRange sample_env 0 3 (Namespace sample_streamer) sample_world
    = (Inr sample_world, sample_world)"
    by (simp add: sample_env_def sample_world_def)
  have now: "UnixNow sample_env w = (1000, w)" for w by (simp add: sample_env_def)
  let ?s1 = "sample_streamer\<lparr>hotShotPos := 2\<rparr>"
  let ?s2 = "?s1\<lparr>finalizedL1StateCache := sample_cached, headBatch := Some (sample_batch 1 11 0)\<rparr>"
  have p1: "processEspressoTransaction sample_env [1, 11] 0 ?s1 w = (None, ?s2, w)" for w
    by (simp add: processEspressoTransaction_def sample_check sample_streamer_def store_batch_def record_timestamp_def)
  have p2: "processEspressoTransaction sample_env [2, 12] 0 ?s2 w = (None, sample_updated, w)" for w
    by (simp add: processEspressoTransaction_def sample_check sample_streamer_def store_batch_def record_timestamp_def sample_updated_def
       BatchBufferCapacity_def sample_insert)
  have p3: "processEspressoTransaction sample_env [0] 0 sample_updated w = (None, sample_updated, w)" for w
    by (simp add: processEspressoTransaction_def)
  have [simp]: "trackBatchTimestamp sample_streamer = False" "trackBatchTimestamp sample_updated = False"
    by (simp_all add: sample_defs)
  show ?thesis
    by (simp add: fetchHotShotRange_def call now Let_def)
      (simp add: sample_world_def header_timestamp_def p1 p2 p3)
qed

lemma sample_has_next: "HasNext sample_env sample_updated w = (True, sample_updated, w)"
  by (subst HasNext.simps) (simp add: find_candidate_def sample_updated_def sample_streamer_def sample_check)

lemma sample_update: "Update sample_env sample_streamer sample_world = Some (None, sample_updated, sample_world)"
proof -
  have latest: "FetchLatestBlockHeight sample_env sample_world = (Inr 4, sample_world)"
    by (simp add: sample_env_def sample_world_def)
  have "update_loop sample_env 2 0 sample_streamer sample_world = Some (None, sample_updated, sample_world)"
    by (subst update_loop.simps) (simp add: sample_range sample_fetch sample_has_next)
  then show ?thesis by (simp add: Update_def latest)
qed


definition sample_consumed :: "((u64 \<times> l1_state) list, (hash \<times> u64) list) streamer" where
  "sample_consumed = sample_updated\<lparr>headBatch := None, nextBatchPos := 2\<rparr>"

lemma sample_next: "Next sample_env sample_updated w = (Some (sample_batch 1 11 0), sample_consumed, w)"
  by (simp add: Next_def sample_has_next Let_def sample_consumed_def)
    (simp add: sample_updated_def sample_streamer_def)

lemma sample_new:
  "NewEspressoStreamer sample_env 42 0 0 9 False
    = Inr (sample_streamer\<lparr>FinalizedL1 := zero_ref, espressoBatcher := 0\<rparr>)"
  by (simp add: NewEspressoStreamer_def sample_defs)

lemma sample_refresh:
  "Refresh sample_env sample_l1 0 o1 (sample_streamer\<lparr>FinalizedL1 := zero_ref, espressoBatcher := 0\<rparr>) w
    = (sample_streamer, w)"
  by (simp add: Refresh_def refresh_batcher_def RefreshSafeL1Origin_def confirmEspressoBlockHeight_def
      refresh_positions_def sample_defs)

end
