(* ===== verification/Op_Delivery.thy ===== *)
theory Op_Delivery
  imports Op_Invariant Op_Sample
begin

text \<open>
  What consumers may rely on: the streamer, driven by any interleaving of its API calls and
  of the world, gives out batches like the small automaton \<open>spec_step\<close>, whose only state is
  the number of the next batch; and it gives out only batches that the finalized L1 vouches for.
\<close>

section \<open>Abstract specification\<close>

datatype event = Deliver batch | Quiet | Rewind u64

inductive spec_step :: "u64 \<Rightarrow> event \<Rightarrow> u64 \<Rightarrow> bool" where
  spec_deliver: "Number b = n \<Longrightarrow> spec_step n (Deliver b) (n + 1)"
| spec_quiet: "spec_step n Quiet n"
| spec_rewind: "spec_step n (Rewind safe) (safe + 1)"

inductive_simps spec_step_simps [simp]:
  "spec_step n (Deliver b) m"
  "spec_step n Quiet m"
  "spec_step n (Rewind safe) m"

fun spec_run :: "u64 \<Rightarrow> event list \<Rightarrow> u64 \<Rightarrow> bool" where
  "spec_run n [] m = (m = n)"
| "spec_run n (ev # evs) m = (\<exists>k. spec_step n ev k \<and> spec_run k evs m)"

fun delivered :: "event list \<Rightarrow> batch list" where
  "delivered [] = []"
| "delivered (Deliver b # evs) = b # delivered evs"
| "delivered (ev # evs) = delivered evs"

definition rewind_free :: "event list \<Rightarrow> bool" where
  "rewind_free evs = (\<forall>ev \<in> set evs. \<forall>n. ev \<noteq> Rewind n)"

lemma spec_run_append:
  "spec_run n (xs @ ys) m \<longleftrightarrow> (\<exists>k. spec_run n xs k \<and> spec_run k ys m)"
  by (induction xs arbitrary: n) auto

lemma spec_run_consecutive:
  "spec_run n evs m \<Longrightarrow> rewind_free evs \<Longrightarrow>
    map Number (delivered evs) = map (\<lambda>i. n + of_nat i) [0..<length (delivered evs)]
    \<and> m = n + of_nat (length (delivered evs))"
proof (induction evs arbitrary: n)
  case (Cons ev evs)
  have free: "rewind_free evs" using Cons.prems(2) by (simp add: rewind_free_def)
  show ?case
  proof (cases ev)
    case (Deliver b)
    then have step: "Number b = n" "spec_run (n + 1) evs m" using Cons.prems(1) by auto
    from Cons.IH [OF step(2) free] step(1) Deliver show ?thesis
      by (simp add: upt_conv_Cons map_Suc_upt [symmetric] add.assoc del: upt_Suc)
  qed (use Cons free in \<open>auto simp: rewind_free_def\<close>)
qed simp

section \<open>The streamer as a transition system\<close>

inductive streamer_step ::
  "('w, 'c, 't) env \<Rightarrow> ('c, 't) streamer \<times> 'w \<Rightarrow> event \<Rightarrow> ('c, 't) streamer \<times> 'w \<Rightarrow> bool"
  for e :: "('w, 'c, 't) env" where
  next_some: "Next e s w = (Some b, s', w') \<Longrightarrow> streamer_step e (s, w) (Deliver b) (s', w')"
| next_none: "Next e s w = (None, s', w') \<Longrightarrow> streamer_step e (s, w) Quiet (s', w')"
| peek: "Peek e s w = (r, s', w') \<Longrightarrow> streamer_step e (s, w) Quiet (s', w')"
| has_next: "HasNext e s w = (a, s', w') \<Longrightarrow> streamer_step e (s, w) Quiet (s', w')"
| update: "Update e s w = Some (err, s', w') \<Longrightarrow> streamer_step e (s, w) Quiet (s', w')"
| set_proper_head: "streamer_step e (s, w) Quiet (SetProperHead parentHash s, w)"
| timestamp: "GetBatchFinalizationTimestamp e h s = (t, s') \<Longrightarrow> streamer_step e (s, w) Quiet (s', w)"
| reset: "streamer_step e (s, w) (Rewind (fallbackBatchPos s)) (Reset s, w)"
| refresh_origin: "RefreshSafeL1Origin e o1 s w = (s', w') \<Longrightarrow>
    streamer_step e (s, w)
      (if nextBatchPos s' = nextBatchPos s then Quiet else Rewind (fallbackBatchPos s)) (s', w')"
| refresh: "Refresh e l1 safe o1 s w = (s', w') \<Longrightarrow>
    streamer_step e (s, w) (if nextBatchPos s' = nextBatchPos s then Quiet else Rewind safe) (s', w')"
| world: "streamer_step e (s, w) Quiet (s, w')"

inductive streamer_run ::
  "('w, 'c, 't) env \<Rightarrow> ('c, 't) streamer \<times> 'w \<Rightarrow> event list \<Rightarrow> ('c, 't) streamer \<times> 'w \<Rightarrow> bool"
  for e :: "('w, 'c, 't) env" where
  run_nil: "streamer_run e c [] c"
| run_cons: "streamer_step e c ev d \<Longrightarrow> streamer_run e d evs f \<Longrightarrow> streamer_run e c (ev # evs) f"

lemma confirm_frame:
  "confirmEspressoBlockHeight e o1 s w = (r, s', w') \<Longrightarrow>
    \<exists>p. s' = s\<lparr>fallbackHotShotPos := p\<rparr> \<and> (originHotShotPos s \<le> fallbackHotShotPos s \<longrightarrow> originHotShotPos s \<le> p)"
  by (auto simp: confirmEspressoBlockHeight_def split: prod.splits sum.splits if_splits
      intro: exI [of _ "fallbackHotShotPos s"])

lemma RefreshSafeL1Origin_cases:
  assumes "RefreshSafeL1Origin e o1 s w = (s', w')"
  obtains (kept) p where "s' = s\<lparr>fallbackHotShotPos := p\<rparr>"
      "originHotShotPos s \<le> fallbackHotShotPos s \<longrightarrow> originHotShotPos s \<le> p"
  | (reset) p where "s' = Reset (s\<lparr>fallbackHotShotPos := p\<rparr>)"
      "originHotShotPos s \<le> fallbackHotShotPos s \<longrightarrow> originHotShotPos s \<le> p"
proof -
  obtain r s1 w1 where c: "confirmEspressoBlockHeight e o1 s w = (r, s1, w1)"
    by (cases "confirmEspressoBlockHeight e o1 s w")
  obtain p where p: "s1 = s\<lparr>fallbackHotShotPos := p\<rparr>"
    "originHotShotPos s \<le> fallbackHotShotPos s \<longrightarrow> originHotShotPos s \<le> p"
    using confirm_frame [OF c] by blast
  show ?thesis
  proof (cases r)
    case True
    with assms c p show ?thesis by (intro reset [of p]) (simp_all add: RefreshSafeL1Origin_def)
  next
    case False
    with assms c p show ?thesis by (intro kept [of p]) (simp_all add: RefreshSafeL1Origin_def)
  qed
qed

lemma Reset_simps [simp]:
  "nextBatchPos (Reset s) = fallbackBatchPos s + 1"
  "fallbackBatchPos (Reset s) = fallbackBatchPos s"
  "hotShotPos (Reset s) = fallbackHotShotPos s"
  "fallbackHotShotPos (Reset s) = fallbackHotShotPos s"
  "originHotShotPos (Reset s) = originHotShotPos s"
  "headBatch (Reset s) = None" "skipPos (Reset s) = MaxUint64"
  "batches (BatchBuffer (Reset s)) = []"
  "FinalizedL1 (Reset s) = FinalizedL1 s" "espressoBatcher (Reset s) = espressoBatcher s"
  "finalizedL1StateCache (Reset s) = finalizedL1StateCache s"
  by (simp_all add: Reset_def Clear_def)

lemma refresh_batcher_frame:
  "refresh_batcher e l1 s w = (s', w') \<Longrightarrow> \<exists>a. s' = s\<lparr>espressoBatcher := a\<rparr>"
  by (auto simp: refresh_batcher_def split: prod.splits sum.splits if_splits
      intro: exI [of _ "espressoBatcher s"])

text \<open>The positions after a \<open>Refresh\<close>, whatever the remote calls answer.\<close>

lemma Refresh_positions:
  assumes "Refresh e l1 safe o1 s w = (s', w')"
  shows "fallbackBatchPos s' = safe"
    and "nextBatchPos s' = nextBatchPos s \<or> nextBatchPos s' = safe + 1"
    and "fallbackBatchPos s < nextBatchPos s \<Longrightarrow> safe \<noteq> MaxUint64 \<Longrightarrow> safe < nextBatchPos s'"
    and "originHotShotPos s \<le> fallbackHotShotPos s \<Longrightarrow> originHotShotPos s' \<le> fallbackHotShotPos s'"
    and "originHotShotPos s' = originHotShotPos s" and "FinalizedL1 s' = l1"
    and "finalizedL1StateCache s' = finalizedL1StateCache s"
proof -
  obtain s1 w1 s2 w2 where s1: "refresh_batcher e l1 (s\<lparr>FinalizedL1 := l1\<rparr>) w = (s1, w1)"
    and s2: "RefreshSafeL1Origin e o1 s1 w1 = (s2, w2)" and s': "s' = refresh_positions safe s2"
    using assms by (auto simp: Refresh_def split: prod.splits)
  obtain a where a: "s1 = s\<lparr>FinalizedL1 := l1, espressoBatcher := a\<rparr>"
    using refresh_batcher_frame [OF s1] by auto
  note step = u64_less_succ [of safe]
  show "fallbackBatchPos s' = safe"
    by (simp add: s' refresh_positions_def Let_def)
  show "nextBatchPos s' = nextBatchPos s \<or> nextBatchPos s' = safe + 1"
    using s2
    by (cases rule: RefreshSafeL1Origin_cases)
      (auto simp: s' a refresh_positions_def Let_def not_le dest: less_inc_imp_less_eq)
  show "fallbackBatchPos s < nextBatchPos s \<Longrightarrow> safe \<noteq> MaxUint64 \<Longrightarrow> safe < nextBatchPos s'"
    using s2 step
    by (cases rule: RefreshSafeL1Origin_cases)
      (auto simp: s' a refresh_positions_def Let_def not_le)
  show "originHotShotPos s \<le> fallbackHotShotPos s \<Longrightarrow> originHotShotPos s' \<le> fallbackHotShotPos s'"
    using s2
    by (cases rule: RefreshSafeL1Origin_cases) (auto simp: s' a refresh_positions_def Let_def)
  show "originHotShotPos s' = originHotShotPos s" "FinalizedL1 s' = l1"
    "finalizedL1StateCache s' = finalizedL1StateCache s"
    using s2
    by (cases rule: RefreshSafeL1Origin_cases; simp add: s' a refresh_positions_def Let_def)+
qed

text \<open>A refresh either keeps the head, the buffer and the positions, or ends in a reset.\<close>

lemma Refresh_reset_or_same:
  assumes "Refresh e l1 safe o1 s w = (s', w')"
  shows "nextBatchPos s' = nextBatchPos s
    \<or> nextBatchPos s' = safe + 1 \<and> hotShotPos s' = fallbackHotShotPos s'
      \<and> headBatch s' = None \<and> batches (BatchBuffer s') = [] \<and> skipPos s' = MaxUint64"
proof -
  obtain s1 w1 s2 w2 where s1: "refresh_batcher e l1 (s\<lparr>FinalizedL1 := l1\<rparr>) w = (s1, w1)"
    and s2: "RefreshSafeL1Origin e o1 s1 w1 = (s2, w2)" and s': "s' = refresh_positions safe s2"
    using assms by (auto simp: Refresh_def split: prod.splits)
  obtain a where a: "s1 = s\<lparr>FinalizedL1 := l1, espressoBatcher := a\<rparr>"
    using refresh_batcher_frame [OF s1] by auto
  show ?thesis
    using s2
    by (cases rule: RefreshSafeL1Origin_cases)
      (auto simp: s' a refresh_positions_def Let_def not_le dest: less_inc_imp_less_eq)
qed

lemma RefreshSafeL1Origin_positions:
  assumes "RefreshSafeL1Origin e o1 s w = (s', w')"
  shows "nextBatchPos s' = nextBatchPos s \<or> nextBatchPos s' = fallbackBatchPos s + 1"
    and "fallbackBatchPos s' = fallbackBatchPos s"
    and "originHotShotPos s \<le> fallbackHotShotPos s \<Longrightarrow> originHotShotPos s' \<le> fallbackHotShotPos s'"
    and "originHotShotPos s' = originHotShotPos s"
    and "FinalizedL1 s' = FinalizedL1 s" and "finalizedL1StateCache s' = finalizedL1StateCache s"
  using assms by (cases rule: RefreshSafeL1Origin_cases; simp)+

lemma timestamp_frame:
  "GetBatchFinalizationTimestamp e h s = (t, s') \<Longrightarrow> \<exists>c. s' = s\<lparr>batchTimestamps := c\<rparr>"
  by (auto simp: GetBatchFinalizationTimestamp_def Let_def split: if_splits option.splits prod.splits
      intro: exI [of _ "batchTimestamps s"])

text \<open>One step of the streamer is one step of the specification, on the next position.\<close>

lemma streamer_step_refines:
  assumes "streamer_step e (s, w) ev (s', w')" and ok: "streamer_ok s"
  shows "spec_step (nextBatchPos s) ev (nextBatchPos s') \<and> streamer_ok s'"
  using assms(1)
proof cases
  case (next_some b)
  show ?thesis using next_some(2) ok by (cases rule: Next_cases) (auto simp: next_some(1))
next
  case next_none
  show ?thesis using next_none(2) ok by (cases rule: Next_cases) (auto simp: next_none(1) refill_def)
next
  case (peek r)
  show ?thesis using peek(2) ok by (cases rule: Peek_cases) (auto simp: peek(1) refill_def)
next
  case (has_next a)
  show ?thesis using HasNext_refill [OF has_next(2)] HasNext_ok [OF has_next(2) ok]
    by (simp add: has_next(1) refill_def)
next
  case (update err)
  show ?thesis using Update_ok [OF update(2) ok] by (simp add: update(1) intake_def)
next
  case (set_proper_head parentHash)
  then show ?thesis using SetProperHead_ok [OF ok] SetProperHead_refill [of s parentHash]
    by (simp add: refill_def)
next
  case (timestamp h t)
  then show ?thesis using timestamp_frame [OF timestamp(3)] ok by (auto simp: streamer_ok_def)
next
  case reset
  then show ?thesis using Reset_ok [OF ok] by simp
next
  case (refresh_origin o1)
  then show ?thesis
    using RefreshSafeL1Origin_positions(1) [OF refresh_origin(2)] RefreshSafeL1Origin_ok [OF _ ok] by auto
next
  case (refresh l1 safe o1)
  then show ?thesis
    using Refresh_positions(2) [OF refresh(2)] Refresh_ok [OF _ ok] by auto
next
  case world
  then show ?thesis using ok by simp
qed

lemma streamer_run_refines:
  assumes "streamer_run e c evs d" and "streamer_ok (fst c)"
  shows "spec_run (nextBatchPos (fst c)) evs (nextBatchPos (fst d)) \<and> streamer_ok (fst d)"
  using assms
proof (induction rule: streamer_run.induct)
  case (run_cons c ev d evs f)
  obtain s w s' w' where "c = (s, w)" "d = (s', w')" by fastforce
  with run_cons streamer_step_refines [of e s w ev s' w'] show ?case by auto
qed simp

lemma NewEspressoStreamer_start:
  assumes "NewEspressoStreamer e ns originHotShot originBatch auth track = Inr s"
  shows "streamer_ok s" and "nextBatchPos s = originBatch + 1" and "fallbackBatchPos s = originBatch"
    and "hotShotPos s = originHotShot" and "fallbackHotShotPos s = originHotShot"
    and "originHotShotPos s = originHotShot" and "skipPos s = MaxUint64"
    and "finalizedL1StateCache s = lru_new (state_lru e) 1000"
  using assms
  by (auto simp: NewEspressoStreamer_def streamer_ok_def buffer_ok_def NewBatchBuffer_def Len_def
      split: if_splits option.splits)

section \<open>Properties\<close>

lemma sample_run:
  "streamer_run sample_env
    (sample_streamer\<lparr>FinalizedL1 := zero_ref, espressoBatcher := 0\<rparr>, sample_world)
    [Quiet, Quiet, Deliver (sample_batch 1 11 0)] (sample_consumed, sample_world)"
proof -
  have "streamer_step sample_env
      (sample_streamer\<lparr>FinalizedL1 := zero_ref, espressoBatcher := 0\<rparr>, sample_world) Quiet (sample_streamer, sample_world)"
    using streamer_step.refresh [OF sample_refresh] by simp
  from streamer_run.run_cons [OF this streamer_run.run_cons [OF streamer_step.update [OF sample_update]
        streamer_run.run_cons [OF streamer_step.next_some [OF sample_next] streamer_run.run_nil]]]
  show ?thesis .
qed

text \<open>
  C1. The streamer refines the delivery automaton. From a freshly made streamer, every
  interleaving of \<open>Next\<close>, \<open>Peek\<close>, \<open>HasNext\<close>, \<open>Update\<close>, \<open>Refresh\<close>, \<open>RefreshSafeL1Origin\<close>,
  \<open>Reset\<close>, \<open>SetProperHead\<close> and timestamp lookups, with the L1, HotShot and the light client
  answering anything at any time, is a run of \<open>spec_step\<close> on the next batch number: a
  delivered batch has exactly the expected number, only a rewind to a safe batch moves the
  number otherwise, and every reached state satisfies the invariant.
\<close>

theorem delivery_refines_automaton:
  assumes "NewEspressoStreamer e ns originHotShot originBatch auth track = Inr s0"
    and "streamer_run e (s0, w0) evs (s, w)"
  shows "spec_run (originBatch + 1) evs (nextBatchPos s) \<and> streamer_ok s"
  using streamer_run_refines [OF assms(2)] NewEspressoStreamer_start [OF assms(1)] by simp

lemma delivery_refines_automaton_witness:
  "spec_run 1 [Quiet, Quiet, Deliver (sample_batch 1 11 0)] (nextBatchPos sample_consumed) \<and> streamer_ok sample_consumed"
  using delivery_refines_automaton [OF sample_new sample_run] by simp

text \<open>
  Without a rewind the delivered batch numbers are consecutive: \<open>k\<close> deliveries from a
  state that expects batch \<open>n\<close> carry the numbers \<open>n, n + 1, \<dots>, n + k - 1\<close>, none skipped,
  none repeated, whatever the order and the number in which HotShot showed the batches,
  and the streamer then expects \<open>n + k\<close>.
\<close>

theorem delivered_numbers_consecutive:
  assumes "streamer_ok s" and "streamer_run e (s, w) evs (s', w')" and "rewind_free evs"
  shows "map Number (delivered evs) = map (\<lambda>i. nextBatchPos s + of_nat i) [0..<length (delivered evs)]
    \<and> nextBatchPos s' = nextBatchPos s + of_nat (length (delivered evs))"
  using streamer_run_refines [OF assms(2), simplified, OF assms(1)] spec_run_consecutive [OF _ assms(3)] by blast

lemma sample_streamer_ok: "streamer_ok (sample_streamer\<lparr>FinalizedL1 := r, espressoBatcher := a\<rparr>)"
  by (simp add: streamer_ok_def sample_streamer_def buffer_ok_def NewBatchBuffer_def Len_def)

lemma delivered_numbers_consecutive_witness:
  "nextBatchPos sample_consumed = 1 + of_nat (length (delivered [Quiet, Quiet, Deliver (sample_batch 1 11 0)]))"
  using delivered_numbers_consecutive [OF sample_streamer_ok sample_run]
  by (simp add: rewind_free_def sample_streamer_def)

text \<open>
  C35. \<open>Refresh\<close> brings the streamer behind the safe chain, whatever the L1 and the light
  client answer: afterwards the fallback is the given safe batch, the given L1 block is the
  finalized one, the next batch is after the safe batch, and either nothing was given up
  (the next position is unchanged) or reading restarts right behind the safe batch with an
  empty head and buffer at the fallback HotShot position.
\<close>

theorem refresh_positions_safe:
  assumes "Refresh e l1 safe o1 s w = (s', w')"
    and "fallbackBatchPos s < nextBatchPos s" and "safe \<noteq> MaxUint64"
  shows "fallbackBatchPos s' = safe \<and> FinalizedL1 s' = l1 \<and> safe < nextBatchPos s'
    \<and> (nextBatchPos s' = nextBatchPos s
       \<or> nextBatchPos s' = safe + 1 \<and> hotShotPos s' = fallbackHotShotPos s'
         \<and> headBatch s' = None \<and> batches (BatchBuffer s') = [] \<and> skipPos s' = MaxUint64)"
  using Refresh_positions(1,3,6) [OF assms(1)] assms(2,3) Refresh_reset_or_same [OF assms(1)] by blast

lemma refresh_positions_safe_witness:
  "\<exists>s' w'. Refresh sample_env sample_l1 3 \<lparr>bid_hash = 7, bid_number = 1\<rparr> sample_updated sample_world = (s', w')
    \<and> fallbackBatchPos s' = 3 \<and> nextBatchPos s' = 4"
proof -
  obtain s' w' where r: "Refresh sample_env sample_l1 3 \<lparr>bid_hash = 7, bid_number = 1\<rparr> sample_updated sample_world = (s', w')"
    by fastforce
  have pos: "nextBatchPos sample_updated = 1" "fallbackBatchPos sample_updated = 0"
    by (simp_all add: sample_updated_def sample_streamer_def)
  show ?thesis using refresh_positions_safe [OF r] r by (auto simp: pos)
qed

end
