(* ===== verification/Op_Authentic.thy ===== *)
theory Op_Authentic
  imports Op_Delivery
begin

text \<open>
  What \<open>CheckBatch\<close> promises about the batches the streamer gives out. The finalized L1 is a
  pair of functions, the hash \<open>H n\<close> and the registered batcher \<open>B n\<close> of its block \<open>n\<close>; the
  clients either fail or answer with them, since both are append-only. The cache then
  never holds anything else, so an accepted batch is signed by the batcher of its origin
  and names the right origin hash.
\<close>

section \<open>The finalized L1\<close>

definition finalized_view ::
  "('w, 'c, 't) env \<Rightarrow> (u64 \<Rightarrow> hash) \<Rightarrow> (u64 \<Rightarrow> address) \<Rightarrow> bool" where
  "finalized_view e H B =
    ((\<forall>n w h w'. HeaderHashByNumber e n w = (Inr h, w') \<longrightarrow> h = H n)
     \<and> (\<forall>at n w a w'. n \<le> at \<longrightarrow> EspressoBatcherAtBlock e at n w = (Inr a, w') \<longrightarrow> a = B n))"

lemma finalized_viewD:
  assumes "finalized_view e H B"
  shows "HeaderHashByNumber e n w = (Inr h, w') \<Longrightarrow> h = H n"
    and "n \<le> at \<Longrightarrow> EspressoBatcherAtBlock e at n w = (Inr a, w') \<Longrightarrow> a = B n"
  using assms unfolding finalized_view_def by blast+

definition cache_sound ::
  "('w, 'c, 't) env \<Rightarrow> (u64 \<Rightarrow> hash) \<Rightarrow> (u64 \<Rightarrow> address) \<Rightarrow> ('c, 't) streamer \<Rightarrow> bool" where
  "cache_sound e H B s =
    (\<forall>n st. fst (lru_get (state_lru e) (finalizedL1StateCache s) n) = Some st \<longrightarrow>
      st_hash st = H n \<and> authorizedBatchers st = [B n] \<and> B n \<noteq> 0)"

definition authentic :: "(u64 \<Rightarrow> hash) \<Rightarrow> (u64 \<Rightarrow> address) \<Rightarrow> batch \<Rightarrow> bool" where
  "authentic H B b =
    (let n = bid_number (L1Origin b) in B n \<noteq> 0 \<and> Signer b = B n \<and> bid_hash (L1Origin b) = H n)"

lemma cache_sound_cong:
  "finalizedL1StateCache s' = finalizedL1StateCache s \<Longrightarrow> cache_sound e H B s' = cache_sound e H B s"
  by (simp add: cache_sound_def)

lemma cache_sound_updates [simp]:
  "cache_sound e H B (s\<lparr>headBatch := h\<rparr>) = cache_sound e H B s"
  "cache_sound e H B (s\<lparr>BatchBuffer := b\<rparr>) = cache_sound e H B s"
  "cache_sound e H B (s\<lparr>skipPos := p\<rparr>) = cache_sound e H B s"
  "cache_sound e H B (s\<lparr>hotShotPos := p\<rparr>) = cache_sound e H B s"
  "cache_sound e H B (s\<lparr>batchTimestamps := t\<rparr>) = cache_sound e H B s"
  by (simp_all add: cache_sound_def)

lemma lru_lawful_get:
  "lru_lawful l \<Longrightarrow> lru_get l c k = (r, c') \<Longrightarrow> fst (lru_get l c' k') = fst (lru_get l c k')"
  unfolding lru_lawful_def by (metis snd_conv)

lemma lru_lawful_add_same: "lru_lawful l \<Longrightarrow> fst (lru_get l (lru_add l c k v) k) = Some v"
  by (simp add: lru_lawful_def)

lemma lru_lawful_add_other:
  "lru_lawful l \<Longrightarrow> k' \<noteq> k \<Longrightarrow>
    fst (lru_get l (lru_add l c k v) k') = None \<or> fst (lru_get l (lru_add l c k v) k') = fst (lru_get l c k')"
  by (simp add: lru_lawful_def)

lemma lru_lawful_add:
  "lru_lawful l \<Longrightarrow> fst (lru_get l (lru_add l c k v) k') = Some x \<Longrightarrow>
    k' = k \<and> x = v \<or> fst (lru_get l c k') = Some x"
  by (cases "k' = k") (auto simp: lru_lawful_add_same dest: lru_lawful_add_other [of l k' k c v])

section \<open>The verdicts of CheckBatch\<close>

text \<open>The verdict on a batch whose origin is final, given the L1 state at that origin.\<close>

definition state_verdict :: "l1_state \<Rightarrow> batch \<Rightarrow> batch_validity" where
  "state_verdict st b =
    (if Signer b \<notin> set (authorizedBatchers st) then BatchDrop
     else if st_hash st \<noteq> bid_hash (L1Origin b) then BatchDrop else BatchAccept)"

text \<open>All the ways \<open>CheckBatch\<close> can end.\<close>

lemma CheckBatch_cases:
  assumes run: "CheckBatch e b s w = (v, s', w')"
  obtains (past) "Number b < nextBatchPos s" "v = BatchPast" "s' = s" "w' = w"
  | (uninitialized) "\<not> Number b < nextBatchPos s" "FinalizedL1 s = zero_ref" "v = BatchUndecided" "s' = s" "w' = w"
  | (unfinal) "\<not> Number b < nextBatchPos s" "FinalizedL1 s \<noteq> zero_ref"
      "bid_number (L1Origin b) > ref_number (FinalizedL1 s)" "s' = s" "w' = w"
      "v = (if espressoBatcher s \<noteq> 0 \<and> Signer b \<noteq> espressoBatcher s then BatchDrop else BatchUndecided)"
  | (cached) st c where "\<not> Number b < nextBatchPos s" "FinalizedL1 s \<noteq> zero_ref"
      "bid_number (L1Origin b) \<le> ref_number (FinalizedL1 s)"
      "lru_get (state_lru e) (finalizedL1StateCache s) (bid_number (L1Origin b)) = (Some st, c)"
      "v = state_verdict st b" "s' = s\<lparr>finalizedL1StateCache := c\<rparr>" "w' = w"
  | (no_header) c err where "\<not> Number b < nextBatchPos s" "FinalizedL1 s \<noteq> zero_ref"
      "bid_number (L1Origin b) \<le> ref_number (FinalizedL1 s)"
      "lru_get (state_lru e) (finalizedL1StateCache s) (bid_number (L1Origin b)) = (None, c)"
      "HeaderHashByNumber e (bid_number (L1Origin b)) w = (Inl err, w')"
      "v = BatchUndecided" "s' = s\<lparr>finalizedL1StateCache := c\<rparr>"
  | (no_batcher) c h w1 err where "\<not> Number b < nextBatchPos s" "FinalizedL1 s \<noteq> zero_ref"
      "bid_number (L1Origin b) \<le> ref_number (FinalizedL1 s)"
      "lru_get (state_lru e) (finalizedL1StateCache s) (bid_number (L1Origin b)) = (None, c)"
      "HeaderHashByNumber e (bid_number (L1Origin b)) w = (Inr h, w1)"
      "EspressoBatcherAtBlock e (ref_number (FinalizedL1 s)) (bid_number (L1Origin b)) w1 = (Inl err, w')"
      "v = BatchUndecided" "s' = s\<lparr>finalizedL1StateCache := c\<rparr>"
  | (unregistered) c h w1 where "\<not> Number b < nextBatchPos s" "FinalizedL1 s \<noteq> zero_ref"
      "bid_number (L1Origin b) \<le> ref_number (FinalizedL1 s)"
      "lru_get (state_lru e) (finalizedL1StateCache s) (bid_number (L1Origin b)) = (None, c)"
      "HeaderHashByNumber e (bid_number (L1Origin b)) w = (Inr h, w1)"
      "EspressoBatcherAtBlock e (ref_number (FinalizedL1 s)) (bid_number (L1Origin b)) w1 = (Inr 0, w')"
      "v = BatchDrop" "s' = s\<lparr>finalizedL1StateCache := c\<rparr>"
  | (fetched) c h w1 a st where "\<not> Number b < nextBatchPos s" "FinalizedL1 s \<noteq> zero_ref"
      "bid_number (L1Origin b) \<le> ref_number (FinalizedL1 s)"
      "lru_get (state_lru e) (finalizedL1StateCache s) (bid_number (L1Origin b)) = (None, c)"
      "HeaderHashByNumber e (bid_number (L1Origin b)) w = (Inr h, w1)"
      "EspressoBatcherAtBlock e (ref_number (FinalizedL1 s)) (bid_number (L1Origin b)) w1 = (Inr a, w')"
      "a \<noteq> 0" "st = \<lparr>st_hash = h, authorizedBatchers = [a]\<rparr>" "v = state_verdict st b"
      "s' = s\<lparr>finalizedL1StateCache := lru_add (state_lru e) c (bid_number (L1Origin b)) st\<rparr>"
proof -
  note ev = run [unfolded CheckBatch_def Let_def]
  show ?thesis
  proof (cases "Number b < nextBatchPos s \<or> FinalizedL1 s = zero_ref
      \<or> bid_number (L1Origin b) > ref_number (FinalizedL1 s)")
    case True
    show ?thesis
    proof (cases "Number b < nextBatchPos s")
      case past: True
      with ev show ?thesis by (intro that(1)) simp_all
    next
      case npast: False
      show ?thesis
      proof (cases "FinalizedL1 s = zero_ref")
        case True
        with npast ev show ?thesis by (intro that(2)) simp_all
      next
        case False
        with npast True ev show ?thesis by (intro that(3)) (simp_all split: if_splits)
      qed
    qed
  next
    case False
    then have final: "\<not> Number b < nextBatchPos s" "FinalizedL1 s \<noteq> zero_ref"
      "bid_number (L1Origin b) \<le> ref_number (FinalizedL1 s)"
      and nless: "\<not> ref_number (FinalizedL1 s) < bid_number (L1Origin b)" by (simp_all only: not_less de_Morgan_disj simp_thms)
    obtain cached c where get: "lru_get (state_lru e) (finalizedL1StateCache s) (bid_number (L1Origin b)) = (cached, c)"
      by fastforce
    note ev = ev [unfolded if_not_P [OF final(1)] if_not_P [OF final(2)] if_not_P [OF nless] get prod.case]
    show ?thesis
    proof (cases cached)
      case (Some st)
      with get ev show ?thesis by (intro that(4) [OF final, of st c]) (simp_all add: state_verdict_def)
    next
      case None
      obtain h w1 where hdr: "HeaderHashByNumber e (bid_number (L1Origin b)) w = (h, w1)" by fastforce
      obtain a w2 where bat: "EspressoBatcherAtBlock e (ref_number (FinalizedL1 s)) (bid_number (L1Origin b)) w1 = (a, w2)"
        by fastforce
      show ?thesis
      proof (cases h)
        case (Inl err)
        with get None hdr ev show ?thesis by (intro that(5) [OF final, of c err]) simp_all
      next
        case h: (Inr hash)
        show ?thesis
        proof (cases a)
          case (Inl err)
          with get None hdr h bat ev show ?thesis by (intro that(6) [OF final, of c hash w1 err]) simp_all
        next
          case (Inr addr)
          show ?thesis
          proof (cases "addr = 0")
            case True
            with Inr get None hdr h bat ev show ?thesis
              by (intro that(7) [OF final, of c hash w1]) simp_all
          next
            case False
            with Inr get None hdr h bat ev show ?thesis
              by (intro that(8) [OF final, of c hash w1 addr "\<lparr>st_hash = hash, authorizedBatchers = [addr]\<rparr>"])
                (simp_all add: state_verdict_def)
          qed
        qed
      qed
    qed
  qed
qed

lemma state_verdict_Accept:
  "state_verdict st b = BatchAccept \<longleftrightarrow> Signer b \<in> set (authorizedBatchers st) \<and> st_hash st = bid_hash (L1Origin b)"
  by (simp add: state_verdict_def)

lemma state_verdict_range: "state_verdict st b = BatchAccept \<or> state_verdict st b = BatchDrop"
  by (simp add: state_verdict_def)

text \<open>With a sound cache and honest clients the verdict is the one of the finalized L1.\<close>

lemma CheckBatch_sound:
  assumes run: "CheckBatch e b s w = (v, s', w')" and sound: "cache_sound e H B s"
    and view: "finalized_view e H B" and lru: "lru_lawful (state_lru e)"
  shows "cache_sound e H B s'"
  using run
proof (cases rule: CheckBatch_cases)
  case (fetched c h w1 a st)
  have "st_hash st = H (bid_number (L1Origin b))" "authorizedBatchers st = [B (bid_number (L1Origin b))]"
    "B (bid_number (L1Origin b)) \<noteq> 0"
    using finalized_viewD(1) [OF view fetched(5)] finalized_viewD(2) [OF view fetched(3,6)] fetched(7,8) by simp_all
  then show ?thesis
    using sound fetched(10) lru_lawful_get [OF lru fetched(4)]
    by (auto simp: cache_sound_def dest!: lru_lawful_add [OF lru])
qed (use sound in \<open>simp_all add: cache_sound_def lru_lawful_get [OF lru]\<close>)

text \<open>An accepted batch leaves behind the cached L1 state that vouches for it.\<close>

definition vouched :: "('w, 'c, 't) env \<Rightarrow> batch \<Rightarrow> ('c, 't) streamer \<Rightarrow> bool" where
  "vouched e b s =
    (\<not> Number b < nextBatchPos s \<and> FinalizedL1 s \<noteq> zero_ref
     \<and> bid_number (L1Origin b) \<le> ref_number (FinalizedL1 s)
     \<and> (\<exists>st. fst (lru_get (state_lru e) (finalizedL1StateCache s) (bid_number (L1Origin b))) = Some st
          \<and> state_verdict st b = BatchAccept))"

lemma CheckBatch_accept_vouched:
  assumes run: "CheckBatch e b s w = (BatchAccept, s', w')" and lru: "lru_lawful (state_lru e)"
  shows "vouched e b s'"
  using run
proof (cases rule: CheckBatch_cases)
  case (cached st c)
  then show ?thesis using lru_lawful_get [OF lru cached(4)] by (simp add: vouched_def)
next
  case (fetched c h w1 a st)
  then show ?thesis using lru_lawful_add_same [OF lru] by (simp add: vouched_def)
qed (simp_all split: if_splits)

text \<open>A vouched batch is accepted again at once, in any world and without a remote call.\<close>

lemma vouched_CheckBatch:
  assumes v: "vouched e b s" and lru: "lru_lawful (state_lru e)"
  shows "\<exists>c. CheckBatch e b s w = (BatchAccept, s\<lparr>finalizedL1StateCache := c\<rparr>, w)"
proof -
  obtain st where st: "fst (lru_get (state_lru e) (finalizedL1StateCache s) (bid_number (L1Origin b))) = Some st"
    "state_verdict st b = BatchAccept" using v by (auto simp: vouched_def)
  obtain v' s' w' where run: "CheckBatch e b s w = (v', s', w')" by (cases "CheckBatch e b s w")
  then show ?thesis
    by (cases rule: CheckBatch_cases) (use v st run in \<open>auto simp: vouched_def not_less\<close>)
qed

lemma vouched_authentic:
  "vouched e b s \<Longrightarrow> cache_sound e H B s \<Longrightarrow> authentic H B b"
  by (auto simp: vouched_def cache_sound_def authentic_def state_verdict_Accept Let_def)

section \<open>The cache stays sound\<close>

definition sound_under :: "('w, 'c, 't) env \<Rightarrow> (u64 \<Rightarrow> hash) \<Rightarrow> (u64 \<Rightarrow> address) \<Rightarrow> ('c, 't) streamer \<Rightarrow> bool" where
  "sound_under e H B s = (finalized_view e H B \<and> lru_lawful (state_lru e) \<and> cache_sound e H B s)"

lemma sound_under_cong:
  "finalizedL1StateCache s' = finalizedL1StateCache s \<Longrightarrow> sound_under e H B s' = sound_under e H B s"
  by (simp add: sound_under_def cache_sound_def)

lemma store_batch_cache: "store_batch e b ts s = (err, s') \<Longrightarrow> finalizedL1StateCache s' = finalizedL1StateCache s"
  by (erule store_batch_cases) simp_all

lemma find_candidate_cache:
  "find_candidate s = StalePopped s' \<Longrightarrow> finalizedL1StateCache s' = finalizedL1StateCache s"
  "find_candidate s = Candidate b s' \<Longrightarrow> finalizedL1StateCache s' = finalizedL1StateCache s"
  by (auto simp: find_candidate_def split: option.splits if_splits)

interpretation sound_inv: reading_invariant e "sound_under e H B" "\<lambda>_. True"
  for e :: "('w, 'c, 't) env" and H B
proof unfold_locales
  fix s s' :: "('c, 't) streamer" and b v and w w' :: 'w and ts err p
  assume P: "sound_under e H B s"
  show "CheckBatch e b s w = (v, s', w') \<Longrightarrow> sound_under e H B s'"
    using P CheckBatch_sound [of e b s w v s' w' H B] by (simp add: sound_under_def)
  show "store_batch e b ts s = (err, s') \<Longrightarrow> sound_under e H B s'"
    using P by (simp add: sound_under_cong [OF store_batch_cache])
  show "find_candidate s = StalePopped s' \<Longrightarrow> sound_under e H B s'"
    using P by (simp add: sound_under_cong [OF find_candidate_cache(1)])
  show "find_candidate s = Candidate b s' \<Longrightarrow> sound_under e H B s'"
    using P by (simp add: sound_under_cong [OF find_candidate_cache(2)])
  show "sound_under e H B (s\<lparr>skipPos := p\<rparr>)" "sound_under e H B (s\<lparr>hotShotPos := p\<rparr>)"
    "sound_under e H B (s\<lparr>headBatch := None\<rparr>)"
    using P by (simp_all add: sound_under_def)
qed simp

lemma streamer_step_sound:
  assumes "streamer_step e (s, w) ev (s', w')" and ok: "streamer_ok s" and snd: "sound_under e H B s"
  shows "sound_under e H B s' \<and> (\<forall>b. ev = Deliver b \<longrightarrow> authentic H B b)"
  using assms(1)
proof cases
  case (next_some b)
  from next_some(2) ok show ?thesis
  proof (cases rule: Next_cases)
    case (some b' s1 s2 w2)
    have s2: "sound_under e H B s2" by (rule sound_inv.HasNext_keeps [OF some(14) snd])
    then have "vouched e b s2"
      using CheckBatch_accept_vouched [OF some(16)] some(1) by (simp add: sound_under_def)
    with s2 have "authentic H B b" using vouched_authentic by (auto simp: sound_under_def)
    moreover have "sound_under e H B s'" using s2 by (simp add: sound_under_cong [OF some(13)])
    ultimately show ?thesis using next_some(1) by simp
  qed simp
next
  case next_none
  from next_none(2) ok show ?thesis
    by (cases rule: Next_cases) (use next_none(1) sound_inv.HasNext_keeps [OF _ snd] in auto)
next
  case (peek r)
  from peek(2) ok show ?thesis
    by (cases rule: Peek_cases) (use peek(1) sound_inv.HasNext_keeps [OF _ snd] in auto)
next
  case (has_next a)
  then show ?thesis using sound_inv.HasNext_keeps [OF _ snd] by simp
next
  case (update err)
  then show ?thesis using sound_inv.Update_keeps [OF _ snd] by simp
next
  case (set_proper_head parentHash)
  then show ?thesis using snd by (simp add: SetProperHead_def sound_under_def split: option.split)
next
  case (timestamp h t)
  then show ?thesis using timestamp_frame [OF timestamp(3)] snd by (auto simp: sound_under_def)
next
  case reset
  then show ?thesis using snd by (simp add: sound_under_def cache_sound_def)
next
  case (refresh_origin o1)
  then show ?thesis
    using sound_under_cong [OF RefreshSafeL1Origin_positions(6) [OF refresh_origin(2)]] snd by auto
next
  case (refresh l1 safe o1)
  then show ?thesis using sound_under_cong [OF Refresh_positions(7) [OF refresh(2)]] snd by auto
next
  case world
  then show ?thesis using snd by simp
qed

lemma streamer_run_sound:
  assumes "streamer_run e c evs d" and "streamer_ok (fst c)" and "sound_under e H B (fst c)"
  shows "\<forall>b \<in> set (delivered evs). authentic H B b"
  using assms
proof (induction rule: streamer_run.induct)
  case (run_cons c ev d evs f)
  obtain s w s' w' where cd: "c = (s, w)" "d = (s', w')" by fastforce
  note st = run_cons.hyps(1) [unfolded cd] and hyps = run_cons.prems [unfolded cd, simplified]
  have "streamer_ok s'" using streamer_step_refines [OF st hyps(1)] by simp
  then show ?case
    using streamer_step_sound [OF st hyps] run_cons.IH cd by (cases ev) auto
qed simp

section \<open>Properties\<close>

text \<open>
  Only authentic batches come out. Let every answer of the L1 clients agree with one
  finalized chain: \<open>H n\<close> the hash of its block \<open>n\<close> and \<open>B n\<close> the batcher the contract has
  registered for it. Whatever HotShot carries and however calls, failures and refreshes
  interleave, every batch delivered since the streamer was made is signed by the
  registered (non-zero) batcher of its L1 origin and names that origin's true hash.
\<close>

theorem delivered_batches_authentic:
  assumes "NewEspressoStreamer e ns originHotShot originBatch auth track = Inr s0"
    and "finalized_view e H B" and "lru_lawful (state_lru e)"
    and "streamer_run e (s0, w0) evs (s, w)"
  shows "\<forall>b \<in> set (delivered evs). authentic H B b"
proof -
  have "cache_sound e H B s0"
    using assms(3) by (simp add: cache_sound_def NewEspressoStreamer_start(8) [OF assms(1)] lru_lawful_def)
  then show ?thesis
    using streamer_run_sound [OF assms(4)] NewEspressoStreamer_start(1) [OF assms(1)] assms(2,3)
    by (simp add: sound_under_def)
qed

lemma sample_finalized_view: "finalized_view sample_env (\<lambda>n. 7) (\<lambda>n. 5)"
  by (simp add: finalized_view_def sample_env_def)

lemma delivered_batches_authentic_witness:
  "authentic (\<lambda>n. 7) (\<lambda>n. 5) (sample_batch 1 11 0)"
  using delivered_batches_authentic [OF sample_new sample_finalized_view _ sample_run]
  by (simp add: sample_env_def alist_lru_lawful)

text \<open>
  C21. The verdicts of \<open>CheckBatch\<close>, sound and complete against the finalized L1: \<open>BatchPast\<close>
  exactly for a number below the expected one; \<open>BatchAccept\<close> only for an authentic batch
  with a finalized origin; \<open>BatchDrop\<close> never for an authentic batch with a finalized
  origin, and for a later origin only when the signer is not the known batcher;
  \<open>BatchUndecided\<close> only without a finalized L1, for an origin above it, or when a client
  call failed. So an authentic, finalized, not yet passed batch is accepted unless a call fails.
\<close>

theorem check_batch_verdicts:
  assumes run: "CheckBatch e b s w = (v, s', w')"
    and "finalized_view e H B" and "lru_lawful (state_lru e)" and "cache_sound e H B s"
  shows "(v = BatchPast \<longleftrightarrow> Number b < nextBatchPos s)
    \<and> (v = BatchAccept \<longrightarrow> authentic H B b \<and> bid_number (L1Origin b) \<le> ref_number (FinalizedL1 s))
    \<and> (v = BatchDrop \<longrightarrow>
         (if bid_number (L1Origin b) \<le> ref_number (FinalizedL1 s) then \<not> authentic H B b
          else espressoBatcher s \<noteq> 0 \<and> Signer b \<noteq> espressoBatcher s))
    \<and> (v = BatchUndecided \<longrightarrow>
         FinalizedL1 s = zero_ref \<or> bid_number (L1Origin b) > ref_number (FinalizedL1 s)
         \<or> (\<exists>x w1. HeaderHashByNumber e (bid_number (L1Origin b)) w = (Inl x, w1))
         \<or> (\<exists>h w1 x w2. HeaderHashByNumber e (bid_number (L1Origin b)) w = (Inr h, w1)
              \<and> EspressoBatcherAtBlock e (ref_number (FinalizedL1 s)) (bid_number (L1Origin b)) w1 = (Inl x, w2)))"
  using run
proof (cases rule: CheckBatch_cases)
  case (cached st c)
  have "st_hash st = H (bid_number (L1Origin b)) \<and> authorizedBatchers st = [B (bid_number (L1Origin b))]
      \<and> B (bid_number (L1Origin b)) \<noteq> 0"
    using assms(4) cached(4) by (simp add: cache_sound_def)
  then show ?thesis using cached by (auto simp: state_verdict_def authentic_def Let_def)
next
  case (unregistered c h w1)
  have "B (bid_number (L1Origin b)) = 0" using finalized_viewD(2) [OF assms(2) unregistered(3,6)] by simp
  then show ?thesis using unregistered by (simp add: authentic_def Let_def)
next
  case (fetched c h w1 a st)
  then show ?thesis
    using finalized_viewD(1) [OF assms(2) fetched(5)] finalized_viewD(2) [OF assms(2) fetched(3,6)]
    by (auto simp: state_verdict_def authentic_def Let_def)
qed (auto split: if_splits)

lemma check_batch_verdicts_witness:
  "\<exists>v s' w'. CheckBatch sample_env ((sample_batch 1 11 0)\<lparr>Signer := 6\<rparr>) sample_streamer sample_world = (v, s', w')
    \<and> v \<noteq> BatchAccept \<and> v \<noteq> BatchPast"
proof -
  let ?b = "(sample_batch 1 11 0)\<lparr>Signer := 6\<rparr>"
  obtain v s' w' where run: "CheckBatch sample_env ?b sample_streamer sample_world = (v, s', w')"
    by (cases "CheckBatch sample_env ?b sample_streamer sample_world")
  have "lru_lawful (state_lru sample_env)" "cache_sound sample_env (\<lambda>n. 7) (\<lambda>n. 5) sample_streamer"
    by (simp_all add: sample_env_def alist_lru_lawful) (simp add: cache_sound_def sample_defs)
  from check_batch_verdicts [OF run sample_finalized_view this] show ?thesis
    using run by (auto simp: authentic_def sample_streamer_def)
qed

text \<open>
  \<open>Peek\<close> and \<open>Next\<close> agree. A batch that \<open>Peek\<close> returned is what \<open>Next\<close> returns,
  even when every remote service fails or lies in between (\<open>w1\<close> is any world): the verdict
  is in the cache, no remote call is made, and \<open>Next\<close> advances the position by one.
\<close>

theorem peek_then_next:
  assumes "Peek e s w = (Some b, s', w')" and "streamer_ok s" and "lru_lawful (state_lru e)"
  shows "\<exists>s''. Next e s' w1 = (Some b, s'', w1) \<and> nextBatchPos s'' = nextBatchPos s + 1
    \<and> hotShotPos s'' = rewound s"
  using assms(1,2)
proof (cases rule: Peek_cases)
  case (some b')
  then have b: "headBatch s' = Some b" and hn: "HasNext e s w = (True, s', w')" by simp_all
  obtain s1 w2 where "CheckBatch e b s1 w2 = (BatchAccept, s', w')"
    using HasNext_True [OF hn assms(2)] b by (metis option.inject)
  then have "vouched e b s'" by (rule CheckBatch_accept_vouched) (rule assms(3))
  from vouched_CheckBatch [OF this assms(3), of w1]
  obtain c where "CheckBatch e b s' w1 = (BatchAccept, s'\<lparr>finalizedL1StateCache := c\<rparr>, w1)" ..
  then have "HasNext e s' w1 = (True, s'\<lparr>finalizedL1StateCache := c\<rparr>, w1)"
    by (simp add: HasNext.simps [of e s' w1] find_candidate_def b)
  then show ?thesis
    using some(4) b by (simp add: Next_def Let_def refill_def rewound_def)
qed simp

lemma peek_then_next_witness:
  "\<exists>s''. Next sample_env sample_updated [] = (Some (sample_batch 1 11 0), s'', []) \<and> nextBatchPos s'' = 2"
proof -
  have "Peek sample_env sample_updated sample_world = (Some (sample_batch 1 11 0), sample_updated, sample_world)"
    by (simp add: Peek_def sample_has_next) (simp add: sample_updated_def)
  moreover have "streamer_ok sample_updated"
    by (simp add: streamer_ok_def sample_updated_def sample_streamer_def buffer_ok_def BatchBufferCapacity_def Len_def)
  ultimately show ?thesis
    using peek_then_next [of sample_env sample_updated sample_world "sample_batch 1 11 0" sample_updated sample_world "[]"]
    by (auto simp: sample_env_def alist_lru_lawful) (auto simp: sample_updated_def sample_streamer_def)
qed

end
