(* ===== verification/Op_Update.thy ===== *)
theory Op_Update
  imports Op_Authentic
begin

text \<open>
  Reading HotShot: what becomes of every transaction, how a full buffer is made good by a
  rewind, which positions the streamer reads from, and when \<open>Update\<close> returns.
\<close>

section \<open>Transactions\<close>

text \<open>Where a batch can be found after it was taken in; a copy is known by its hash.\<close>

definition holds_copy :: "batch \<Rightarrow> ('c, 't) streamer \<Rightarrow> bool" where
  "holds_copy b s =
    ((\<exists>h. headBatch s = Some h \<and> Hash h = Hash b) \<or> (\<exists>y \<in> set (batches (BatchBuffer s)). Hash y = Hash b))"

lemma store_batch_holds:
  assumes run: "store_batch e b ts s = (err, s')" and ok: "buffer_ok (BatchBuffer s)"
  shows "err = None \<and> holds_copy b s' \<or> err = Some ErrAtCapacity \<and> \<not> has_room (BatchBuffer s) \<and> s' = s"
  using run
proof (cases rule: store_batch_cases)
  case (buffered buf t)
  then show ?thesis using buf.ins_content_in [OF ok buffered(2)] by (auto simp: holds_copy_def)
next
  case duplicate
  then show ?thesis using Insert_duplicate [OF duplicate(3)] by (auto simp: holds_copy_def)
qed (auto simp: holds_copy_def Insert_capacity)

lemma process_txns_append:
  "process_txns e pos ts (xs @ ys) s w =
    (case process_txns e pos ts xs s w of (s1, w1) \<Rightarrow> process_txns e pos ts ys s1 w1)"
  by (induction xs arbitrary: s w) (simp_all split: prod.split)

lemma process_blocks_append:
  "process_blocks e start stamps i (xs @ ys) s w =
    (case process_blocks e start stamps i xs s w of (s1, w1) \<Rightarrow>
       process_blocks e start stamps (i + length xs) ys s1 w1)"
  by (induction xs arbitrary: i s w) (simp_all add: Let_def split: prod.split)

text \<open>The rewind mark only goes down while HotShot is read.\<close>

lemma store_batch_skip: "store_batch e b ts s = (err, s') \<Longrightarrow> skipPos s' = skipPos s"
  by (erule store_batch_cases) simp_all

lemma find_candidate_skip:
  "find_candidate s = StalePopped s' \<Longrightarrow> skipPos s' = skipPos s"
  "find_candidate s = Candidate b s' \<Longrightarrow> skipPos s' = skipPos s"
  by (auto dest: find_candidate_refill simp: refill_def)

interpretation skip_bound: reading_invariant e "\<lambda>x. skipPos x \<le> p" "\<lambda>_. True" for e :: "('w, 'c, 't) env" and p
proof unfold_locales
  fix s s' :: "('c, 't) streamer" and b v and w w' :: 'w and ts err q
  assume P: "skipPos s \<le> p"
  show "CheckBatch e b s w = (v, s', w') \<Longrightarrow> skipPos s' \<le> p"
    using P by (auto dest: CheckBatch_refill simp: refill_def)
  show "store_batch e b ts s = (err, s') \<Longrightarrow> skipPos s' \<le> p"
    using P by (simp add: store_batch_skip)
  show "q \<le> skipPos s \<Longrightarrow> skipPos (s\<lparr>skipPos := q\<rparr>) \<le> p"
    using P by simp
  show "find_candidate s = StalePopped s' \<Longrightarrow> skipPos s' \<le> p"
    "find_candidate s = Candidate b s' \<Longrightarrow> skipPos s' \<le> p"
    using P by (simp_all add: find_candidate_skip)
qed simp_all

text \<open>Block \<open>pos\<close> overflowed: one of its transactions met a full buffer.\<close>

definition overflowed ::
  "('w, 'c, 't) env \<Rightarrow> u64 \<Rightarrow> u64 \<Rightarrow> bytes list \<Rightarrow> ('c, 't) streamer \<Rightarrow> 'w \<Rightarrow> bool" where
  "overflowed e pos ts txns s w =
    (\<exists>us t vs. txns = us @ t # vs \<and>
      (case process_txns e pos ts us s w of
         (s1, w1) \<Rightarrow> fst (processEspressoTransaction e t ts s1 w1) = Some ErrAtCapacity))"

definition before :: "u64 \<Rightarrow> u64" where
  "before pos = (if pos > 0 then pos - 1 else 0)"

lemma process_txns_overflowed:
  assumes "process_txns e pos ts txns s w = (s', w')" and "overflowed e pos ts txns s w"
  shows "skipPos s' \<le> before pos"
proof -
  obtain us t vs where split: "txns = us @ t # vs"
    and o: "case process_txns e pos ts us s w of
         (s1, w1) \<Rightarrow> fst (processEspressoTransaction e t ts s1 w1) = Some ErrAtCapacity"
    using assms(2) unfolding overflowed_def by (elim exE conjE) (rule that)
  obtain s1 w1 where us: "process_txns e pos ts us s w = (s1, w1)" by fastforce
  note t = o [unfolded us prod.case]
  obtain s2 w2 where p: "processEspressoTransaction e t ts s1 w1 = (Some ErrAtCapacity, s2, w2)"
    using t by (cases "processEspressoTransaction e t ts s1 w1") simp
  have run: "process_txns e pos ts vs (s2\<lparr>skipPos := min (skipPos s2) (before pos)\<rparr>) w2 = (s', w')"
    using assms(1) by (simp add: split process_txns_append us p before_def)
  show ?thesis by (rule skip_bound.process_txns_keeps [OF run]) simp_all
qed

lemma process_blocks_overflowed:
  assumes run: "process_blocks e start stamps 0 (xs @ blk # ys) s w = (s', w')"
    and pre: "process_blocks e start stamps 0 xs s w = (s1, w1)"
    and over: "overflowed e (start + of_nat (length xs)) (header_timestamp stamps (length xs) s1)
      (Transactions blk) s1 w1"
  shows "skipPos s' \<le> before (start + of_nat (length xs))"
proof -
  let ?pos = "start + of_nat (length xs) :: u64"
  obtain s2 w2 where blk: "process_txns e ?pos (header_timestamp stamps (length xs) s1) (Transactions blk) s1 w1 = (s2, w2)" by fastforce
  have rest: "process_blocks e start stamps (Suc (length xs)) ys s2 w2 = (s', w')"
    using run by (simp add: process_blocks_append pre Let_def blk)
  show ?thesis
    by (rule skip_bound.process_blocks_keeps [OF rest process_txns_overflowed [OF blk over]]) simp
qed

section \<open>Rewinding\<close>

text \<open>Fetching \<open>[start, finish)\<close> meets a full buffer in its block number \<open>k\<close>.\<close>

definition overflow_at ::
  "('w, 'c, 't) env \<Rightarrow> u64 \<Rightarrow> u64 \<Rightarrow> nat \<Rightarrow> ('c, 't) streamer \<Rightarrow> 'w \<Rightarrow> bool" where
  "overflow_at e start finish k s w =
    (case FetchNamespaceTransactionsInRange e start finish (Namespace s) w of
       (Inl err, w) \<Rightarrow> False
     | (Inr blocks, w) \<Rightarrow>
         k < length blocks \<and>
         (let (now, w) = UnixNow e w;
              stamps = (if trackBatchTimestamp s then replicate (length blocks) now else []);
              (s, w) = process_blocks e start stamps 0 (take k blocks) (s\<lparr>hotShotPos := finish - 1\<rparr>) w
          in overflowed e (start + of_nat k) (header_timestamp stamps k s) (Transactions (blocks ! k)) s w))"

lemma fetch_overflow:
  assumes run: "fetchHotShotRange e start finish s w = (err, s', w')"
    and over: "overflow_at e start finish k s w" and fin: "finish \<noteq> 0"
  shows "skipPos s' \<le> before (start + of_nat k)"
proof -
  obtain blocks w1 where call: "FetchNamespaceTransactionsInRange e start finish (Namespace s) w = (Inr blocks, w1)"
    and k: "k < length blocks"
    using over by (auto simp: overflow_at_def split: prod.splits sum.splits)
  obtain now w2 where now: "UnixNow e w1 = (now, w2)" by fastforce
  let ?stamps = "if trackBatchTimestamp s then replicate (length blocks) now else []"
  obtain s1 w3 where pre: "process_blocks e start ?stamps 0 (take k blocks) (s\<lparr>hotShotPos := finish - 1\<rparr>) w2 = (s1, w3)"
    by fastforce
  have ov: "overflowed e (start + of_nat (length (take k blocks))) (header_timestamp ?stamps (length (take k blocks)) s1)
      (Transactions (blocks ! k)) s1 w3"
    using over k by (simp add: overflow_at_def call now Let_def pre min_def)
  have "process_blocks e start ?stamps 0 (take k blocks @ blocks ! k # drop (Suc k) blocks) (s\<lparr>hotShotPos := finish - 1\<rparr>) w2 = (s', w')"
    using run fin k by (cases "blocks = []")
      (auto simp: fetchHotShotRange_def call now Let_def id_take_nth_drop [symmetric] split: prod.splits)
  from process_blocks_overflowed [OF this pre ov] k show ?thesis by (simp add: min_def)
qed

end
