(* ===== verification/Op_Progress.thy ===== *)
theory Op_Progress
  imports Op_Update
begin

text \<open>
  Where the streamer reads and when \<open>Update\<close> returns: the positions never fall to the HotShot
  origin or below it, the loop ends whenever the client answers ranges with blocks, and it
  never ends while the client answers a range of several blocks with none.
\<close>

section \<open>Positions\<close>

text \<open>The range of one round, when it is not empty.\<close>

lemma range_facts:
  assumes rng: "computeEspressoBlockHeightsRange fin limit s = (start, finish)" and lt: "start < finish"
  shows "finish \<noteq> 0" and "unat (finish - 1) = unat finish - 1" and "finish - 1 \<noteq> MaxUint64"
    and "fin \<noteq> MaxUint64 \<Longrightarrow> unat (finish - 1) \<le> unat fin" and "unat start \<le> unat (finish - 1)"
    and "hotShotPos s = 0 \<Longrightarrow> start = 0"
    and "hotShotPos s \<noteq> 0 \<Longrightarrow> hotShotPos s \<noteq> MaxUint64 \<Longrightarrow> unat start = unat (hotShotPos s) + 1"
proof -
  show nz: "finish \<noteq> 0" using lt by auto
  then show u: "unat (finish - 1) = unat finish - 1" by (simp add: unat_minus_one)
  show "finish - 1 \<noteq> MaxUint64" using nz by auto
  have "finish \<le> fin + 1" using rng by (auto simp: computeEspressoBlockHeightsRange_def Let_def)
  then show "fin \<noteq> MaxUint64 \<Longrightarrow> unat (finish - 1) \<le> unat fin"
    using u_plus_one [of fin] by (simp add: u word_le_nat_alt)
  show "unat start \<le> unat (finish - 1)" using lt u by (simp add: word_less_nat_alt)
  show "hotShotPos s = 0 \<Longrightarrow> start = 0"
    using rng by (auto simp: computeEspressoBlockHeightsRange_def Let_def)
  show "hotShotPos s \<noteq> 0 \<Longrightarrow> hotShotPos s \<noteq> MaxUint64 \<Longrightarrow> unat start = unat (hotShotPos s) + 1"
    using rng u_plus_one [of "hotShotPos s"]
    by (auto simp: computeEspressoBlockHeightsRange_def Let_def word_neq_0_conv)
qed

text \<open>
  What the positions need of the clients: a range call returns no more blocks than asked
  for, and HotShot heights stay below the largest \<open>uint64\<close>.
\<close>

definition bounded_clients :: "('w, 'c, 't) env \<Rightarrow> bool" where
  "bounded_clients e =
    ((\<forall>from until ns w blks w'. FetchNamespaceTransactionsInRange e from until ns w = (Inr blks, w') \<longrightarrow>
        length blks \<le> unat until - unat from)
     \<and> (\<forall>n w st w'. LightClientFinalizedState e n w = (Inr st, w') \<longrightarrow> BlockHeight st \<noteq> MaxUint64))"

lemma bounded_clientsD:
  assumes "bounded_clients e"
  shows "FetchNamespaceTransactionsInRange e from until ns w = (Inr blks, w') \<Longrightarrow>
      length blks \<le> unat until - unat from"
    and "LightClientFinalizedState e n w = (Inr st, w') \<Longrightarrow> BlockHeight st \<noteq> MaxUint64"
  using assms unfolding bounded_clients_def by blast+

definition reads_from :: "u64 \<Rightarrow> ('c, 't) streamer \<Rightarrow> bool" where
  "reads_from origin s =
    (originHotShotPos s = origin \<and> origin \<le> fallbackHotShotPos s \<and> fallbackHotShotPos s \<noteq> MaxUint64
     \<and> origin \<le> hotShotPos s \<and> hotShotPos s \<noteq> MaxUint64 \<and> origin \<le> skipPos s)"

lemma reads_from_refill: "refill s s' \<Longrightarrow> reads_from origin s' = reads_from origin s"
  by (simp add: refill_def reads_from_def)

lemma HasNext_reads_from: "HasNext e s w = (r, s', w') \<Longrightarrow> reads_from origin s \<Longrightarrow> reads_from origin s'"
  by (drule HasNext_refill) (simp add: reads_from_refill)

lemma process_skip_ge:
  assumes "processEspressoTransaction e txn ts s w = (err, s', w')"
  shows "skipPos s' = skipPos s"
  using assms
proof (cases rule: process_cases)
  case (kept b v s1)
  then show ?thesis
    using CheckBatch_refill [OF kept(2)] store_batch_skip [OF kept(4)] by (simp add: refill_def)
qed (auto dest!: CheckBatch_refill simp: refill_def)

lemma process_txns_skip_ge:
  "process_txns e pos ts txns s w = (s', w') \<Longrightarrow> p \<le> before pos \<Longrightarrow> p \<le> skipPos s \<Longrightarrow> p \<le> skipPos s'"
proof (induction txns arbitrary: s w)
  case (Cons txn txns)
  obtain err s1 w1 where step: "processEspressoTransaction e txn ts s w = (err, s1, w1)"
    by (cases "processEspressoTransaction e txn ts s w")
  let ?s2 = "if err = Some ErrAtCapacity then s1\<lparr>skipPos := min (skipPos s1) (before pos)\<rparr> else s1"
  have "process_txns e pos ts txns ?s2 w1 = (s', w')" using Cons.prems(1) by (simp only: step before_def process_txns.simps prod.case)
  moreover have "p \<le> skipPos ?s2" using Cons.prems(2,3) process_skip_ge [OF step] by simp
  ultimately show ?case using Cons.IH Cons.prems(2) by blast
qed simp

lemma process_blocks_skip_ge:
  "process_blocks e start stamps i blks s w = (s', w') \<Longrightarrow>
    (\<And>k. k < length blks \<Longrightarrow> p \<le> before (start + of_nat (i + k))) \<Longrightarrow> p \<le> skipPos s \<Longrightarrow> p \<le> skipPos s'"
proof (induction blks arbitrary: i s w)
  case (Cons blk blks)
  obtain s1 w1 where t: "process_txns e (start + of_nat i) (header_timestamp stamps i s) (Transactions blk) s w = (s1, w1)"
    by fastforce
  have "process_blocks e start stamps (Suc i) blks s1 w1 = (s', w')"
    using Cons.prems(1) by (simp add: Let_def t)
  moreover have "p \<le> skipPos s1"
    using process_txns_skip_ge [OF t _ Cons.prems(3)] Cons.prems(2) [of 0] by simp
  moreover have "p \<le> before (start + of_nat (Suc i + k))" if "k < length blks" for k
    using Cons.prems(2) [of "Suc k"] that by (simp add: add_ac)
  ultimately show ?case using Cons.IH by blast
qed simp

interpretation pos_inv: intake_invariant e
    "\<lambda>x. hotShotPos x = p \<and> fallbackHotShotPos x = f \<and> originHotShotPos x = q"
    "\<lambda>_. True"
  for e :: "('w, 'c, 't) env" and p f q
  by unfold_locales (auto dest!: CheckBatch_refill elim!: store_batch_cases simp: refill_def)

lemma unat_add_below:
  fixes start finish :: u64
  assumes "k < unat finish - unat start"
  shows "unat (start + of_nat k) = unat start + k"
proof -
  have "unat start + k < 2 ^ 64" using assms unat_u64_bound [of finish] by simp
  moreover from this have "unat (of_nat k :: u64) = k" by simp
  ultimately show ?thesis by (simp add: unat_add_lem [THEN iffD1])
qed

lemma fetch_reads_from:
  assumes run: "fetchHotShotRange e start finish s w = (err, s', w')"
    and rng: "computeEspressoBlockHeightsRange fin limit s = (start, finish)" and lt: "start < finish"
    and bnd: "bounded_clients e" and r: "reads_from origin s"
  shows "reads_from origin s'"
  using run
proof (cases rule: fetch_cases)
  case (blocks blks w1 now w2 stamps)
  note f = range_facts [OF rng lt]
  have len: "length blks \<le> unat finish - unat start"
    by (rule bounded_clientsD(1) [OF bnd blocks(1)])
  have "origin \<le> before (start + of_nat (0 + k))" if "k < length blks" for k
  proof (cases "hotShotPos s = 0")
    case True
    then show ?thesis using r by (simp add: reads_from_def)
  next
    case False
    have u: "unat (start + of_nat k) = unat start + k"
      by (rule unat_add_below [of k finish]) (use len that in simp)
    then have "start + of_nat k \<noteq> 0" using f(7) False r by (auto simp: reads_from_def)
    moreover from this have "unat (start + of_nat k - 1) = unat start + k - 1"
      using u by (simp add: unat_minus_one)
    moreover have "unat origin \<le> unat (hotShotPos s)" using r by (simp add: reads_from_def word_le_nat_alt)
    ultimately show ?thesis
      using f(7) False r by (simp add: before_def reads_from_def word_le_nat_alt word_neq_0_conv)
  qed
  then have "origin \<le> skipPos s'"
    by (rule process_blocks_skip_ge [OF blocks(6)]) (use r in \<open>simp_all add: reads_from_def\<close>)
  moreover have "hotShotPos s' = finish - 1 \<and> fallbackHotShotPos s' = fallbackHotShotPos s
      \<and> originHotShotPos s' = originHotShotPos s"
    by (rule pos_inv.process_blocks_keeps [OF blocks(6)]) simp_all
  moreover have "origin \<le> finish - 1"
    using r f(5,6,7) by (cases "hotShotPos s = 0") (auto simp: reads_from_def word_le_nat_alt)
  ultimately show ?thesis using r f(3) by (simp add: reads_from_def)
qed (use r in simp_all)

lemma Update_reads_from:
  assumes "Update e s w = Some (err, s', w')" and bnd: "bounded_clients e" and r: "reads_from origin s"
  shows "reads_from origin s'"
proof -
  have "reads_from origin s'" if loop: "update_loop e fin 0 s w1 = Some (err, s', w')" for fin w1
    by (rule conjunct1 [OF update_loop_rule [OF loop, where P = "\<lambda>x _. reads_from origin x"]])
      (erule fetch_reads_from [OF _ _ _ bnd] HasNext_reads_from | use r in simp)+
  then show ?thesis
    using assms(1) r by (auto simp: Update_def split: prod.splits sum.splits if_splits)
qed

lemma RefreshSafeL1Origin_reads_from:
  assumes "RefreshSafeL1Origin e o1 s w = (s', w')" and "bounded_clients e" and "reads_from origin s"
  shows "reads_from origin s'"
  using assms
  by (auto simp: RefreshSafeL1Origin_def confirmEspressoBlockHeight_def reads_from_def
      max_def not_le dest: bounded_clientsD(2) split: prod.splits sum.splits if_splits)

lemma Refresh_reads_from:
  assumes "Refresh e l1 safe o1 s w = (s', w')" and "bounded_clients e" and "reads_from origin s"
  shows "reads_from origin s'"
proof -
  obtain s1 w1 s2 w2 where s1: "refresh_batcher e l1 (s\<lparr>FinalizedL1 := l1\<rparr>) w = (s1, w1)"
    and s2: "RefreshSafeL1Origin e o1 s1 w1 = (s2, w2)" and s': "s' = refresh_positions safe s2"
    using assms(1) by (auto simp: Refresh_def split: prod.splits)
  obtain a where "s1 = s\<lparr>FinalizedL1 := l1, espressoBatcher := a\<rparr>"
    using refresh_batcher_frame [OF s1] by auto
  then have "reads_from origin s1" using assms(3) by (simp add: reads_from_def)
  then have "reads_from origin s2" by (rule RefreshSafeL1Origin_reads_from [OF s2 assms(2)])
  then show ?thesis by (simp add: s' refresh_positions_def Let_def reads_from_def)
qed

lemma streamer_step_reads_from:
  assumes "streamer_step e (s, w) ev (s', w')" and ok: "streamer_ok s"
    and bnd: "bounded_clients e" and r: "reads_from origin s"
  shows "reads_from origin s'"
  using assms(1)
proof cases
  case (next_some b)
  from next_some(2) ok show ?thesis
    by (cases rule: Next_cases) (use r in \<open>auto simp: reads_from_def rewound_def refill_def\<close>)
next
  case next_none
  from next_none(2) ok show ?thesis by (cases rule: Next_cases) (use r in \<open>simp_all add: reads_from_refill\<close>)
next
  case (peek v)
  from peek(2) ok show ?thesis by (cases rule: Peek_cases) (use r in \<open>simp_all add: reads_from_refill\<close>)
next
  case (has_next a)
  show ?thesis by (rule HasNext_reads_from [OF has_next(2) r])
next
  case (update err)
  then show ?thesis using Update_reads_from [OF _ bnd r] by blast
next
  case (set_proper_head parentHash)
  then show ?thesis using r by (simp add: reads_from_refill [OF SetProperHead_refill])
next
  case (timestamp h t)
  then show ?thesis using timestamp_frame [OF timestamp(3)] r by (auto simp: reads_from_def)
next
  case reset
  then show ?thesis using r by (simp add: reads_from_def)
next
  case (refresh_origin o1)
  then show ?thesis using RefreshSafeL1Origin_reads_from [OF _ bnd r] by blast
next
  case (refresh l1 safe o1)
  then show ?thesis using Refresh_reads_from [OF _ bnd r] by blast
next
  case world
  then show ?thesis using r by simp
qed

lemma streamer_run_reads_from:
  assumes "streamer_run e c evs d" and "streamer_ok (fst c)"
    and "bounded_clients e" and "reads_from origin (fst c)"
  shows "reads_from origin (fst d)"
  using assms
proof (induction rule: streamer_run.induct)
  case (run_cons c ev d evs f)
  obtain s w s' w' where cd: "c = (s, w)" "d = (s', w')" by fastforce
  note st = run_cons.hyps(1) [unfolded cd]
  have "streamer_ok s'" using streamer_step_refines [OF st] run_cons.prems(1) cd by simp
  moreover have "reads_from origin s'"
    using streamer_step_reads_from [OF st] run_cons.prems cd by simp
  ultimately show ?case using run_cons.IH run_cons.prems(2) cd by simp
qed simp

section \<open>The loop ends\<close>

text \<open>A client that answers every range with an error or with at least one block.\<close>

definition responsive :: "('w, 'c, 't) env \<Rightarrow> bool" where
  "responsive e = (\<forall>from until ns w w'. FetchNamespaceTransactionsInRange e from until ns w \<noteq> (Inr [], w'))"

text \<open>
  What is left to read, and one more for the first round, which may read the only block
  again. A position at the very end of the range wraps to 0 once.
\<close>

definition rounds_left :: "u64 \<Rightarrow> nat \<Rightarrow> ('c, 't) streamer \<Rightarrow> nat" where
  "rounds_left fin i s =
    (if hotShotPos s = MaxUint64 then 2 ^ 64 + 2
     else unat fin + 1 - unat (hotShotPos s) + (if i = 0 then 1 else 0))"

lemma fetch_advances:
  assumes "fetchHotShotRange e start finish s w = (None, s', w')" and "responsive e"
  shows "hotShotPos s' = finish - 1"
  using assms(1)
proof (cases rule: fetch_cases)
  case (blocks blks w1 now w2 stamps)
  have "hotShotPos s' = finish - 1 \<and> fallbackHotShotPos s' = fallbackHotShotPos s
      \<and> originHotShotPos s' = originHotShotPos s"
    by (rule pos_inv.process_blocks_keeps [OF blocks(6)]) simp_all
  then show ?thesis by simp
qed (use assms(2) in \<open>simp_all add: responsive_def\<close>)

lemma round_decreases:
  assumes rng: "computeEspressoBlockHeightsRange fin limit s = (start, finish)"
    and lt: "start < finish" and again: "\<not> (start + 1 = finish \<and> i > 0)"
    and fin: "fin \<noteq> MaxUint64" and pos: "hotShotPos s' = finish - 1"
  shows "rounds_left fin (Suc i) s' < rounds_left fin i s"
proof -
  note f = range_facts [OF rng lt]
  have left: "rounds_left fin (Suc i) s' = unat fin + 1 - unat (finish - 1)"
    using f(3) by (simp add: rounds_left_def pos)
  have le: "unat (finish - 1) \<le> unat fin" by (rule f(4) [OF fin])
  show ?thesis
  proof (cases "hotShotPos s = MaxUint64")
    case True
    then show ?thesis unfolding left using unat_u64_bound [of fin] by (simp add: rounds_left_def)
  next
    case False
    have "unat (hotShotPos s) < unat (finish - 1) \<or> i = 0 \<and> unat (hotShotPos s) \<le> unat (finish - 1)"
    proof (cases "hotShotPos s = 0")
      case True
      then have "start = 0" by (rule f(6))
      then have "finish \<noteq> 1 \<or> i = 0" using again by auto
      then have "0 < unat (finish - 1) \<or> i = 0" by (auto simp only: unat_gt_0 right_minus_eq)
      with True show ?thesis by auto
    next
      case nz: False
      then show ?thesis using f(5,7) False by simp
    qed
    then show ?thesis unfolding left using le False by (auto simp: rounds_left_def)
  qed
qed

lemma update_loop_terminates:
  assumes "responsive e" and "fin \<noteq> MaxUint64"
  shows "\<exists>r. update_loop e fin i s w = Some r"
proof (induction "rounds_left fin i s" arbitrary: i s w rule: less_induct)
  case less
  obtain start finish where rng: "computeEspressoBlockHeightsRange fin HOTSHOT_BLOCK_FETCH_LIMIT s = (start, finish)"
    by fastforce
  obtain err s1 w1 where f: "fetchHotShotRange e start finish s w = (err, s1, w1)"
    by (cases "fetchHotShotRange e start finish s w")
  obtain av s2 w2 where h: "HasNext e s1 w1 = (av, s2, w2)" by (cases "HasNext e s1 w1")
  show ?case
  proof (cases "start \<ge> finish \<or> (start + 1 = finish \<and> i > 0) \<or> err \<noteq> None \<or> av")
    case True
    then show ?thesis
      by (subst update_loop.simps) (auto simp: rng f h split: option.splits)
  next
    case False
    have "hotShotPos s2 = finish - 1"
      using fetch_advances [OF _ assms(1)] f HasNext_refill [OF h] False by (auto simp: refill_def)
    then have "rounds_left fin (Suc i) s2 < rounds_left fin i s"
      using False by (intro round_decreases [OF rng _ _ assms(2)])
        (auto simp: not_le)
    from less [OF this, of w2] False show ?thesis
      by (subst update_loop.simps) (auto simp: rng f h)
  qed
qed

lemma Update_terminates:
  assumes "responsive e"
  shows "\<exists>r. Update e s w = Some r"
proof -
  have "latest - 2 \<noteq> MaxUint64" if "\<not> latest < 2" for latest :: u64
  proof
    assume "latest - 2 = MaxUint64"
    then have "latest = MaxUint64 + 2" by (simp add: algebra_simps)
    with that show False by simp
  qed
  then show ?thesis
    using update_loop_terminates [OF assms] by (auto simp: Update_def split: prod.splits sum.splits)
qed

section \<open>The loop that does not end, and the block it leaves\<close>

lemma update_loop_hangs:
  assumes rng: "computeEspressoBlockHeightsRange fin HOTSHOT_BLOCK_FETCH_LIMIT s = (start, finish)"
    and two: "start < finish" "start + 1 \<noteq> finish"
    and silent: "\<forall>from until ns w. fst (FetchNamespaceTransactionsInRange e from until ns w) = Inr []"
    and idle: "find_candidate s = NoCandidate"
  shows "update_loop e fin i s w = None"
proof (rule ccontr)
  assume "update_loop e fin i s w \<noteq> None"
  then obtain r where run: "update_loop e fin i s w = Some r" by blast
  have quiet: "\<exists>w1. fetchHotShotRange e start finish s w = (None, s, w1)" for w
  proof -
    have "fst (FetchNamespaceTransactionsInRange e start finish (Namespace s) w) = Inr []"
      using silent by blast
    then obtain w1 where "FetchNamespaceTransactionsInRange e start finish (Namespace s) w = (Inr [], w1)"
      by (cases "FetchNamespaceTransactionsInRange e start finish (Namespace s) w") simp
    then show ?thesis using two(1) by (auto simp: fetchHotShotRange_def)
  qed
  have none: "HasNext e s w = (False, s, w)" for w
    by (subst HasNext.simps) (simp add: idle)
  have "e = e \<and> fin = fin \<and> s = s \<longrightarrow> False"
  proof (rule update_loop.raw_induct [where
        P = "\<lambda>e' fin' i s' w r. e' = e \<and> fin' = fin \<and> s' = s \<longrightarrow> False", OF _ run])
    fix loop e' fin' i s' w r
    assume IH: "\<And>e' fin' i s' w r. loop e' fin' i s' w = Some r \<Longrightarrow> e' = e \<and> fin' = fin \<and> s' = s \<longrightarrow> False"
      and step: "(case computeEspressoBlockHeightsRange fin' HOTSHOT_BLOCK_FETCH_LIMIT s' of
       (start, finish) \<Rightarrow>
         if start \<ge> finish \<or> (start + 1 = finish \<and> i > 0) then Some (None, s', w)
         else
           (case fetchHotShotRange e' start finish s' w of
              (err, s, w) \<Rightarrow>
                (case err of
                   Some x \<Rightarrow> Some (Some (RangeFailed x), s, w)
                 | None \<Rightarrow>
                     (case HasNext e' s w of
                        (available, s, w) \<Rightarrow>
                          if available then Some (None, s, w)
                          else loop e' fin' (Suc i) s w)))) = Some r"
    show "e' = e \<and> fin' = fin \<and> s' = s \<longrightarrow> False"
    proof
      assume eqs: "e' = e \<and> fin' = fin \<and> s' = s"
      obtain w1 where f: "fetchHotShotRange e start finish s w = (None, s, w1)" using quiet by blast
      have "loop e fin (Suc i) s w1 = Some r"
        using step two(2) not_le [THEN iffD2, OF two(1)] by (simp add: eqs rng f none)
      with IH show False by blast
    qed
  qed
  then show False by simp
qed

lemma process_blocks_empty:
  "\<forall>blk \<in> set blks. Transactions blk = [] \<Longrightarrow> process_blocks e start stamps i blks s w = (s, w)"
  by (induction blks arbitrary: i) (simp_all add: Let_def)

text \<open>Nothing is left, or one block.\<close>

lemma exhausted_position:
  assumes "exhausted fin s" and "unat fin + 200 < 2 ^ 64"
  shows "unat fin \<le> unat (hotShotPos s) + 1"
proof (rule ccontr)
  assume less: "\<not> unat fin \<le> unat (hotShotPos s) + 1"
  let ?p = "hotShotPos s"
  define start where "start = (if ?p > 0 then ?p + 1 else ?p)"
  have fin: "fin \<noteq> MaxUint64"
    using assms(2) by (auto simp: unsigned_minus_1_eq_mask mask_eq_exp_minus_1)
  have p: "?p \<noteq> MaxUint64"
    using less assms(2) by (auto simp: unsigned_minus_1_eq_mask mask_eq_exp_minus_1)
  have start: "unat start \<le> unat ?p + 1" using u_plus_one [OF p] by (simp add: start_def)
  then have bound: "unat start + 100 < 2 ^ 64" using less assms(2) by simp
  have s100: "unat (start + 100) = unat start + 100"
    using bound by (simp add: unat_add_lem [THEN iffD1])
  have s1: "unat (start + 1) = unat start + 1"
    using bound by (intro u_plus_one) (auto simp: unsigned_minus_1_eq_mask mask_eq_exp_minus_1)
  have finish: "unat (min (start + 100) (fin + 1)) = min (unat start + 100) (unat fin + 1)"
    using s100 u_plus_one [OF fin] by (simp add: min_def word_le_nat_alt)
  have "min (start + 100) (fin + 1) \<le> start \<or> start + 1 = min (start + 100) (fin + 1)"
    using assms(1) by (simp add: exhausted_def computeEspressoBlockHeightsRange_def Let_def start_def
        HOTSHOT_BLOCK_FETCH_LIMIT_def)
  then have "unat (min (start + 100) (fin + 1)) \<le> unat start + 1"
  proof
    assume "min (start + 100) (fin + 1) \<le> start"
    then show ?thesis unfolding word_le_nat_alt by simp
  next
    assume "start + 1 = min (start + 100) (fin + 1)"
    then show ?thesis using s1 by simp
  qed
  then show False using finish start less by simp
qed

text \<open>After a mark, the next delivery makes the next range start behind the mark.\<close>

lemma before_less: "before pos \<noteq> MaxUint64"
  by (auto simp: before_def)

lemma before_le: "p \<le> before pos \<Longrightarrow> p \<noteq> MaxUint64"
  using before_less [of pos] word_order.extremum_uniqueI [of "before pos"] by auto

lemma before_range: "p \<le> before pos \<Longrightarrow> (if p > 0 then p + 1 else p) \<le> pos"
proof -
  assume p: "p \<le> before pos"
  show ?thesis
  proof (cases "pos = 0")
    case True
    with p show ?thesis by (simp add: before_def)
  next
    case False
    then have "0 < unat pos" by (simp add: unat_gt_0)
    moreover have "unat p \<le> unat pos - 1"
      using p False by (simp add: before_def word_neq_0_conv [symmetric] word_le_nat_alt unat_minus_one)
    ultimately have "unat p + 1 \<le> unat pos" by simp
    moreover have "unat (p + 1) = unat p + 1"
      using before_le [OF p] by (rule u_plus_one)
    ultimately show ?thesis by (simp add: word_le_nat_alt)
  qed
qed

lemma Next_rereads:
  assumes "Next e s w = (Some b, s', w')" and "skipPos s \<le> before pos"
  shows "fst (computeEspressoBlockHeightsRange fin limit s') \<le> pos"
proof -
  obtain s2 where hn: "HasNext e s w = (True, s2, w')"
    and s': "s' = (if skipPos s2 \<noteq> MaxUint64
        then s2\<lparr>nextBatchPos := nextBatchPos s2 + 1, headBatch := None, hotShotPos := skipPos s2, skipPos := MaxUint64\<rparr>
        else s2\<lparr>nextBatchPos := nextBatchPos s2 + 1, headBatch := None\<rparr>)"
    using assms(1) by (auto simp: Next_def Let_def split: prod.splits if_splits)
  have "skipPos s2 = skipPos s" using HasNext_refill [OF hn] by (simp add: refill_def)
  moreover have "skipPos s \<noteq> MaxUint64" by (rule before_le [OF assms(2)])
  ultimately have "hotShotPos s' = skipPos s" by (simp add: s')
  then show ?thesis
    using before_range [OF assms(2)] by (simp only: computeEspressoBlockHeightsRange_def Let_def fst_conv)
qed

section \<open>Properties\<close>

text \<open>
  C22. \<open>Update\<close> always returns, from any state and with any faults, as long as the HotShot
  client answers each range with an error or with at least one block: every round moves
  the position towards the finalized height. (The loop itself has no bound.)
\<close>

theorem update_returns:
  assumes "responsive e"
  shows "\<exists>err s' w'. Update e s w = Some (err, s', w')"
  using Update_terminates [OF assms, of s w] by auto

definition failing_env :: "(sample_world, (u64 \<times> l1_state) list, (hash \<times> u64) list) env" where
  "failing_env = sample_env\<lparr>FetchNamespaceTransactionsInRange := (\<lambda>from until ns w. (Inl ''down'', w))\<rparr>"

lemma update_returns_witness:
  "\<exists>err s' w'. Update failing_env sample_streamer sample_world = Some (err, s', w')"
  by (rule update_returns) (simp add: responsive_def failing_env_def)

text \<open>
  The condition is needed: when the client answers ranges with no blocks and no error,
  \<open>fetchHotShotRange\<close> leaves the position where it is, and with two or more blocks to read
  and no batch waiting \<open>Update\<close> repeats the same call forever.
\<close>

theorem update_hangs_on_empty_ranges:
  assumes "FetchLatestBlockHeight e w = (Inr latest, w1)" and "2 \<le> latest" and "latest \<noteq> MaxUint64"
    and "computeEspressoBlockHeightsRange (latest - 2) HOTSHOT_BLOCK_FETCH_LIMIT s = (start, finish)"
    and "start < finish" and "start + 1 \<noteq> finish"
    and "\<forall>from until ns w. fst (FetchNamespaceTransactionsInRange e from until ns w) = Inr []"
    and "find_candidate s = NoCandidate"
  shows "Update e s w = None"
  using update_loop_hangs [OF assms(4-8)] assms(1-3) by (simp add: Update_def not_less)

definition silent_env :: "(sample_world, (u64 \<times> l1_state) list, (hash \<times> u64) list) env" where
  "silent_env = sample_env\<lparr>FetchNamespaceTransactionsInRange := (\<lambda>from until ns w. (Inr [], w))\<rparr>"

lemma update_hangs_on_empty_ranges_witness:
  "Update silent_env sample_streamer sample_world = None"
  by (rule update_hangs_on_empty_ranges [where latest = 4 and start = 0 and finish = 3 and ?w1.0 = sample_world])
    (simp_all add: sample_range, simp_all add: silent_env_def sample_defs find_candidate_def
      Peek_buf_def NewBatchBuffer_def)

text \<open>
  What a return without error means: there was nothing to read (\<open>latest < 2\<close>), or the
  next batch is ready and accepted, or every block up to the finalized height has been
  read except possibly the last one.
\<close>

theorem update_outcome:
  assumes "Update e s w = Some (None, s', w')" and "streamer_ok s"
    and "FetchLatestBlockHeight e w = (Inr latest, w1)" and "unat latest + 200 < 2 ^ 64"
  shows "unat latest < 2
    \<or> (\<exists>b. headBatch s' = Some b \<and> Number b = nextBatchPos s)
    \<or> unat latest - 2 \<le> unat (hotShotPos s') + 1"
proof (cases "latest < 2")
  case False
  let ?fin = "latest - 2"
  have ufin: "unat ?fin = unat latest - 2" using False by (simp add: unat_sub not_less)
  have loop: "update_loop e ?fin 0 s w1 = Some (None, s', w')"
    using assms(1,3) False by (auto simp: Update_def split: if_splits)
  let ?P = "\<lambda>x. streamer_ok x \<and> intake s x"
  have "?P s' \<and> ((None :: streamer_error option) = None \<longrightarrow>
      exhausted ?fin s' \<or> (\<exists>s1 w1. HasNext e s1 w1 = (True, s', w') \<and> ?P s1))"
    by (rule update_loop_rule [OF loop, where P = "\<lambda>x _. ?P x"])
      (use assms(2) in simp, erule (1) ok_inv.fetch_keeps, erule (1) ok_inv.HasNext_keeps [rotated])
  then consider (exhausted) "exhausted ?fin s'" | (ready) s1 w1 where "HasNext e s1 w1 = (True, s', w')" "?P s1"
    by blast
  then show ?thesis
  proof cases
    case ready
    then obtain b where "headBatch s' = Some b" "Number b = nextBatchPos s1"
      using HasNext_True by metis
    with ready(2) show ?thesis by (auto simp: intake_def)
  next
    case exhausted
    then have "unat ?fin \<le> unat (hotShotPos s') + 1"
      by (rule exhausted_position) (use assms(4) ufin in simp)
    then show ?thesis using ufin by simp
  qed
qed (simp add: word_less_nat_alt)

lemma update_outcome_witness:
  "\<exists>b. headBatch sample_updated = Some b \<and> Number b = 1"
  using update_outcome [OF sample_update, of 4 sample_world] sample_streamer_ok [of 5 sample_l1]
  by (simp add: sample_updated_def sample_streamer_def)

text \<open>
  The possible last block is real, against the promise of the comment on \<open>Update\<close> that
  only an error or the lack of HotShot blocks keeps the next batch away: with 101 unread
  blocks the first range takes 100, and the second round stops because one block is left,
  as it does after re-reading the initial block. \<open>Update\<close> returns without error or batch
  while block \<open>p + 101\<close>, not above the finalized height, was never asked for.
\<close>

theorem update_leaves_last_block:
  assumes "FetchLatestBlockHeight e w = (Inr (p + 103), w1)" and "hotShotPos s = p"
    and "0 < p" and "unat p + 203 < 2 ^ 64"
    and "FetchNamespaceTransactionsInRange e (p + 1) (p + 101) (Namespace s) w1 = (Inr blks, w2)"
    and "blks \<noteq> []" and "\<forall>blk \<in> set blks. Transactions blk = []"
    and "find_candidate s = NoCandidate" and "find_candidate (s\<lparr>hotShotPos := p + 100\<rparr>) = NoCandidate"
  shows "\<exists>w'. Update e s w = Some (None, s\<lparr>hotShotPos := p + 100\<rparr>, w')"
proof -
  have add: "unat (p + of_nat k) = unat p + k" if "k \<le> 203" for k
  proof -
    have "unat p + k < 2 ^ 64" and "unat (of_nat k :: u64) = k" using that assms(4) by simp_all
    then show ?thesis by (simp add: unat_add_lem [THEN iffD1])
  qed
  have lt: "p + of_nat j < p + of_nat k \<longleftrightarrow> j < k" if "j \<le> 203" "k \<le> 203" for j k
    using add [OF that(1)] add [OF that(2)] by (simp add: word_less_nat_alt)
  have small: "p + 103 \<noteq> MaxUint64" "\<not> p + 103 < 2" "finish \<noteq> 0" if "finish = p + 101" for finish
  proof -
    have "unat (p + 103) \<noteq> unat MaxUint64"
      using add [of 103] assms(4) by (simp add: unsigned_minus_1_eq_mask mask_eq_exp_minus_1)
    then show "p + 103 \<noteq> MaxUint64" by metis
    show "\<not> p + 103 < 2" using add [of 103] by (simp add: word_less_nat_alt)
    have "unat (p + 101) \<noteq> 0" using add [of 101] by simp
    then show "finish \<noteq> 0" using that by (metis unat_0)
  qed
  have r1: "computeEspressoBlockHeightsRange (p + 101) HOTSHOT_BLOCK_FETCH_LIMIT s = (p + 1, p + 101)"
    using assms(2,3) lt [of 101 102] less_imp_le [of "p + 101" "p + 102"]
    by (simp add: computeEspressoBlockHeightsRange_def HOTSHOT_BLOCK_FETCH_LIMIT_def min_def add.assoc)
  have r2: "computeEspressoBlockHeightsRange (p + 101) HOTSHOT_BLOCK_FETCH_LIMIT (s\<lparr>hotShotPos := p + 100\<rparr>)
      = (p + 101, p + 102)"
  proof -
    have "0 < p + 100" using lt [of 0 100] assms(3) by (auto intro: less_trans)
    moreover have "\<not> p + 201 \<le> p + 102" using lt [of 102 201] by (simp add: not_le)
    ultimately show ?thesis
      by (simp add: computeEspressoBlockHeightsRange_def HOTSHOT_BLOCK_FETCH_LIMIT_def min_def Let_def add.assoc)
  qed
  let ?s = "s\<lparr>hotShotPos := p + 100\<rparr>"
  obtain now w3 where now: "UnixNow e w2 = (now, w3)" by fastforce
  have f: "fetchHotShotRange e (p + 1) (p + 101) s w1 = (None, ?s, w3)"
    using assms(5-7) small(3) [OF refl] by (simp add: fetchHotShotRange_def now Let_def process_blocks_empty)
  have none: "HasNext e ?s w3 = (False, ?s, w3)"
    by (subst HasNext.simps) (simp add: assms(9))
  have "update_loop e (p + 101) (Suc 0) ?s w3 = Some (None, ?s, w3)"
    by (subst update_loop.simps) (simp add: r2)
  moreover have "\<not> p + 101 \<le> p + 1" using lt [of 1 101] by (simp add: not_le)
  ultimately have "update_loop e (p + 101) 0 s w1 = Some (None, ?s, w3)"
    by (subst update_loop.simps) (simp add: r1 f none)
  then have "update_loop e (101 + p) 0 s w1 = Some (None, ?s, w3)" by (simp add: add.commute)
  then show ?thesis using assms(1) small(1,2) [OF refl] by (simp add: Update_def)
qed

lemma update_leaves_last_block_witness:
  "\<exists>w'. Update sample_env (sample_streamer\<lparr>hotShotPos := 1\<rparr>) (replicate 103 \<lparr>Transactions = []\<rparr>)
    = Some (None, sample_streamer\<lparr>hotShotPos := 101\<rparr>, w')"
  using update_leaves_last_block [of sample_env "replicate 103 \<lparr>Transactions = []\<rparr>" 1
      "replicate 103 \<lparr>Transactions = []\<rparr>" "sample_streamer\<lparr>hotShotPos := 1\<rparr>"
      "replicate 100 \<lparr>Transactions = []\<rparr>" "replicate 103 \<lparr>Transactions = []\<rparr>"]
  by (simp add: sample_defs find_candidate_def Peek_buf_def NewBatchBuffer_def)

text \<open>
  C12. A full buffer loses nothing. When reading \<open>[start, finish)\<close> meets a full buffer in its
  \<open>k\<close>-th block, the streamer notes a rewind mark before that block; later \<open>Update\<close> calls
  only lower the mark; and once \<open>Next\<close> has given out a batch, and so made room, the next
  range starts at block \<open>start + k\<close> or earlier, so the refused batch is read again.
\<close>

theorem full_buffer_rewinds:
  assumes "fetchHotShotRange e start finish s w = (err, s', w')" and "finish \<noteq> 0"
    and "overflow_at e start finish k s w"
  shows "skipPos s' \<le> before (start + of_nat k)
    \<and> (\<forall>u err2 s2 w2. Update e s' u = Some (err2, s2, w2) \<longrightarrow> skipPos s2 \<le> before (start + of_nat k))
    \<and> (\<forall>s2 u b s3 w3. skipPos s2 \<le> before (start + of_nat k) \<longrightarrow> Next e s2 u = (Some b, s3, w3) \<longrightarrow>
         fst (computeEspressoBlockHeightsRange fin limit s3) \<le> start + of_nat k)"
proof -
  note mark = fetch_overflow [OF assms(1,3,2)]
  show ?thesis
    by (intro conjI allI impI mark) (erule skip_bound.Update_keeps [OF _ mark], erule (1) Next_rereads [rotated])
qed

lemma full_buffer_rewinds_witness:
  "\<exists>err s' w'. fetchHotShotRange sample_env 0 2
      (sample_streamer\<lparr>headBatch := Some (sample_batch 1 11 0), BatchBuffer := NewBatchBuffer 0\<rparr>)
      [\<lparr>Transactions = []\<rparr>, \<lparr>Transactions = [[2, 12]]\<rparr>] = (err, s', w') \<and> skipPos s' = 0"
proof -
  let ?s = "sample_streamer\<lparr>headBatch := Some (sample_batch 1 11 0), BatchBuffer := NewBatchBuffer 0\<rparr>"
  let ?w = "[\<lparr>Transactions = []\<rparr>, \<lparr>Transactions = [[2, 12]]\<rparr>]"
  obtain err s' w' where run: "fetchHotShotRange sample_env 0 2 ?s ?w = (err, s', w')"
    by (cases "fetchHotShotRange sample_env 0 2 ?s ?w")
  have full: "Insert (NewBatchBuffer 0) b = Inl ErrAtCapacity" for b
    by (simp add: Insert_def NewBatchBuffer_def Len_def)
  have call: "FetchNamespaceTransactionsInRange sample_env 0 2 (Namespace ?s) ?w = (Inr ?w, ?w)"
    by (simp add: sample_env_def)
  have now: "UnixNow sample_env w = (1000, w)" for w by (simp add: sample_env_def)
  have txn: "fst (processEspressoTransaction sample_env [2, 12] 0 (?s\<lparr>hotShotPos := 1\<rparr>) ?w) = Some ErrAtCapacity"
    by (simp add: processEspressoTransaction_def sample_streamer_def sample_check store_batch_def full)
  have "overflowed sample_env 1 0 [[2, 12]] (?s\<lparr>hotShotPos := 1\<rparr>) ?w"
    unfolding overflowed_def
    by (rule exI [of _ "[]"], rule exI [of _ "[2, 12]"], rule exI [of _ "[]"]) (simp add: txn)
  moreover have "trackBatchTimestamp sample_streamer = False" by (simp add: sample_streamer_def)
  ultimately have "overflow_at sample_env 0 2 1 ?s ?w"
    unfolding overflow_at_def call by (simp add: now Let_def header_timestamp_def)
  from full_buffer_rewinds [OF run _ this] have "skipPos s' \<le> 0" by (simp add: before_def)
  with run show ?thesis by auto
qed

text \<open>
  No readable, unrejected batch gets lost on the way in: after \<open>processEspressoTransaction\<close>
  on a transaction whose batch \<open>CheckBatch\<close> accepted or left undecided, either the streamer
  holds the batch (or a copy with its hash) as head or in the buffer and no error is
  reported, or the buffer is full, the streamer is unchanged and \<open>ErrAtCapacity\<close> says so.
\<close>

theorem processed_batch_kept:
  assumes "processEspressoTransaction e txn ts s w = (err, s', w')" and "streamer_ok s"
    and "UnmarshalBatch e txn = Inr b" and "CheckBatch e b s w = (v, s1, w1)"
    and "v = BatchAccept \<or> v = BatchUndecided"
  shows "err = None \<and> holds_copy b s'
    \<or> err = Some ErrAtCapacity \<and> Len (BatchBuffer s) = unat BatchBufferCapacity \<and> s' = s1"
  using assms(1)
proof (cases rule: process_cases)
  case (kept b' v' s1')
  have eq: "b' = b" "s1' = s1" using kept assms(3,4) by simp_all
  have buf: "BatchBuffer s1 = BatchBuffer s"
    using CheckBatch_cache_update [OF assms(4)] by (simp add: cache_update_def)
  have ok: "buffer_ok (BatchBuffer s)" "buf_capacity (BatchBuffer s) = BatchBufferCapacity"
    using assms(2) by (simp_all add: streamer_ok_def)
  then have "\<not> has_room (BatchBuffer s) \<Longrightarrow> Len (BatchBuffer s) = unat BatchBufferCapacity"
    using has_room_iff [OF ok(1)] by (simp add: buffer_ok_def)
  then show ?thesis
    using store_batch_holds [OF kept(4) [unfolded eq]] ok(1) by (auto simp: buf)
qed (use assms in auto)

lemma processed_batch_kept_witness:
  "holds_copy (sample_batch 2 12 0)
    (fst (snd (processEspressoTransaction sample_env [2, 12] 0 sample_streamer sample_world)))"
proof -
  obtain err s' w' where run: "processEspressoTransaction sample_env [2, 12] 0 sample_streamer sample_world = (err, s', w')"
    by (cases "processEspressoTransaction sample_env [2, 12] 0 sample_streamer sample_world")
  have chk: "CheckBatch sample_env (sample_batch 2 12 0) sample_streamer sample_world
      = (BatchAccept, sample_streamer\<lparr>finalizedL1StateCache := sample_cached\<rparr>, sample_world)"
    by (rule sample_check) (simp_all add: sample_streamer_def)
  have "streamer_ok sample_streamer" "Len (BatchBuffer sample_streamer) \<noteq> unat BatchBufferCapacity"
    using sample_streamer_ok [of 5 sample_l1]
    by (simp_all add: sample_streamer_def Len_def NewBatchBuffer_def BatchBufferCapacity_def)
  with processed_batch_kept [OF run _ _ chk] show ?thesis by (simp add: run sample_unmarshal)
qed

text \<open>
  C34. The HotShot origin is a floor. In every state a fresh streamer can reach, both the
  position read last and the position a reset falls back to are at or above the HotShot
  origin it was made with, so every range it asks for starts above the origin (or at 0
  for origin 0): no reorg, light-client answer or rewind makes it dip below.
\<close>

theorem reads_above_origin:
  assumes "NewEspressoStreamer e ns originHotShot originBatch auth track = Inr s0"
    and "originHotShot \<noteq> MaxUint64" and "bounded_clients e"
    and "streamer_run e (s0, w0) evs (s, w)"
  shows "originHotShot \<le> hotShotPos s \<and> originHotShot \<le> fallbackHotShotPos s
    \<and> (originHotShot \<noteq> 0 \<longrightarrow> originHotShot < fst (computeEspressoBlockHeightsRange fin limit s))"
proof -
  have "reads_from originHotShot s0"
    using NewEspressoStreamer_start [OF assms(1)] assms(2) by (simp add: reads_from_def)
  then have r: "reads_from originHotShot s"
    using streamer_run_reads_from [OF assms(4) _ assms(3)] NewEspressoStreamer_start(1) [OF assms(1)] by simp
  then have "hotShotPos s < hotShotPos s + 1" by (intro u64_less_succ) (simp add: reads_from_def)
  with r show ?thesis
    by (auto simp: reads_from_def computeEspressoBlockHeightsRange_def Let_def not_less)
qed

lemma sample_bounded: "bounded_clients sample_env"
  by (auto simp: bounded_clients_def sample_env_def)

lemma reads_above_origin_witness:
  "0 \<le> hotShotPos sample_consumed \<and> 0 \<le> fallbackHotShotPos sample_consumed"
  using reads_above_origin [OF sample_new _ sample_bounded sample_run] by simp

end
