(* ===== verification/Op_Forks.thy ===== *)
theory Op_Forks
  imports Op_Progress
begin

text \<open>
  Several batches of one number: what \<open>SetProperHead\<close> keeps and drops, and in which order
  the streamer considers batches that compete for the same position.
\<close>

lemma SetProperHead_eq:
  assumes "streamer_ok s"
  shows "SetProperHead parentHash s = s\<lparr>headBatch := None, BatchBuffer := (BatchBuffer s)\<lparr>batches :=
    dropWhile (\<lambda>b. Number b = nextBatchPos s \<and> hdr_parent (Header b) \<noteq> parentHash) (batches (BatchBuffer s))\<rparr>\<rparr>"
  using assms by (simp add: SetProperHead_def drain_forks_dropWhile streamer_ok_def split: option.split)

lemma Peek_vouched:
  assumes "find_candidate s = Candidate b s1" and "vouched e b s1" and "lru_lawful (state_lru e)"
  shows "\<exists>s'. Peek e s w = (Some b, s', w) \<and> headBatch s' = Some b"
proof -
  have head: "headBatch s1 = Some b" by (rule find_candidate_pending(2) [OF assms(1), THEN conjunct2])
  obtain c where "CheckBatch e b s1 w = (BatchAccept, s1\<lparr>finalizedL1StateCache := c\<rparr>, w)"
    using vouched_CheckBatch [OF assms(2,3), of w] by blast
  then have "HasNext e s w = (True, s1\<lparr>finalizedL1StateCache := c\<rparr>, w)"
    by (subst HasNext.simps) (simp add: assms(1))
  then show ?thesis by (simp add: Peek_def head)
qed

lemma Next_vouched:
  assumes "find_candidate s = Candidate b s1" and "vouched e b s1" and "lru_lawful (state_lru e)"
  shows "fst (Next e s w) = Some b"
proof -
  have head: "headBatch s1 = Some b" by (rule find_candidate_pending(2) [OF assms(1), THEN conjunct2])
  obtain c where "CheckBatch e b s1 w = (BatchAccept, s1\<lparr>finalizedL1StateCache := c\<rparr>, w)"
    using vouched_CheckBatch [OF assms(2,3), of w] by blast
  then have "HasNext e s w = (True, s1\<lparr>finalizedL1StateCache := c\<rparr>, w)"
    by (subst HasNext.simps) (simp add: assms(1))
  then show ?thesis by (simp add: Next_def Let_def head)
qed

section \<open>Properties\<close>

text \<open>
  C36. \<open>SetProperHead\<close> gives up the head and, from the front of the buffer, exactly the batches
  of the next number with another parent: everything dropped is such a batch, the rest
  keeps its order, a front of the next number then extends the given parent, and no
  position changes.
\<close>

theorem set_proper_head_selects:
  assumes "streamer_ok s" and "s' = SetProperHead parentHash s"
  shows "headBatch s' = None \<and> refill s s'
    \<and> (\<exists>dropped. batches (BatchBuffer s) = dropped @ batches (BatchBuffer s')
         \<and> (\<forall>b \<in> set dropped. Number b = nextBatchPos s \<and> hdr_parent (Header b) \<noteq> parentHash))
    \<and> (\<forall>b. Peek_buf (BatchBuffer s') = Some b \<and> Number b = nextBatchPos s \<longrightarrow> hdr_parent (Header b) = parentHash)"
proof -
  let ?P = "\<lambda>b. Number b = nextBatchPos s \<and> hdr_parent (Header b) \<noteq> parentHash"
  let ?xs = "batches (BatchBuffer s)"
  have buf: "batches (BatchBuffer s') = dropWhile ?P ?xs" and head: "headBatch s' = None"
    using assms(2) by (simp_all add: SetProperHead_eq [OF assms(1)])
  have "?xs = takeWhile ?P ?xs @ dropWhile ?P ?xs" by (rule takeWhile_dropWhile_id [symmetric])
  moreover have "\<forall>b \<in> set (takeWhile ?P ?xs). ?P b" by (auto dest: set_takeWhileD)
  moreover have "\<forall>b. Peek_buf (BatchBuffer s') = Some b \<and> Number b = nextBatchPos s \<longrightarrow> hdr_parent (Header b) = parentHash"
    by (auto simp: Peek_buf_def buf dropWhile_eq_Cons_conv split: list.splits)
  ultimately show ?thesis
    using head SetProperHead_refill [of s parentHash] assms(2) unfolding buf by blast
qed

lemma set_proper_head_selects_witness:
  "headBatch (SetProperHead 9 sample_updated) = None
    \<and> (\<exists>dropped. [sample_batch 2 12 0] = dropped @ batches (BatchBuffer (SetProperHead 9 sample_updated)))"
proof -
  have "streamer_ok sample_updated"
    by (simp add: streamer_ok_def sample_updated_def sample_streamer_def buffer_ok_def BatchBufferCapacity_def Len_def)
  from set_proper_head_selects [OF this refl, of 9] show ?thesis
    by (auto simp: sample_updated_def)
qed

text \<open>
  It stops at a stale front, although its comment says it drains stale entries: a buffered
  batch below the next number shields the batch behind it, so right after \<open>SetProperHead\<close>
  for another parent, \<open>Peek\<close> discards the stale front and returns the wrong-fork batch.
\<close>

theorem stale_entry_shields_wrong_fork:
  assumes "streamer_ok s" and "batches (BatchBuffer s) = c # y # ys"
    and "Number c < nextBatchPos s" and "Number y = nextBatchPos s"
    and "hdr_parent (Header y) \<noteq> parentHash" and "vouched e y s" and "lru_lawful (state_lru e)"
  shows "\<exists>s'. Peek e (SetProperHead parentHash s) w = (Some y, s', w)"
proof -
  let ?s = "s\<lparr>headBatch := None\<rparr>"
  let ?s1 = "?s\<lparr>BatchBuffer := snd (Pop (BatchBuffer s))\<rparr>"
  let ?s2 = "?s1\<lparr>headBatch := Some y, BatchBuffer := snd (Pop (snd (Pop (BatchBuffer s))))\<rparr>"
  have "dropWhile (\<lambda>b. Number b = nextBatchPos s \<and> hdr_parent (Header b) \<noteq> parentHash) (batches (BatchBuffer s))
      = batches (BatchBuffer s)"
    using assms(2,3) by auto
  then have s: "SetProperHead parentHash s = ?s" by (simp add: SetProperHead_eq [OF assms(1)])
  have stale: "find_candidate ?s = StalePopped ?s1"
    using assms(2,3) by (simp add: find_candidate_def Peek_buf_def)
  have cand: "find_candidate ?s1 = Candidate y ?s2"
    using assms(2,4) by (simp add: find_candidate_def Peek_buf_def Pop_def)
  have "vouched e y ?s2" using assms(6) by (simp add: vouched_def)
  from Peek_vouched [OF cand this assms(7), of w] obtain s' where "Peek e ?s1 w = (Some y, s', w)" by blast
  moreover have "HasNext e ?s w = HasNext e ?s1 w"
    by (subst HasNext.simps) (simp add: stale)
  ultimately have "Peek e ?s w = (Some y, s', w)" by (simp add: Peek_def)
  then show ?thesis unfolding s by blast
qed

text \<open>A streamer at position 2 with the rest of position 1 still in front of a batch for position 2.\<close>

definition forked_streamer :: "((u64 \<times> l1_state) list, (hash \<times> u64) list) streamer" where
  "forked_streamer = sample_consumed\<lparr>BatchBuffer :=
     \<lparr>batches = [sample_batch 1 13 0, sample_batch 2 12 0], buf_capacity = 1024\<rparr>\<rparr>"

lemma forked_streamer_ok: "streamer_ok forked_streamer"
  by (simp add: streamer_ok_def forked_streamer_def sample_consumed_def sample_defs buffer_ok_def
      BatchBufferCapacity_def Len_def)

lemma forked_vouched: "n \<ge> 2 \<Longrightarrow> vouched sample_env (sample_batch n h p) forked_streamer"
  by (simp add: vouched_def forked_streamer_def sample_consumed_def sample_defs zero_ref_def
      state_verdict_def not_less)

lemma stale_entry_shields_wrong_fork_witness:
  "\<exists>s'. Peek sample_env (SetProperHead 9 forked_streamer) [] = (Some (sample_batch 2 12 0), s', [])"
  by (rule stale_entry_shields_wrong_fork [OF forked_streamer_ok, where c = "sample_batch 1 13 0" and ys = "[]"])
    (simp_all add: forked_vouched, simp_all add: forked_streamer_def sample_consumed_def sample_defs
      alist_lru_lawful [unfolded alist_lru_def])

text \<open>
  A later batch can overtake an earlier one of its number, against the stated order of
  \<open>Insert\<close>: right after \<open>Next\<close> there is no head, and a batch \<open>x\<close> of the next number read now
  becomes the head at once, although an earlier committed batch \<open>y\<close> of that number waits
  in the buffer. \<open>Next\<close> then gives out \<open>x\<close>.
\<close>

theorem later_batch_overtakes:
  assumes "headBatch s = None" and "Peek_buf (BatchBuffer s) = Some y"
    and "Number y = nextBatchPos s" and "Number x = nextBatchPos s"
    and "UnmarshalBatch e txn = Inr x" and "CheckBatch e x s w = (BatchAccept, s1, w1)"
    and "lru_lawful (state_lru e)"
  shows "\<exists>s'. processEspressoTransaction e txn ts s w = (None, s', w1)
    \<and> y \<in> set (batches (BatchBuffer s')) \<and> (\<forall>u. fst (Next e s' u) = Some x)"
proof -
  have s1: "headBatch s1 = None" "nextBatchPos s1 = nextBatchPos s" "BatchBuffer s1 = BatchBuffer s"
    using CheckBatch_cache_update [OF assms(6)] assms(1) by (simp_all add: cache_update_def refill_def)
  obtain t where t: "record_timestamp e x ts (s1\<lparr>headBatch := Some x\<rparr>) = s1\<lparr>headBatch := Some x, batchTimestamps := t\<rparr>"
    using record_timestamp_eq [of e x ts "s1\<lparr>headBatch := Some x\<rparr>"] by blast
  let ?s = "s1\<lparr>headBatch := Some x, batchTimestamps := t\<rparr>"
  have run: "processEspressoTransaction e txn ts s w = (None, ?s, w1)"
    by (simp add: processEspressoTransaction_def assms(4-6) store_batch_def s1 t)
  have cand: "find_candidate ?s = Candidate x ?s" by (simp add: find_candidate_def)
  have "vouched e x s1" by (rule CheckBatch_accept_vouched [OF assms(6,7)])
  then have v: "vouched e x ?s" by (simp add: vouched_def)
  have "y \<in> set (batches (BatchBuffer s))" by (rule buf.front_in [OF assms(2)])
  with run Next_vouched [OF cand v assms(7)] show ?thesis by (auto simp: s1)
qed

lemma later_batch_overtakes_witness:
  "\<exists>s'. processEspressoTransaction sample_env [2, 14] 0 sample_consumed [] = (None, s', [])
    \<and> sample_batch 2 12 0 \<in> set (batches (BatchBuffer s')) \<and> (\<forall>u. fst (Next sample_env s' u) = Some (sample_batch 2 14 0))"
proof -
  have chk: "CheckBatch sample_env (sample_batch 2 14 0) sample_consumed []
      = (BatchAccept, sample_consumed\<lparr>finalizedL1StateCache := sample_cached\<rparr>, [])"
    by (rule sample_check) (simp_all add: sample_consumed_def sample_defs)
  show ?thesis
    by (rule later_batch_overtakes [OF _ _ _ _ _ chk])
      (simp_all, simp_all add: sample_consumed_def sample_defs Peek_buf_def alist_lru_lawful [unfolded alist_lru_def])
qed

end
