(* ===== verification/Streamer_Interface.thy ===== *)
theory Streamer_Interface
  imports Op_Authentic
begin

text \<open>
  \<open>op/interface.go\<close>: the interface \<open>EspressoStreamer\<close> as a record of its methods, the method
  set of \<open>BatchStreamer\<close>, and the contract a caller may rely on. A method takes the receiver's
  state and the world; \<open>None\<close> is a call that does not return.
\<close>

record ('s, 'w) streamer_ops =
  op_Update :: "'s \<Rightarrow> 'w \<Rightarrow> (streamer_error option \<times> 's \<times> 'w) option"
  op_Refresh :: "l1_block_ref \<Rightarrow> u64 \<Rightarrow> block_id \<Rightarrow> 's \<Rightarrow> 'w \<Rightarrow> (streamer_error option \<times> 's \<times> 'w)"
  op_RefreshSafeL1Origin :: "block_id \<Rightarrow> 's \<Rightarrow> 'w \<Rightarrow> 's \<times> 'w"
  op_Reset :: "'s \<Rightarrow> 's"
  op_UnmarshalBatch :: "'s \<Rightarrow> bytes \<Rightarrow> ext_err + batch"
  op_HasNext :: "'s \<Rightarrow> 'w \<Rightarrow> bool \<times> 's \<times> 'w"
  op_Next :: "'s \<Rightarrow> 'w \<Rightarrow> batch option \<times> 's \<times> 'w"
  op_Peek :: "'s \<Rightarrow> 'w \<Rightarrow> batch option \<times> 's \<times> 'w"
  op_SetProperHead :: "hash \<Rightarrow> 's \<Rightarrow> 's"
  op_GetFallbackHotshotPos :: "'s \<Rightarrow> u64"
  op_GetBatchFinalizationTimestamp :: "hash \<Rightarrow> 's \<Rightarrow> u64 option \<times> 's"

text \<open>The method set of \<open>BatchStreamer\<close>; its \<open>Refresh\<close> returns a nil error.\<close>

definition batch_streamer :: "('w, 'c, 't) env \<Rightarrow> (('c, 't) streamer, 'w) streamer_ops" where
  "batch_streamer e =
    \<lparr>op_Update = Update e,
     op_Refresh = (\<lambda>l1 safe o1 s w. (None, Refresh e l1 safe o1 s w)),
     op_RefreshSafeL1Origin = RefreshSafeL1Origin e,
     op_Reset = Reset,
     op_UnmarshalBatch = (\<lambda>s. UnmarshalBatch e),
     op_HasNext = HasNext e,
     op_Next = Next e,
     op_Peek = Peek e,
     op_SetProperHead = SetProperHead,
     op_GetFallbackHotshotPos = GetFallbackHotshotPos,
     op_GetBatchFinalizationTimestamp = GetBatchFinalizationTimestamp e\<rparr>"

section \<open>The contract\<close>

text \<open>What a consumer of batches may rely on: one position, advanced by \<open>Next\<close> alone.\<close>

locale batch_source =
  fixes ops :: "('s, 'w) streamer_ops" and ok :: "'s \<Rightarrow> bool"
    and pos :: "'s \<Rightarrow> u64" and fallback :: "'s \<Rightarrow> u64"
  assumes next_some: "ok s \<Longrightarrow> op_Next ops s w = (Some b, s', w') \<Longrightarrow>
      ok s' \<and> Number b = pos s \<and> pos s' = pos s + 1 \<and> fallback s' = fallback s"
    and next_none: "ok s \<Longrightarrow> op_Next ops s w = (None, s', w') \<Longrightarrow>
      ok s' \<and> pos s' = pos s \<and> fallback s' = fallback s"
    and peek_keeps: "ok s \<Longrightarrow> op_Peek ops s w = (r, s', w') \<Longrightarrow>
      ok s' \<and> pos s' = pos s \<and> fallback s' = fallback s"
    and peek_next: "ok s \<Longrightarrow> op_Peek ops s w = (Some b, s', w') \<Longrightarrow> fst (op_Next ops s' u) = Some b"
    and has_next_keeps: "ok s \<Longrightarrow> op_HasNext ops s w = (a, s', w') \<Longrightarrow>
      ok s' \<and> pos s' = pos s \<and> fallback s' = fallback s"
    and has_next_next: "ok s \<Longrightarrow> op_HasNext ops s w = (True, s', w') \<Longrightarrow> fst (op_Next ops s' u) \<noteq> None"
begin

lemma peek_some:
  assumes "ok s" and "op_Peek ops s w = (Some b, s', w')"
  shows "Number b = pos s"
proof -
  obtain r s'' w'' where n: "op_Next ops s' w' = (r, s'', w'')" by (cases "op_Next ops s' w'")
  moreover have "r = Some b" using peek_next [OF assms, of w'] n by simp
  ultimately show ?thesis using next_some [of s' w' b s'' w''] peek_keeps [OF assms] by simp
qed

end

text \<open>What the other methods do to the position.\<close>

locale espresso_streamer = batch_source +
  assumes update_keeps: "ok s \<Longrightarrow> op_Update ops s w = Some (err, s', w') \<Longrightarrow>
      ok s' \<and> pos s' = pos s \<and> fallback s' = fallback s"
    and proper_head_keeps: "ok s \<Longrightarrow> ok (op_SetProperHead ops h s) \<and> pos (op_SetProperHead ops h s) = pos s
      \<and> fallback (op_SetProperHead ops h s) = fallback s"
    and timestamp_keeps: "ok s \<Longrightarrow> op_GetBatchFinalizationTimestamp ops h s = (t, s') \<Longrightarrow>
      ok s' \<and> pos s' = pos s \<and> fallback s' = fallback s"
    and reset_rewinds: "ok s \<Longrightarrow> ok (op_Reset ops s) \<and> pos (op_Reset ops s) = fallback s + 1
      \<and> fallback (op_Reset ops s) = fallback s"
    and refresh_origin_moves: "ok s \<Longrightarrow> op_RefreshSafeL1Origin ops o1 s w = (s', w') \<Longrightarrow>
      ok s' \<and> (pos s' = pos s \<or> pos s' = fallback s + 1) \<and> fallback s' = fallback s"
    and refresh_moves: "ok s \<Longrightarrow> op_Refresh ops l1 safe o1 s w = (err, s', w') \<Longrightarrow>
      ok s' \<and> fallback s' = safe \<and> (pos s' = pos s \<or> pos s' = safe + 1)"
    and refresh_catches_up: "ok s \<Longrightarrow> op_Refresh ops l1 safe o1 s w = (err, s', w') \<Longrightarrow>
      safe < fallback s \<or> fallback s < pos s \<and> pos s \<le> safe \<Longrightarrow> pos s' = safe + 1"

section \<open>BatchStreamer keeps the contract\<close>

definition source_ok :: "('w, 'c, 't) env \<Rightarrow> ('c, 't) streamer \<Rightarrow> bool" where
  "source_ok e s = (streamer_ok s \<and> lru_lawful (state_lru e))"

lemma accepted_next:
  assumes "CheckBatch e b s1 w1 = (BatchAccept, s, w)" and "headBatch s = Some b" and "lru_lawful (state_lru e)"
  shows "fst (Next e s u) = Some b"
proof -
  obtain c where "CheckBatch e b s u = (BatchAccept, s\<lparr>finalizedL1StateCache := c\<rparr>, u)"
    using vouched_CheckBatch [OF CheckBatch_accept_vouched [OF assms(1,3)] assms(3), of u] by blast
  then have "HasNext e s u = (True, s\<lparr>finalizedL1StateCache := c\<rparr>, u)"
    by (subst HasNext.simps) (simp add: find_candidate_def assms(2))
  then show ?thesis by (simp add: Next_def Let_def assms(2))
qed

lemma HasNext_then_next:
  assumes "HasNext e s w = (True, s', w')" and "source_ok e s"
  shows "fst (Next e s' u) = headBatch s' \<and> headBatch s' \<noteq> None"
proof -
  have "streamer_ok s" using assms(2) by (simp add: source_ok_def)
  from HasNext_True [OF assms(1) this] obtain b s1 w1
    where b: "headBatch s' = Some b" "CheckBatch e b s1 w1 = (BatchAccept, s', w')" by metis
  then show ?thesis using accepted_next [OF b(2,1)] assms(2) by (simp add: source_ok_def)
qed

lemma Refresh_catches_up:
  assumes "Refresh e l1 safe o1 s w = (s', w')"
    and "safe < fallbackBatchPos s \<or> fallbackBatchPos s < nextBatchPos s \<and> nextBatchPos s \<le> safe"
  shows "nextBatchPos s' = safe + 1"
proof -
  obtain s1 w1 s2 w2 where s1: "refresh_batcher e l1 (s\<lparr>FinalizedL1 := l1\<rparr>) w = (s1, w1)"
    and s2: "RefreshSafeL1Origin e o1 s1 w1 = (s2, w2)" and s': "s' = refresh_positions safe s2"
    using assms(1) by (auto simp: Refresh_def split: prod.splits)
  obtain a where a: "s1 = s\<lparr>FinalizedL1 := l1, espressoBatcher := a\<rparr>"
    using refresh_batcher_frame [OF s1] by auto
  have "fallbackBatchPos s2 = fallbackBatchPos s \<and>
      (nextBatchPos s2 = nextBatchPos s \<or> nextBatchPos s2 = fallbackBatchPos s + 1)"
    using RefreshSafeL1Origin_positions(1,2) [OF s2] by (auto simp: a)
  moreover have "fallbackBatchPos s + 1 \<le> safe" if "fallbackBatchPos s < safe"
    using that by (rule inc_le)
  ultimately show ?thesis
    using assms(2) by (auto simp: s' refresh_positions_def Let_def)
qed

interpretation op: espresso_streamer "batch_streamer e" "source_ok e" nextBatchPos fallbackBatchPos
  for e :: "('w, 'c, 't) env"
proof unfold_locales
  fix s s' :: "('c, 't) streamer" and w w' u :: 'w and b r a err h t o1 l1 safe
  assume ok: "source_ok e s"
  then have sok: "streamer_ok s" and lru: "lru_lawful (state_lru e)" by (simp_all add: source_ok_def)
  show "op_Next (batch_streamer e) s w = (Some b, s', w') \<Longrightarrow>
      source_ok e s' \<and> Number b = nextBatchPos s \<and> nextBatchPos s' = nextBatchPos s + 1
      \<and> fallbackBatchPos s' = fallbackBatchPos s"
    unfolding batch_streamer_def streamer_ops.simps
    by (erule Next_cases [OF _ sok]) (simp_all add: source_ok_def lru)
  show "op_Next (batch_streamer e) s w = (None, s', w') \<Longrightarrow>
      source_ok e s' \<and> nextBatchPos s' = nextBatchPos s \<and> fallbackBatchPos s' = fallbackBatchPos s"
    unfolding batch_streamer_def streamer_ops.simps
    by (erule Next_cases [OF _ sok]) (simp_all add: source_ok_def lru refill_def)
  show "op_Peek (batch_streamer e) s w = (r, s', w') \<Longrightarrow>
      source_ok e s' \<and> nextBatchPos s' = nextBatchPos s \<and> fallbackBatchPos s' = fallbackBatchPos s"
    unfolding batch_streamer_def streamer_ops.simps
    by (erule Peek_cases [OF _ sok]) (simp_all add: source_ok_def lru refill_def)
  show "op_HasNext (batch_streamer e) s w = (a, s', w') \<Longrightarrow>
      source_ok e s' \<and> nextBatchPos s' = nextBatchPos s \<and> fallbackBatchPos s' = fallbackBatchPos s"
    using HasNext_refill [of e s w a s' w'] HasNext_ok [of e s w a s' w'] sok lru
    by (simp add: batch_streamer_def source_ok_def refill_def)
  show "op_Peek (batch_streamer e) s w = (Some b, s', w') \<Longrightarrow> fst (op_Next (batch_streamer e) s' u) = Some b"
    unfolding batch_streamer_def streamer_ops.simps
    by (erule Peek_cases [OF _ sok]) (use HasNext_then_next [OF _ ok, of w s' w' u] in simp_all)
  show "op_HasNext (batch_streamer e) s w = (True, s', w') \<Longrightarrow> fst (op_Next (batch_streamer e) s' u) \<noteq> None"
    using HasNext_then_next [OF _ ok, of w s' w' u] by (simp add: batch_streamer_def)
  show "op_Update (batch_streamer e) s w = Some (err, s', w') \<Longrightarrow>
      source_ok e s' \<and> nextBatchPos s' = nextBatchPos s \<and> fallbackBatchPos s' = fallbackBatchPos s"
    using Update_ok [of e s w err s' w'] sok lru by (simp add: batch_streamer_def source_ok_def intake_def)
  show "source_ok e (op_SetProperHead (batch_streamer e) h s)
      \<and> nextBatchPos (op_SetProperHead (batch_streamer e) h s) = nextBatchPos s
      \<and> fallbackBatchPos (op_SetProperHead (batch_streamer e) h s) = fallbackBatchPos s"
    using SetProperHead_ok [OF sok] SetProperHead_refill [of s h] lru
    by (simp add: batch_streamer_def source_ok_def refill_def)
  show "op_GetBatchFinalizationTimestamp (batch_streamer e) h s = (t, s') \<Longrightarrow>
      source_ok e s' \<and> nextBatchPos s' = nextBatchPos s \<and> fallbackBatchPos s' = fallbackBatchPos s"
    using timestamp_frame [of e h s t s'] sok lru
    by (auto simp: batch_streamer_def source_ok_def streamer_ok_def)
  show "source_ok e (op_Reset (batch_streamer e) s)
      \<and> nextBatchPos (op_Reset (batch_streamer e) s) = fallbackBatchPos s + 1
      \<and> fallbackBatchPos (op_Reset (batch_streamer e) s) = fallbackBatchPos s"
    using Reset_ok [OF sok] lru by (simp add: batch_streamer_def source_ok_def)
  show "op_RefreshSafeL1Origin (batch_streamer e) o1 s w = (s', w') \<Longrightarrow>
      source_ok e s' \<and> (nextBatchPos s' = nextBatchPos s \<or> nextBatchPos s' = fallbackBatchPos s + 1)
      \<and> fallbackBatchPos s' = fallbackBatchPos s"
    using RefreshSafeL1Origin_positions(1,2) [of e o1 s w s' w'] RefreshSafeL1Origin_ok [of e o1 s w s' w'] sok lru
    by (simp add: batch_streamer_def source_ok_def)
  show "op_Refresh (batch_streamer e) l1 safe o1 s w = (err, s', w') \<Longrightarrow>
      source_ok e s' \<and> fallbackBatchPos s' = safe \<and> (nextBatchPos s' = nextBatchPos s \<or> nextBatchPos s' = safe + 1)"
    using Refresh_positions(1,2) [of e l1 safe o1 s w s' w'] Refresh_ok [of e l1 safe o1 s w s' w'] sok lru
    by (simp add: batch_streamer_def source_ok_def)
  show "op_Refresh (batch_streamer e) l1 safe o1 s w = (err, s', w') \<Longrightarrow>
      safe < fallbackBatchPos s \<or> fallbackBatchPos s < nextBatchPos s \<and> nextBatchPos s \<le> safe \<Longrightarrow>
      nextBatchPos s' = safe + 1"
    using Refresh_catches_up [of e l1 safe o1 s w s' w'] by (simp add: batch_streamer_def)
qed

end
