(* ===== verification/Buffered_Streamer.thy ===== *)
theory Buffered_Streamer
  imports Streamer_Interface
begin

text \<open>
  \<open>op/buffered_streamer.go\<close>: \<open>BufferedEspressoStreamer\<close>, a window of already delivered batches
  over another streamer, so that a consumer can rewind without rewinding that streamer.
  The inner streamer is any implementation of the interface: its method set is a
  parameter of the operations. The entries of the Go window are pointers to batches that
  nothing writes, so they are batches here; the slots set to nil for the garbage collector
  are cut off in the same step.
\<close>

section \<open>State and operations\<close>

record 's buffered =
  inner :: 's
  window :: "batch list"               \<comment> \<open>the field \<open>batches\<close>\<close>
  readPos :: u64
  startingBatchPos :: u64
  currentSafeL1Origin :: block_id

definition zero_block_id :: block_id where
  "zero_block_id = \<lparr>bid_hash = 0, bid_number = 0\<rparr>"

definition NewBufferedEspressoStreamer :: "'s \<Rightarrow> 's buffered" where
  "NewBufferedEspressoStreamer s =
    \<lparr>inner = s, window = [], readPos = 0, startingBatchPos = 0, currentSafeL1Origin = zero_block_id\<rparr>"

definition Update_buffered ::
  "('s, 'w) streamer_ops \<Rightarrow> 's buffered \<Rightarrow> 'w \<Rightarrow> (streamer_error option \<times> 's buffered \<times> 'w) option" where
  "Update_buffered ops b w =
    map_option (\<lambda>(err, s, w). (err, b\<lparr>inner := s\<rparr>, w)) (op_Update ops (inner b) w)"

definition handleL2PositionUpdate ::
  "('s, 'w) streamer_ops \<Rightarrow> u64 \<Rightarrow> 's buffered \<Rightarrow> 's buffered" where
  "handleL2PositionUpdate ops nextPosition b =
    (if nextPosition < startingBatchPos b then
       b\<lparr>readPos := 0, startingBatchPos := nextPosition, window := [], inner := op_Reset ops (inner b)\<rparr>
     else if nextPosition > startingBatchPos b then
       let positionAdjustment = nextPosition - startingBatchPos b;
           b = (if positionAdjustment \<le> u64_len (window b)
                then b\<lparr>window := drop (unat positionAdjustment) (window b),
                       readPos := (if readPos b \<ge> positionAdjustment then readPos b - positionAdjustment else 0)\<rparr>
                else b\<lparr>window := [], readPos := 0\<rparr>)
       in b\<lparr>startingBatchPos := nextPosition\<rparr>
     else b)"

definition RefreshSafeL1Origin_buffered ::
  "('s, 'w) streamer_ops \<Rightarrow> block_id \<Rightarrow> 's buffered \<Rightarrow> 'w \<Rightarrow> 's buffered \<times> 'w" where
  "RefreshSafeL1Origin_buffered ops safeL1Origin b w =
    (if bid_number safeL1Origin < bid_number (currentSafeL1Origin b) then
       let b = b\<lparr>currentSafeL1Origin := safeL1Origin, startingBatchPos := 0, readPos := 0, window := []\<rparr>;
           (s, w) = op_RefreshSafeL1Origin ops safeL1Origin (inner b) w
       in (b\<lparr>inner := s\<rparr>, w)
     else (b\<lparr>currentSafeL1Origin := safeL1Origin\<rparr>, w))"

definition Refresh_buffered ::
  "('s, 'w) streamer_ops \<Rightarrow> l1_block_ref \<Rightarrow> u64 \<Rightarrow> block_id \<Rightarrow> 's buffered \<Rightarrow> 'w
    \<Rightarrow> streamer_error option \<times> 's buffered \<times> 'w" where
  "Refresh_buffered ops finalizedL1 safeBatchNumber safeL1Origin b w =
    (let b = handleL2PositionUpdate ops safeBatchNumber b;
         (b, w) = RefreshSafeL1Origin_buffered ops safeL1Origin b w;
         (err, s, w) = op_Refresh ops finalizedL1 safeBatchNumber safeL1Origin (inner b) w
     in (err, b\<lparr>inner := s\<rparr>, w))"

definition Reset_buffered :: "'s buffered \<Rightarrow> 's buffered" where
  "Reset_buffered b = b\<lparr>readPos := 0\<rparr>"

definition GetBatchFinalizationTimestamp_buffered ::
  "('s, 'w) streamer_ops \<Rightarrow> hash \<Rightarrow> 's buffered \<Rightarrow> u64 option \<times> 's buffered" where
  "GetBatchFinalizationTimestamp_buffered ops h b =
    (let (t, s) = op_GetBatchFinalizationTimestamp ops h (inner b) in (t, b\<lparr>inner := s\<rparr>))"

definition HasNext_buffered ::
  "('s, 'w) streamer_ops \<Rightarrow> 's buffered \<Rightarrow> 'w \<Rightarrow> bool \<times> 's buffered \<times> 'w" where
  "HasNext_buffered ops b w =
    (if readPos b < u64_len (window b) then (True, b, w)
     else let (a, s, w) = op_HasNext ops (inner b) w in (a, b\<lparr>inner := s\<rparr>, w))"

text \<open>The loops of \<open>Next\<close> and \<open>Peek\<close> ask the inner streamer again while its batches are too old.\<close>

partial_function (option) next_loop ::
  "('s, 'w) streamer_ops \<Rightarrow> 's buffered \<Rightarrow> 'w \<Rightarrow> (batch option \<times> 's buffered \<times> 'w) option" where
  "next_loop ops b w =
    (case op_Next ops (inner b) w of
       (res, s, w) \<Rightarrow>
         (case res of
            None \<Rightarrow> Some (None, b\<lparr>inner := s\<rparr>, w)
          | Some x \<Rightarrow>
              if Number x \<ge> startingBatchPos b
              then Some (Some x, b\<lparr>inner := s, window := window b @ [x], readPos := readPos b + 1\<rparr>, w)
              else next_loop ops (b\<lparr>inner := s\<rparr>) w))"

definition Next_buffered ::
  "('s, 'w) streamer_ops \<Rightarrow> 's buffered \<Rightarrow> 'w \<Rightarrow> (batch option \<times> 's buffered \<times> 'w) option" where
  "Next_buffered ops b w =
    (if readPos b < u64_len (window b)
     then Some (Some (window b ! unat (readPos b)), b\<lparr>readPos := readPos b + 1\<rparr>, w)
     else next_loop ops b w)"

definition GetFallbackHotshotPos_buffered :: "('s, 'w) streamer_ops \<Rightarrow> 's buffered \<Rightarrow> u64" where
  "GetFallbackHotshotPos_buffered ops b = op_GetFallbackHotshotPos ops (inner b)"

text \<open>\<open>b.batches[:b.readPos]\<close> panics (\<open>None\<close>) when the read position is beyond the window.\<close>

definition SetProperHead_buffered ::
  "('s, 'w) streamer_ops \<Rightarrow> hash \<Rightarrow> 's buffered \<Rightarrow> 's buffered option" where
  "SetProperHead_buffered ops parentHash b =
    (case go_slice (window b) 0 (unat (readPos b)) of
       None \<Rightarrow> None
     | Some xs \<Rightarrow> Some (b\<lparr>window := xs, inner := op_SetProperHead ops parentHash (inner b)\<rparr>))"

partial_function (option) peek_loop ::
  "('s, 'w) streamer_ops \<Rightarrow> 's buffered \<Rightarrow> 'w \<Rightarrow> (batch option \<times> 's buffered \<times> 'w) option" where
  "peek_loop ops b w =
    (case op_Peek ops (inner b) w of
       (res, s, w) \<Rightarrow>
         (case res of
            None \<Rightarrow> Some (None, b\<lparr>inner := s\<rparr>, w)
          | Some x \<Rightarrow>
              if Number x \<ge> startingBatchPos b then Some (Some x, b\<lparr>inner := s\<rparr>, w)
              else
                (case op_Next ops s w of
                   (_, s, w) \<Rightarrow> peek_loop ops (b\<lparr>inner := s\<rparr>) w)))"

definition Peek_buffered ::
  "('s, 'w) streamer_ops \<Rightarrow> 's buffered \<Rightarrow> 'w \<Rightarrow> (batch option \<times> 's buffered \<times> 'w) option" where
  "Peek_buffered ops b w =
    (if readPos b < u64_len (window b)
     then Some (Some (window b ! unat (readPos b)), b, w)
     else peek_loop ops b w)"

definition UnmarshalBatch_buffered :: "('s, 'w) streamer_ops \<Rightarrow> 's buffered \<Rightarrow> bytes \<Rightarrow> ext_err + batch" where
  "UnmarshalBatch_buffered ops b data = op_UnmarshalBatch ops (inner b) data"

declare next_loop.simps [code] peek_loop.simps [code]

section \<open>The window\<close>

text \<open>The read position is inside the window, which a \<open>uint64\<close> can index.\<close>

definition window_ok :: "'s buffered \<Rightarrow> bool" where
  "window_ok b = (unat (readPos b) \<le> length (window b) \<and> length (window b) < 2 ^ 64)"

definition unread :: "'s buffered \<Rightarrow> batch list" where
  "unread b = drop (unat (readPos b)) (window b)"

lemma reads_window_iff:
  "window_ok b \<Longrightarrow> readPos b < u64_len (window b) \<longleftrightarrow> unread b \<noteq> []"
  by (simp add: window_ok_def word_less_nat_alt unread_def not_le)

lemma unread_hd: "unread b \<noteq> [] \<Longrightarrow> window b ! unat (readPos b) = hd (unread b)"
  by (simp add: unread_def hd_drop_conv_nth not_le)

lemma readPos_succ:
  assumes "unat (readPos b) < n" and "n < 2 ^ 64"
  shows "unat (readPos b + 1) = unat (readPos b) + 1"
proof (rule u_plus_one)
  have "unat (readPos b) + 1 < 2 ^ 64" using assms by simp
  then show "readPos b \<noteq> MaxUint64" by (auto simp: unsigned_minus_1_eq_mask mask_eq_exp_minus_1)
qed

lemma window_ok_inner [simp]: "window_ok (b\<lparr>inner := s\<rparr>) = window_ok b" "unread (b\<lparr>inner := s\<rparr>) = unread b"
  by (simp_all add: window_ok_def unread_def)

text \<open>Reading from the window touches neither the inner streamer nor the world.\<close>

lemma Next_buffered_window:
  assumes "window_ok b" and "unread b = x # xs"
  shows "Next_buffered ops b w = Some (Some x, b\<lparr>readPos := readPos b + 1\<rparr>, w)"
    and "window_ok (b\<lparr>readPos := readPos b + 1\<rparr>)" and "unread (b\<lparr>readPos := readPos b + 1\<rparr>) = xs"
    and "unat (readPos b + 1) = unat (readPos b) + 1"
proof -
  have lt: "unat (readPos b) < length (window b)"
    using assms(2) by (auto simp: unread_def not_le [symmetric])
  show succ: "unat (readPos b + 1) = unat (readPos b) + 1"
    by (rule readPos_succ [OF lt]) (use assms(1) in \<open>simp add: window_ok_def\<close>)
  show "Next_buffered ops b w = Some (Some x, b\<lparr>readPos := readPos b + 1\<rparr>, w)"
    using reads_window_iff [OF assms(1)] unread_hd [of b] assms(2) by (simp add: Next_buffered_def)
  show "window_ok (b\<lparr>readPos := readPos b + 1\<rparr>)"
    using assms(1) lt succ by (simp add: window_ok_def)
  show "unread (b\<lparr>readPos := readPos b + 1\<rparr>) = xs"
    using assms(2) succ by (simp add: unread_def drop_Suc flip: tl_drop)
qed

text \<open>Up to \<open>n\<close> calls of \<open>Next\<close>, as long as they return a batch.\<close>

fun next_many ::
  "('s, 'w) streamer_ops \<Rightarrow> nat \<Rightarrow> 's buffered \<Rightarrow> 'w \<Rightarrow> (batch list \<times> 's buffered \<times> 'w) option" where
  "next_many ops 0 b w = Some ([], b, w)"
| "next_many ops (Suc n) b w =
    (case Next_buffered ops b w of
       None \<Rightarrow> None
     | Some (None, b, w) \<Rightarrow> Some ([], b, w)
     | Some (Some x, b, w) \<Rightarrow> map_option (\<lambda>(xs, b, w). (x # xs, b, w)) (next_many ops n b w))"

lemma next_many_unread:
  "window_ok b \<Longrightarrow> unread b = xs \<Longrightarrow>
    next_many ops (length xs) b w = Some (xs, b\<lparr>readPos := readPos b + of_nat (length xs)\<rparr>, w)"
proof (induction xs arbitrary: b)
  case (Cons x xs)
  note n = Next_buffered_window [OF Cons.prems]
  show ?case by (simp add: n(1) Cons.IH [OF n(2,3)])
qed simp

section \<open>Alignment with the inner streamer\<close>

text \<open>
  The state the consumer relies on: the window holds the batches right after the safe batch
  \<open>startingBatchPos\<close>, in order, and the inner streamer continues where the window ends.
\<close>

definition aligned :: "('s \<Rightarrow> u64) \<Rightarrow> ('s \<Rightarrow> u64) \<Rightarrow> 's buffered \<Rightarrow> bool" where
  "aligned pos fallback b =
    (window_ok b \<and> fallback (inner b) = startingBatchPos b
     \<and> (\<forall>i < length (window b). unat (Number (window b ! i)) = unat (startingBatchPos b) + 1 + i)
     \<and> unat (pos (inner b)) = unat (startingBatchPos b) + 1 + length (window b))"

text \<open>The number the consumer gets next.\<close>

definition next_number :: "'s buffered \<Rightarrow> nat" where
  "next_number b = unat (startingBatchPos b) + 1 + unat (readPos b)"

lemma handle_window_ok:
  assumes "window_ok b"
  shows "window_ok (handleL2PositionUpdate ops n b)"
proof (cases "n > startingBatchPos b \<and> n - startingBatchPos b \<le> u64_len (window b)")
  case True
  let ?a = "n - startingBatchPos b"
  have le: "unat ?a \<le> length (window b)"
    using True assms by (simp add: word_le_nat_alt window_ok_def)
  have "unat (if readPos b \<ge> ?a then readPos b - ?a else 0) = unat (readPos b) - unat ?a"
    by (simp add: unat_sub word_le_nat_alt)
  moreover have "unat (readPos b) - unat ?a \<le> length (window b) - unat ?a"
    using assms by (simp add: window_ok_def diff_le_mono)
  ultimately show ?thesis
    using True assms by (auto simp: handleL2PositionUpdate_def Let_def window_ok_def)
next
  case False
  then show ?thesis using assms by (auto simp: handleL2PositionUpdate_def Let_def window_ok_def)
qed

text \<open>The state after a call of the inner \<open>Next\<close> that ends the loop.\<close>

definition taken :: "'s buffered \<Rightarrow> batch option \<Rightarrow> 's \<Rightarrow> 's buffered" where
  "taken b r s = (case r of
     None \<Rightarrow> b\<lparr>inner := s\<rparr>
   | Some x \<Rightarrow> b\<lparr>inner := s, window := window b @ [x], readPos := readPos b + 1\<rparr>)"

lemma taken_simps [simp]:
  "taken b None s = b\<lparr>inner := s\<rparr>"
  "taken b (Some x) s = b\<lparr>inner := s, window := window b @ [x], readPos := readPos b + 1\<rparr>"
  "taken (b\<lparr>inner := t\<rparr>) r s = taken b r s"
  by (simp_all add: taken_def split: option.split)

context batch_source
begin

text \<open>The loop of \<open>Next\<close> ends, because the inner position moves up to the starting position.\<close>

lemma next_loop_result:
  assumes "ok (inner b)"
  shows "\<exists>r s' w'. next_loop ops b w = Some (r, taken b r s', w') \<and> ok s' \<and> fallback s' = fallback (inner b)
    \<and> (case r of
         None \<Rightarrow> pos (inner b) \<le> pos s' \<and> pos s' \<le> max (pos (inner b)) (startingBatchPos b)
       | Some x \<Rightarrow> Number x = max (pos (inner b)) (startingBatchPos b) \<and> pos s' = Number x + 1)"
  using assms
proof (induction "unat (startingBatchPos b) - unat (pos (inner b))" arbitrary: b w rule: less_induct)
  case less
  obtain r s w1 where n: "op_Next ops (inner b) w = (r, s, w1)" by (cases "op_Next ops (inner b) w")
  show ?case
  proof (cases r)
    case None
    with next_none [OF less.prems] n have "ok s" "pos s = pos (inner b)" "fallback s = fallback (inner b)" by auto
    moreover have "next_loop ops b w = Some (None, taken b None s, w1)"
      by (subst next_loop.simps) (simp add: n None)
    ultimately show ?thesis by (intro exI [of _ None] exI [of _ s] exI [of _ w1]) simp
  next
    case (Some x)
    with next_some [OF less.prems] n have s: "ok s" "Number x = pos (inner b)" "pos s = pos (inner b) + 1"
      "fallback s = fallback (inner b)" by auto
    show ?thesis
    proof (cases "Number x \<ge> startingBatchPos b")
      case True
      then have "next_loop ops b w = Some (Some x, taken b (Some x) s, w1)"
        by (subst next_loop.simps) (simp add: n Some)
      then show ?thesis using True s by (intro exI [of _ "Some x"] exI [of _ s] exI [of _ w1]) (simp add: max_def)
    next
      case False
      then have old: "pos (inner b) < startingBatchPos b" using s by simp
      then have neq: "pos (inner b) \<noteq> MaxUint64" by auto
      have up: "pos s \<le> startingBatchPos b" "pos (inner b) \<le> pos s"
        unfolding s(3) using old u64_less_succ [OF neq] by (auto intro: inc_le)
      have mx: "max (pos s) (startingBatchPos b) = max (pos (inner b)) (startingBatchPos b)"
        using up(1) old by (simp add: max_absorb2 less_imp_le)
      have "unat (startingBatchPos (b\<lparr>inner := s\<rparr>)) - unat (pos (inner (b\<lparr>inner := s\<rparr>)))
          < unat (startingBatchPos b) - unat (pos (inner b))"
        using old u_plus_one [OF neq] by (simp add: s(3) word_less_nat_alt)
      from less.hyps [OF this, of w1] s(1) obtain r' s' w' where
        ih: "next_loop ops (b\<lparr>inner := s\<rparr>) w1 = Some (r', taken (b\<lparr>inner := s\<rparr>) r' s', w')" "ok s'"
          "fallback s' = fallback s"
        and c: "case r' of
           None \<Rightarrow> pos s \<le> pos s' \<and> pos s' \<le> max (pos s) (startingBatchPos b)
         | Some x \<Rightarrow> Number x = max (pos s) (startingBatchPos b) \<and> pos s' = Number x + 1"
        by (auto cong: option.case_cong)
      have "next_loop ops b w = Some (r', taken b r' s', w')"
        using False by (subst next_loop.simps) (simp add: n Some ih(1))
      moreover have "case r' of
           None \<Rightarrow> pos (inner b) \<le> pos s' \<and> pos s' \<le> max (pos (inner b)) (startingBatchPos b)
         | Some x \<Rightarrow> Number x = max (pos (inner b)) (startingBatchPos b) \<and> pos s' = Number x + 1"
        using c up(2) unfolding mx by (auto split: option.splits)
      ultimately show ?thesis using ih(2,3) s(4) by (intro exI [of _ r'] exI [of _ s'] exI [of _ w']) simp
    qed
  qed
qed

text \<open>The loop of \<open>Peek\<close> ends as well, and shows what \<open>Next\<close> would return.\<close>

lemma peek_loop_result:
  assumes "ok (inner b)"
  shows "\<exists>r s' w'. peek_loop ops b w = Some (r, b\<lparr>inner := s'\<rparr>, w') \<and> ok s' \<and> fallback s' = fallback (inner b)
    \<and> (case r of
         None \<Rightarrow> pos (inner b) \<le> pos s' \<and> pos s' \<le> max (pos (inner b)) (startingBatchPos b)
       | Some x \<Rightarrow> Number x = max (pos (inner b)) (startingBatchPos b) \<and> pos s' = Number x
           \<and> (\<forall>u. fst (op_Next ops s' u) = Some x))"
  using assms
proof (induction "unat (startingBatchPos b) - unat (pos (inner b))" arbitrary: b w rule: less_induct)
  case less
  obtain r s w1 where p: "op_Peek ops (inner b) w = (r, s, w1)" by (cases "op_Peek ops (inner b) w")
  note s = peek_keeps [OF less.prems p]
  show ?case
  proof (cases r)
    case None
    then have "peek_loop ops b w = Some (None, b\<lparr>inner := s\<rparr>, w1)"
      by (subst peek_loop.simps) (simp add: p)
    then show ?thesis using s by (intro exI [of _ None] exI [of _ s] exI [of _ w1]) simp
  next
    case (Some x)
    note px = p [unfolded Some]
    have x: "Number x = pos (inner b)" "\<And>u. fst (op_Next ops s u) = Some x"
      using peek_some [OF less.prems px] peek_next [OF less.prems px] by simp_all
    show ?thesis
    proof (cases "Number x \<ge> startingBatchPos b")
      case True
      then have "peek_loop ops b w = Some (Some x, b\<lparr>inner := s\<rparr>, w1)"
        by (subst peek_loop.simps) (simp add: px)
      then show ?thesis using True s x by (intro exI [of _ "Some x"] exI [of _ s] exI [of _ w1]) (simp add: max_def)
    next
      case False
      obtain r2 s2 w2 where n: "op_Next ops s w1 = (r2, s2, w2)" by (cases "op_Next ops s w1")
      then have "r2 = Some x" using x(2) [of w1] by simp
      then have s2: "ok s2" "pos s2 = pos (inner b) + 1" "fallback s2 = fallback (inner b)"
        using next_some [of s w1 x s2 w2] n s by auto
      have old: "pos (inner b) < startingBatchPos b" using False x by simp
      then have neq: "pos (inner b) \<noteq> MaxUint64" by auto
      have up: "pos s2 \<le> startingBatchPos b" "pos (inner b) \<le> pos s2"
        unfolding s2(2) using old u64_less_succ [OF neq] by (auto intro: inc_le)
      have "unat (startingBatchPos (b\<lparr>inner := s2\<rparr>)) - unat (pos (inner (b\<lparr>inner := s2\<rparr>)))
          < unat (startingBatchPos b) - unat (pos (inner b))"
        using old u_plus_one [OF neq] by (simp add: s2(2) word_less_nat_alt)
      from less.hyps [OF this, of w2] s2(1) obtain r' s' w' where
        ih: "peek_loop ops (b\<lparr>inner := s2\<rparr>) w2 = Some (r', b\<lparr>inner := s'\<rparr>, w')" "ok s'"
          "fallback s' = fallback s2"
        and c: "case r' of
           None \<Rightarrow> pos s2 \<le> pos s' \<and> pos s' \<le> max (pos s2) (startingBatchPos b)
         | Some x \<Rightarrow> Number x = max (pos s2) (startingBatchPos b) \<and> pos s' = Number x
             \<and> (\<forall>u. fst (op_Next ops s' u) = Some x)"
        by (auto cong: option.case_cong)
      have "peek_loop ops b w = Some (r', b\<lparr>inner := s'\<rparr>, w')"
        using False by (subst peek_loop.simps) (simp add: px n ih(1))
      moreover have mx: "max (pos s2) (startingBatchPos b) = max (pos (inner b)) (startingBatchPos b)"
        using up(1) old by (simp add: max_absorb2 less_imp_le)
      moreover have "case r' of
           None \<Rightarrow> pos (inner b) \<le> pos s' \<and> pos s' \<le> max (pos (inner b)) (startingBatchPos b)
         | Some x \<Rightarrow> Number x = max (pos (inner b)) (startingBatchPos b) \<and> pos s' = Number x
             \<and> (\<forall>u. fst (op_Next ops s' u) = Some x)"
        using c up(2) unfolding mx by (auto split: option.splits)
      ultimately show ?thesis using ih(2,3) s2(3) by (intro exI [of _ r'] exI [of _ s'] exI [of _ w']) simp
    qed
  qed
qed

text \<open>An aligned streamer gives the consumer the next number, from the window or from below.\<close>

lemma Next_buffered_aligned:
  assumes a: "aligned pos fallback b" and ok: "ok (inner b)" and max: "pos (inner b) \<noteq> MaxUint64"
  shows "\<exists>r b' w'. Next_buffered ops b w = Some (r, b', w') \<and> ok (inner b') \<and> aligned pos fallback b'
    \<and> startingBatchPos b' = startingBatchPos b
    \<and> (case r of None \<Rightarrow> next_number b' = next_number b
       | Some x \<Rightarrow> unat (Number x) = next_number b \<and> next_number b' = next_number b + 1)"
proof (cases "unread b")
  case (Cons x xs)
  have wok: "window_ok b" using a by (simp add: aligned_def)
  note n = Next_buffered_window [OF wok Cons]
  have "unat (readPos b) < length (window b)" using Cons by (auto simp: unread_def not_le [symmetric])
  moreover have "window b ! unat (readPos b) = x" using unread_hd [of b] Cons by simp
  ultimately have "unat (Number x) = next_number b" using a by (auto simp: aligned_def next_number_def)
  then show ?thesis using n(2-4) a ok by (simp add: n(1) aligned_def next_number_def)
next
  case Nil
  have wok: "window_ok b" using a by (simp add: aligned_def)
  have loop: "Next_buffered ops b w = next_loop ops b w"
    using reads_window_iff [OF wok] Nil by (simp add: Next_buffered_def)
  have rd: "unat (readPos b) = length (window b)" using Nil wok by (simp add: unread_def window_ok_def)
  have ge: "max (pos (inner b)) (startingBatchPos b) = pos (inner b)"
    using a by (simp add: aligned_def max_def word_le_nat_alt)
  from next_loop_result [OF ok, of w] obtain r s' w' where
    run: "next_loop ops b w = Some (r, taken b r s', w')" "ok s'" "fallback s' = fallback (inner b)"
    and c: "case r of None \<Rightarrow> pos s' = pos (inner b)
       | Some x \<Rightarrow> Number x = pos (inner b) \<and> pos s' = Number x + 1"
    by (auto simp: ge split: option.splits)
  have step: ?thesis if "aligned pos fallback (taken b r s')" and "startingBatchPos (taken b r s') = startingBatchPos b"
    and "case r of None \<Rightarrow> next_number (taken b r s') = next_number b
       | Some x \<Rightarrow> unat (Number x) = next_number b \<and> next_number (taken b r s') = next_number b + 1"
    using that loop run
    by (intro exI [of _ r] exI [of _ "taken b r s'"] exI [of _ w']) (auto simp: taken_def split: option.splits)
  show ?thesis
  proof (cases r)
    case None
    with a run(3) c show ?thesis by (intro step) (simp_all add: aligned_def next_number_def)
  next
    case (Some x)
    with c have x: "Number x = pos (inner b)" "pos s' = pos (inner b) + 1" by simp_all
    have len: "length (window b) + 1 < 2 ^ 64"
      using a unat_u64_bound [of "pos (inner b)"] by (simp add: aligned_def)
    have succ: "unat (readPos b + 1) = unat (readPos b) + 1"
      by (rule readPos_succ [OF _ len]) (simp add: rd)
    have pos: "unat (pos s') = unat (startingBatchPos b) + 1 + (length (window b) + 1)"
      using u_plus_one [OF max] a by (simp add: aligned_def x(2))
    show ?thesis
      using Some a run(3) len succ rd pos x(1)
      by (intro step) (auto simp: aligned_def window_ok_def next_number_def nth_append less_Suc_eq)
  qed
qed

end

end
