(* ===== verification/Buffered_Replay.thy ===== *)
theory Buffered_Replay
  imports Buffered_Streamer Op_Forks
begin

text \<open>
  What the buffered streamer gives its consumer: replay without touching the inner streamer,
  consecutive numbers across refreshes, and the cases in which batches are skipped.
\<close>

section \<open>Refresh keeps the alignment\<close>

lemma handle_below:
  "n < startingBatchPos b \<Longrightarrow> handleL2PositionUpdate ops n b
    = b\<lparr>readPos := 0, startingBatchPos := n, window := [], inner := op_Reset ops (inner b)\<rparr>"
  by (simp add: handleL2PositionUpdate_def)

lemma handle_same: "handleL2PositionUpdate ops (startingBatchPos b) b = b"
  by (simp add: handleL2PositionUpdate_def)

lemma handle_within:
  assumes "startingBatchPos b < n" and "unat n \<le> unat (startingBatchPos b) + length (window b)"
    and wok: "window_ok b"
  shows "handleL2PositionUpdate ops n b
    = b\<lparr>window := drop (unat n - unat (startingBatchPos b)) (window b),
        readPos := (if unat (readPos b) \<ge> unat n - unat (startingBatchPos b) then readPos b - (n - startingBatchPos b) else 0),
        startingBatchPos := n\<rparr>"
proof -
  have u: "unat (n - startingBatchPos b) = unat n - unat (startingBatchPos b)"
    using assms(1) by (simp add: unat_sub less_imp_le)
  then have "n - startingBatchPos b \<le> u64_len (window b)"
    using assms(2) wok by (simp add: word_le_nat_alt window_ok_def)
  then show ?thesis
    using assms(1) u by (simp add: handleL2PositionUpdate_def Let_def word_le_nat_alt not_less less_imp_le)
qed

lemma handle_beyond:
  assumes "unat (startingBatchPos b) + length (window b) < unat n" and wok: "window_ok b"
  shows "handleL2PositionUpdate ops n b = b\<lparr>window := [], readPos := 0, startingBatchPos := n\<rparr>"
proof -
  have lt: "startingBatchPos b < n" using assms(1) by (simp add: word_less_nat_alt)
  have "unat (n - startingBatchPos b) = unat n - unat (startingBatchPos b)"
    using lt by (simp add: unat_sub less_imp_le)
  then have "\<not> n - startingBatchPos b \<le> u64_len (window b)"
    using assms(1) wok by (simp add: word_le_nat_alt window_ok_def)
  then show ?thesis
    using lt by (simp add: handleL2PositionUpdate_def Let_def not_less less_imp_le)
qed

lemma Refresh_buffered_forward:
  assumes "Refresh_buffered ops l1 safe o1 b w = (err, b', w')"
    and "bid_number (currentSafeL1Origin b) \<le> bid_number o1"
  shows "\<exists>s'. op_Refresh ops l1 safe o1 (inner (handleL2PositionUpdate ops safe b)) w = (err, s', w')
    \<and> b' = (handleL2PositionUpdate ops safe b)\<lparr>currentSafeL1Origin := o1, inner := s'\<rparr>"
proof -
  have "currentSafeL1Origin (handleL2PositionUpdate ops safe b) = currentSafeL1Origin b"
    by (simp add: handleL2PositionUpdate_def Let_def)
  moreover have "\<not> bid_number o1 < bid_number (currentSafeL1Origin b)" using assms(2) by (simp add: not_less)
  ultimately show ?thesis
    using assms(1) by (auto simp: Refresh_buffered_def RefreshSafeL1Origin_buffered_def Let_def split: prod.splits)
qed

context espresso_streamer
begin

lemma Refresh_buffered_aligned:
  assumes a: "aligned pos fallback b" and ok: "ok (inner b)"
    and run: "Refresh_buffered ops l1 safe o1 b w = (err, b', w')"
    and fwd: "bid_number (currentSafeL1Origin b) \<le> bid_number o1" and safe: "safe \<noteq> MaxUint64"
    and kept: "window b' \<noteq> [] \<Longrightarrow> pos (inner b') = pos (inner b)"
  shows "aligned pos fallback b' \<and> ok (inner b') \<and> startingBatchPos b' = safe
    \<and> next_number b' = (if safe < startingBatchPos b then unat safe + 1 else max (next_number b) (unat safe + 1))"
proof -
  let ?h = "handleL2PositionUpdate ops safe b" and ?n = "unat safe" and ?p = "unat (startingBatchPos b)"
  obtain s' where r: "op_Refresh ops l1 safe o1 (inner ?h) w = (err, s', w')"
    and b': "b' = ?h\<lparr>currentSafeL1Origin := o1, inner := s'\<rparr>"
    using Refresh_buffered_forward [OF run fwd] by blast
  note al = a [unfolded aligned_def]
  have u1: "unat (safe + 1) = ?n + 1" by (rule u_plus_one [OF safe])
  consider (below) "safe < startingBatchPos b" | (same) "safe = startingBatchPos b"
    | (within) "startingBatchPos b < safe" "?n \<le> ?p + length (window b)"
    | (beyond) "?p + length (window b) < ?n"
    by (meson not_le_imp_less not_less_iff_gr_or_eq)
  then show ?thesis
  proof cases
    case below
    note h = handle_below [OF below, of ops]
    have s: "ok (op_Reset ops (inner b))" "fallback (op_Reset ops (inner b)) = startingBatchPos b"
      using reset_rewinds [OF ok] al by simp_all
    have "ok s' \<and> fallback s' = safe \<and> pos s' = safe + 1"
      using refresh_moves [OF s(1) r [unfolded h, simplified]]
        refresh_catches_up [OF s(1) r [unfolded h, simplified]] s(2) below by simp
    then show ?thesis using below u1 by (simp add: b' h aligned_def window_ok_def next_number_def)
  next
    case same
    then have h: "?h = b" using handle_same by metis
    have "ok s' \<and> fallback s' = safe \<and> (pos s' = pos (inner b) \<or> pos s' = safe + 1)"
      using refresh_moves [OF ok r [unfolded h]] by simp
    moreover have "pos s' = pos (inner b)" if "window b \<noteq> []"
      using kept that by (simp add: b' h)
    moreover have "pos (inner b) = safe + 1" if "window b = []"
      by (rule unsigned_word_eqI [where ?'a = nat]) (use al that same u1 in simp)
    ultimately have "ok s' \<and> fallback s' = safe \<and> pos s' = pos (inner b)" by metis
    then show ?thesis using al same by (simp add: b' handle_same aligned_def window_ok_def next_number_def max_def)
  next
    case within
    have wok: "window_ok b" using al by simp
    note h = handle_within [OF within wok, of ops]
    let ?k = "?n - ?p"
    have k: "?k \<le> length (window b)" "?p + ?k = ?n" using within by (simp_all add: word_less_nat_alt)
    have win: "window b' = drop ?k (window b)" "startingBatchPos b' = safe" "inner b' = s'"
      by (simp_all add: b' h)
    have sub: "unat (safe - startingBatchPos b) = ?k"
      using within(1) by (simp add: unat_sub less_imp_le)
    have "safe - startingBatchPos b \<le> readPos b" if "?k \<le> unat (readPos b)"
      using that by (simp add: word_le_nat_alt sub)
    then have rd: "unat (readPos b') = unat (readPos b) - ?k"
      by (simp add: b' h unat_sub sub)
    have "ok s' \<and> fallback s' = safe \<and> (pos s' = pos (inner b) \<or> pos s' = safe + 1)"
      using refresh_moves [OF _ r [unfolded h, simplified]] ok by simp
    moreover have "pos s' = pos (inner b)" if "window b' \<noteq> []"
      using kept that by (simp add: b')
    moreover have "pos (inner b) = safe + 1" if "window b' = []"
      by (rule unsigned_word_eqI [where ?'a = nat]) (use al that k u1 in \<open>simp add: win\<close>)
    ultimately have s': "ok s'" "fallback s' = safe" "pos s' = pos (inner b)" by metis+
    have "aligned pos fallback b'"
      using al k rd s' by (auto simp: aligned_def window_ok_def win diff_le_mono)
    moreover have "next_number b' = max (next_number b) (?n + 1)"
      using k by (simp add: next_number_def rd win max_def)
    moreover have "\<not> safe < startingBatchPos b" using within(1) by simp
    ultimately show ?thesis using s'(1) by (simp add: win)
  next
    case beyond
    have wok: "window_ok b" using al by simp
    note h = handle_beyond [OF beyond wok, of ops]
    have "fallback (inner b) < pos (inner b) \<and> pos (inner b) \<le> safe"
      using al beyond by (simp add: word_less_nat_alt word_le_nat_alt)
    then have "ok s' \<and> fallback s' = safe \<and> pos s' = safe + 1"
      using refresh_moves [OF _ r [unfolded h, simplified]] ok
        refresh_catches_up [OF _ r [unfolded h, simplified]] by simp
    moreover have "next_number b \<le> ?n" "\<not> safe < startingBatchPos b"
      using al beyond by (simp_all add: next_number_def window_ok_def word_less_nat_alt)
    ultimately show ?thesis using u1 by (simp add: b' h aligned_def window_ok_def next_number_def max_def)
  qed
qed

end

context batch_source
begin

lemma Next_buffered_below:
  assumes "window_ok b" and "unread b = []" and "ok (inner b)" and "startingBatchPos b \<le> pos (inner b)"
    and "Next_buffered ops b w = Some (Some x, b', w')"
  shows "Number x = pos (inner b)"
proof -
  have "next_loop ops b w = Some (Some x, b', w')"
    using assms(2,5) reads_window_iff [OF assms(1)] by (simp add: Next_buffered_def)
  then show ?thesis using next_loop_result [OF assms(3), of w] assms(4) by (auto simp: max_absorb1)
qed

lemma Peek_buffered_next:
  assumes wok: "window_ok b" and ok: "ok (inner b)" and run: "Peek_buffered ops b w = Some (Some x, b', w')"
  shows "\<exists>b'' u'. Next_buffered ops b' u = Some (Some x, b'', u')"
proof (cases "unread b")
  case Nil
  then have loop: "peek_loop ops b w = Some (Some x, b', w')"
    using run reads_window_iff [OF wok] by (simp add: Peek_buffered_def)
  from peek_loop_result [OF ok, of w] loop obtain s' where b': "b' = b\<lparr>inner := s'\<rparr>"
    and x: "Number x = max (pos (inner b)) (startingBatchPos b)" "fst (op_Next ops s' u) = Some x" by auto
  obtain s2 w2 where n: "op_Next ops s' u = (Some x, s2, w2)" using x(2) by (cases "op_Next ops s' u") simp
  have "next_loop ops b' u = Some (Some x, taken b (Some x) s2, w2)"
    using x(1) by (subst next_loop.simps) (simp add: b' n)
  moreover have "\<not> readPos b' < u64_len (window b')"
    using reads_window_iff [OF wok] Nil by (simp add: b')
  ultimately show ?thesis by (simp add: Next_buffered_def)
next
  case (Cons y ys)
  then show ?thesis using run reads_window_iff [OF wok] by (auto simp: Peek_buffered_def Next_buffered_def)
qed

end

lemma aligned_start_le: "aligned pos fallback b \<Longrightarrow> startingBatchPos b \<le> pos (inner b)"
  by (simp add: aligned_def word_le_nat_alt)

lemma aligned_skip: "aligned pos fallback b \<Longrightarrow> unat (pos (inner b)) = next_number b + length (unread b)"
  by (simp add: aligned_def next_number_def unread_def window_ok_def)

section \<open>Samples\<close>

text \<open>A buffered streamer that delivered batches 1 and 2 and was reset, over a streamer at batch 3.\<close>

definition sample_inner :: "((u64 \<times> l1_state) list, (hash \<times> u64) list) streamer" where
  "sample_inner = sample_consumed\<lparr>nextBatchPos := 3, headBatch := None,
     BatchBuffer := \<lparr>batches = [sample_batch 3 15 0], buf_capacity = 1024\<rparr>\<rparr>"

definition sample_buffered :: "((u64 \<times> l1_state) list, (hash \<times> u64) list) streamer buffered" where
  "sample_buffered = \<lparr>inner = sample_inner, window = [sample_batch 1 11 0, sample_batch 2 12 0],
     readPos = 0, startingBatchPos = 0, currentSafeL1Origin = \<lparr>bid_hash = 7, bid_number = 1\<rparr>\<rparr>"

lemma sample_buffered_simps [simp]:
  "window sample_buffered = [sample_batch 1 11 0, sample_batch 2 12 0]" "readPos sample_buffered = 0"
  "startingBatchPos sample_buffered = 0" "inner sample_buffered = sample_inner"
  "currentSafeL1Origin sample_buffered = \<lparr>bid_hash = 7, bid_number = 1\<rparr>"
  "nextBatchPos sample_inner = 3" "fallbackBatchPos sample_inner = 0"
  by (simp_all add: sample_buffered_def sample_inner_def sample_consumed_def sample_defs)

lemma sample_source_ok: "lru_lawful (state_lru e) \<Longrightarrow> source_ok e sample_inner"
  by (simp add: source_ok_def streamer_ok_def sample_inner_def sample_consumed_def sample_defs buffer_ok_def
      BatchBufferCapacity_def Len_def)

lemma sample_env_lru: "lru_lawful (state_lru sample_env)"
  by (simp add: sample_env_def alist_lru_lawful)

lemma sample_aligned: "aligned nextBatchPos fallbackBatchPos sample_buffered"
  by (auto simp: aligned_def window_ok_def less_Suc_eq)

lemma sample_next_number: "next_number sample_buffered = 1" "unread sample_buffered = window sample_buffered"
  by (simp_all add: next_number_def unread_def)

section \<open>Reachable states\<close>

text \<open>The calls on a buffered streamer, over any implementation and in any worlds.\<close>

inductive buffered_step :: "('s, 'w) streamer_ops \<Rightarrow> 's buffered \<Rightarrow> 's buffered \<Rightarrow> bool"
  for ops :: "('s, 'w) streamer_ops" where
  "Next_buffered ops b w = Some (r, b', w') \<Longrightarrow> buffered_step ops b b'"
| "Peek_buffered ops b w = Some (r, b', w') \<Longrightarrow> buffered_step ops b b'"
| "HasNext_buffered ops b w = (a, b', w') \<Longrightarrow> buffered_step ops b b'"
| "Update_buffered ops b w = Some (err, b', w') \<Longrightarrow> buffered_step ops b b'"
| "Refresh_buffered ops l1 safe o1 b w = (err, b', w') \<Longrightarrow> buffered_step ops b b'"
| "RefreshSafeL1Origin_buffered ops o1 b w = (b', w') \<Longrightarrow> buffered_step ops b b'"
| "GetBatchFinalizationTimestamp_buffered ops h b = (t, b') \<Longrightarrow> buffered_step ops b b'"
| "SetProperHead_buffered ops h b = Some b' \<Longrightarrow> buffered_step ops b b'"
| "buffered_step ops b (Reset_buffered b)"

definition in_window :: "'s buffered \<Rightarrow> bool" where
  "in_window b = (unat (readPos b) \<le> length (window b))"

lemma u64_len_le: "unat (u64_len xs) \<le> length xs"
  by (simp add: unat_of_nat take_bit_nat_less_eq_self)

lemma unat_succ_le: "unat (x + 1 :: u64) \<le> unat x + 1"
  using u_plus_one [of x] by (cases "x = MaxUint64") auto

lemma next_loop_window:
  assumes "next_loop ops b w = Some res"
  shows "window (fst (snd res)) = window b \<and> readPos (fst (snd res)) = readPos b
    \<or> (\<exists>x. window (fst (snd res)) = window b @ [x] \<and> readPos (fst (snd res)) = readPos b + 1)"
  by (rule next_loop.raw_induct [where P = "\<lambda>ops b w res.
      window (fst (snd res)) = window b \<and> readPos (fst (snd res)) = readPos b
      \<or> (\<exists>x. window (fst (snd res)) = window b @ [x] \<and> readPos (fst (snd res)) = readPos b + 1)", OF _ assms])
    (fastforce split: prod.splits option.splits if_splits)

lemma peek_loop_window:
  assumes "peek_loop ops b w = Some res"
  shows "window (fst (snd res)) = window b \<and> readPos (fst (snd res)) = readPos b"
  by (rule peek_loop.raw_induct [where P = "\<lambda>ops b w res.
      window (fst (snd res)) = window b \<and> readPos (fst (snd res)) = readPos b", OF _ assms])
    (fastforce split: prod.splits option.splits if_splits)

lemma handle_in_window:
  assumes "in_window b"
  shows "in_window (handleL2PositionUpdate ops n b)"
proof -
  let ?a = "n - startingBatchPos b"
  have "unat (if readPos b \<ge> ?a then readPos b - ?a else 0) = unat (readPos b) - unat ?a"
    by (simp add: unat_sub word_le_nat_alt)
  then show ?thesis
    using assms by (auto simp: handleL2PositionUpdate_def Let_def in_window_def diff_le_mono)
qed

lemma Next_in_window:
  assumes "Next_buffered ops b w = Some (r, b', w')" and "in_window b"
  shows "in_window b'"
proof (cases "readPos b < u64_len (window b)")
  case True
  then have "b' = b\<lparr>readPos := readPos b + 1\<rparr>" using assms(1) by (simp add: Next_buffered_def)
  moreover have "unat (readPos b + 1) \<le> length (window b)"
    using True unat_succ_le [of "readPos b"] u64_len_le [of "window b"] by (simp add: word_less_nat_alt)
  ultimately show ?thesis by (simp add: in_window_def)
next
  case False
  then have "next_loop ops b w = Some (r, b', w')" using assms(1) by (simp add: Next_buffered_def)
  from next_loop_window [OF this] show ?thesis
    using assms(2) unat_succ_le [of "readPos b"] by (auto simp: in_window_def)
qed

lemma buffered_step_in_window:
  assumes "buffered_step ops b b'" and win: "in_window b"
  shows "in_window b'"
  using assms(1)
proof cases
  case (1 w r w')
  then show ?thesis by (rule Next_in_window) (rule win)
next
  case (2 w r w')
  then show ?thesis using peek_loop_window [of ops b w "(r, b', w')"] win
    by (auto simp: Peek_buffered_def in_window_def split: if_splits)
next
  case (5 l1 safe o1 w err w')
  have "in_window (fst (RefreshSafeL1Origin_buffered ops o1 c u))" if "in_window c" for c u
    using that by (auto simp: RefreshSafeL1Origin_buffered_def in_window_def Let_def split: prod.splits)
  from this [OF handle_in_window [OF win], of ops safe w] 5 show ?thesis
    by (auto simp: Refresh_buffered_def in_window_def Let_def split: prod.splits)
qed (use win in \<open>auto simp: HasNext_buffered_def Update_buffered_def RefreshSafeL1Origin_buffered_def
      GetBatchFinalizationTimestamp_buffered_def SetProperHead_buffered_def Reset_buffered_def
      in_window_def go_slice_def Let_def split: if_splits prod.splits option.splits\<close>)

section \<open>Properties\<close>

text \<open>
  C18. The consumer of the buffered streamer sees consecutive numbers. In an aligned state
  \<open>Next\<close> returns, and when it returns a batch that batch has exactly the next number,
  whether it was replayed from the window or fetched from the \<open>BatchStreamer\<close> below; the
  state stays aligned, the safe position stays, and the next number goes up by one.
\<close>

theorem buffered_next_consecutive:
  assumes "aligned nextBatchPos fallbackBatchPos b" and "source_ok e (inner b)"
    and "nextBatchPos (inner b) \<noteq> MaxUint64"
  shows "\<exists>r b' w'. Next_buffered (batch_streamer e) b w = Some (r, b', w')
    \<and> source_ok e (inner b') \<and> aligned nextBatchPos fallbackBatchPos b'
    \<and> startingBatchPos b' = startingBatchPos b
    \<and> (case r of None \<Rightarrow> next_number b' = next_number b
       | Some x \<Rightarrow> unat (Number x) = next_number b \<and> next_number b' = next_number b + 1)"
  by (rule op.Next_buffered_aligned [OF assms])

lemma buffered_next_consecutive_witness:
  "\<exists>r b' w'. Next_buffered (batch_streamer sample_env) sample_buffered sample_world = Some (r, b', w')
    \<and> startingBatchPos b' = 0"
  using buffered_next_consecutive [OF sample_aligned, of sample_env sample_world]
    sample_source_ok [OF sample_env_lru] by auto

text \<open>
  \<open>Refresh\<close> advances the safe position without the consumer noticing. When the safe L1
  origin does not move back, and unless the inner streamer rewinds under a non-empty
  window, an aligned state stays aligned, the window starts right behind the new safe
  batch, and the next number is what it was, or the one after the safe batch if that is
  later; a safe batch below the old one restarts right behind it.
\<close>

theorem buffered_refresh_transparent:
  assumes "aligned nextBatchPos fallbackBatchPos b" and "source_ok e (inner b)"
    and "Refresh_buffered (batch_streamer e) l1 safe o1 b w = (err, b', w')"
    and "bid_number (currentSafeL1Origin b) \<le> bid_number o1" and "safe \<noteq> MaxUint64"
    and "window b' \<noteq> [] \<Longrightarrow> nextBatchPos (inner b') = nextBatchPos (inner b)"
  shows "aligned nextBatchPos fallbackBatchPos b' \<and> source_ok e (inner b') \<and> startingBatchPos b' = safe
    \<and> next_number b' = (if safe < startingBatchPos b then unat safe + 1 else max (next_number b) (unat safe + 1))"
  by (rule op.Refresh_buffered_aligned [OF assms])

lemma buffered_refresh_transparent_witness:
  "\<exists>err b' w'. Refresh_buffered (batch_streamer sample_env) sample_l1 2 \<lparr>bid_hash = 7, bid_number = 1\<rparr>
      sample_buffered sample_world = (err, b', w') \<and> aligned nextBatchPos fallbackBatchPos b' \<and> next_number b' = 3"
proof -
  obtain err b' w' where run: "Refresh_buffered (batch_streamer sample_env) sample_l1 2 \<lparr>bid_hash = 7, bid_number = 1\<rparr>
      sample_buffered sample_world = (err, b', w')"
    by (cases "Refresh_buffered (batch_streamer sample_env) sample_l1 2 \<lparr>bid_hash = 7, bid_number = 1\<rparr>
      sample_buffered sample_world")
  have "window b' = []"
    using Refresh_buffered_forward [OF run] handle_within [of sample_buffered 2 "batch_streamer sample_env"] sample_aligned
    by (auto simp: aligned_def)
  then show ?thesis
    using buffered_refresh_transparent [OF sample_aligned _ run] run sample_source_ok [OF sample_env_lru]
    by (simp add: sample_next_number)
qed

text \<open>
  The purpose of the wrapper: after \<open>Reset\<close>, the calls of \<open>Next\<close> give out the whole window
  again, in order, and neither the inner streamer nor anything outside is touched,
  whatever implementation lies below.
\<close>

theorem buffered_reset_replays:
  assumes "window_ok b"
  shows "next_many ops (length (window b)) (Reset_buffered b) w
    = Some (window b, b\<lparr>readPos := u64_len (window b)\<rparr>, w)"
  using next_many_unread [of "Reset_buffered b" "window b"] assms
  by (simp add: Reset_buffered_def window_ok_def unread_def)

lemma buffered_reset_replays_witness:
  "next_many (batch_streamer failing_env) (Suc (Suc 0)) (Reset_buffered (sample_buffered\<lparr>readPos := 2\<rparr>)) sample_world
    = Some ([sample_batch 1 11 0, sample_batch 2 12 0], sample_buffered\<lparr>readPos := 2\<rparr>, sample_world)"
  using buffered_reset_replays [of "sample_buffered\<lparr>readPos := 2\<rparr>" "batch_streamer failing_env" sample_world]
  by (simp add: window_ok_def del: next_many.simps)

text \<open>
  \<open>Peek\<close> of the buffered streamer returns, and announces exactly what \<open>Next\<close> gives out
  afterwards, even after the outside world changed in between.
\<close>

theorem buffered_peek_then_next:
  assumes "window_ok b" and "source_ok e (inner b)"
  shows "\<exists>r b' w'. Peek_buffered (batch_streamer e) b w = Some (r, b', w')
    \<and> (\<forall>x u. r = Some x \<longrightarrow> (\<exists>b'' u'. Next_buffered (batch_streamer e) b' u = Some (Some x, b'', u')))"
proof -
  have "\<exists>res. Peek_buffered (batch_streamer e) b w = Some res"
    using op.peek_loop_result [OF assms(2), of w] by (auto simp: Peek_buffered_def)
  then obtain r b' w' where run: "Peek_buffered (batch_streamer e) b w = Some (r, b', w')" by auto
  then show ?thesis using op.Peek_buffered_next [OF assms] by blast
qed

lemma buffered_peek_then_next_witness:
  "\<exists>r b' w'. Peek_buffered (batch_streamer sample_env) sample_buffered sample_world = Some (r, b', w')"
  using buffered_peek_then_next [of sample_buffered sample_env sample_world] sample_source_ok [OF sample_env_lru]
  by (auto simp: window_ok_def)

text \<open>
  A safe L1 origin that moves back loses the window for good when the inner streamer does
  not rewind, as when the light client cannot be reached: \<open>Refresh\<close> with the same safe batch
  then throws away every buffered batch, the inner streamer stays behind the last of them,
  and the next batch the consumer gets skips all it had not read (and a \<open>Reset\<close> replays nothing).
\<close>

theorem origin_rollback_skips:
  assumes "aligned nextBatchPos fallbackBatchPos b" and "source_ok e (inner b)"
    and "bid_number o1 < bid_number (currentSafeL1Origin b)"
    and "\<forall>w. \<exists>x w1. LightClientFinalizedState e (bid_number o1) w = (Inl x, w1)"
    and "Refresh_buffered (batch_streamer e) l1 (startingBatchPos b) o1 b w = (err, b', w')"
    and "Next_buffered (batch_streamer e) b' u = Some (Some x, b'', u')"
  shows "window b' = [] \<and> unat (Number x) = next_number b + length (unread b)"
proof -
  obtain y w1 where lc: "LightClientFinalizedState e (bid_number o1) w = (Inl y, w1)" using assms(4) by blast
  let ?s1 = "(inner b)\<lparr>fallbackHotShotPos := max (fallbackHotShotPos (inner b)) (originHotShotPos (inner b))\<rparr>"
  let ?b1 = "b\<lparr>currentSafeL1Origin := o1, startingBatchPos := 0, readPos := 0, window := []\<rparr>"
  have origin: "RefreshSafeL1Origin e o1 (inner b) w = (?s1, w1)"
    by (simp add: RefreshSafeL1Origin_def confirmEspressoBlockHeight_def lc)
  obtain s2 w2 where r: "Refresh e l1 (startingBatchPos b) o1 ?s1 w1 = (s2, w2)" by fastforce
  obtain s3 w3 where rb: "refresh_batcher e l1 (?s1\<lparr>FinalizedL1 := l1\<rparr>) w1 = (s3, w3)" by fastforce
  obtain a where s3: "s3 = ?s1\<lparr>FinalizedL1 := l1, espressoBatcher := a\<rparr>"
    using refresh_batcher_frame [OF rb] by auto
  obtain z w4 where lc2: "LightClientFinalizedState e (bid_number o1) w3 = (Inl z, w4)" using assms(4) by blast
  have "nextBatchPos s2 = nextBatchPos (inner b)"
    using r assms(1) by (auto simp: Refresh_def rb s3 RefreshSafeL1Origin_def confirmEspressoBlockHeight_def lc2
        refresh_positions_def aligned_def)
  moreover have ok2: "source_ok e s2"
  proof -
    have "source_ok e ?s1" using assms(2) by (simp add: source_ok_def streamer_ok_def)
    then show ?thesis using Refresh_ok [OF r] by (simp add: source_ok_def)
  qed
  moreover have b': "b' = ?b1\<lparr>inner := s2\<rparr>"
    using assms(3,5) r by (simp add: Refresh_buffered_def handle_same RefreshSafeL1Origin_buffered_def
        Let_def batch_streamer_def origin)
  moreover have "Number x = nextBatchPos s2"
    using op.Next_buffered_below [OF _ _ _ _ assms(6)] ok2 by (simp add: b' window_ok_def unread_def)
  ultimately show ?thesis using aligned_skip [OF assms(1)] by simp
qed

definition dark_env :: "(sample_world, (u64 \<times> l1_state) list, (hash \<times> u64) list) env" where
  "dark_env = sample_env\<lparr>LightClientFinalizedState := (\<lambda>n w. (Inl ''unreachable'', w))\<rparr>"

lemma sample_inner_next:
  assumes "state_lru e = alist_lru"
  shows "\<exists>s. Next e sample_inner w = (Some (sample_batch 3 15 0), s, w)"
proof -
  have "headBatch sample_inner = None" "nextBatchPos sample_inner = 3"
    "BatchBuffer sample_inner = \<lparr>batches = [sample_batch 3 15 0], buf_capacity = 1024\<rparr>"
    by (simp_all add: sample_inner_def)
  then have cand: "find_candidate sample_inner = Candidate (sample_batch 3 15 0)
      (sample_inner\<lparr>headBatch := Some (sample_batch 3 15 0), BatchBuffer := \<lparr>batches = [], buf_capacity = 1024\<rparr>\<rparr>)"
    by (simp add: find_candidate_def Peek_buf_def Pop_def)
  have "vouched e (sample_batch 3 15 0)
      (sample_inner\<lparr>headBatch := Some (sample_batch 3 15 0), BatchBuffer := \<lparr>batches = [], buf_capacity = 1024\<rparr>\<rparr>)"
    by (simp add: vouched_def assms sample_inner_def sample_consumed_def sample_defs zero_ref_def state_verdict_def)
  from vouched_CheckBatch [OF this, of w] obtain c where
    "CheckBatch e (sample_batch 3 15 0) (sample_inner\<lparr>headBatch := Some (sample_batch 3 15 0),
        BatchBuffer := \<lparr>batches = [], buf_capacity = 1024\<rparr>\<rparr>) w
      = (BatchAccept, sample_inner\<lparr>headBatch := Some (sample_batch 3 15 0),
        BatchBuffer := \<lparr>batches = [], buf_capacity = 1024\<rparr>, finalizedL1StateCache := c\<rparr>, w)"
    using assms alist_lru_lawful by auto
  then show ?thesis
    unfolding Next_def by (subst HasNext.simps) (simp add: cand Let_def)
qed

lemma sample_below_next:
  assumes "state_lru e = alist_lru" and "inner b = sample_inner" and "readPos b = u64_len (window b)"
    and "startingBatchPos b = 0"
  shows "\<exists>b'. Next_buffered (batch_streamer e) b w = Some (Some (sample_batch 3 15 0), b', w)"
proof -
  obtain s where "Next e sample_inner w = (Some (sample_batch 3 15 0), s, w)"
    using sample_inner_next [OF assms(1)] by blast
  then show ?thesis
    using assms(2-4) by (simp add: Next_buffered_def) (subst next_loop.simps, simp add: batch_streamer_def)
qed

lemma origin_rollback_skips_witness:
  "\<exists>b'. Refresh_buffered (batch_streamer dark_env) sample_l1 0 \<lparr>bid_hash = 6, bid_number = 0\<rparr>
      sample_buffered sample_world = (None, b', sample_world)
    \<and> window b' = [] \<and> unat (Number (sample_batch 3 15 0)) = next_number sample_buffered + 2"
proof -
  let ?o = "\<lparr>bid_hash = 6, bid_number = 0\<rparr>"
  let ?b = "sample_buffered\<lparr>window := [], currentSafeL1Origin := ?o\<rparr>"
  have lru: "state_lru dark_env = alist_lru" by (simp add: dark_env_def sample_env_def)
  have lc: "LightClientFinalizedState dark_env n w = (Inl ''unreachable'', w)" for n w
    by (simp add: dark_env_def)
  have origin: "RefreshSafeL1Origin dark_env ?o sample_inner sample_world = (sample_inner, sample_world)"
    by (simp add: RefreshSafeL1Origin_def confirmEspressoBlockHeight_def lc)
      (simp add: sample_inner_def sample_consumed_def sample_defs)
  have "Refresh dark_env sample_l1 0 ?o sample_inner sample_world = (sample_inner, sample_world)"
    by (simp add: Refresh_def refresh_batcher_def RefreshSafeL1Origin_def confirmEspressoBlockHeight_def lc
        refresh_positions_def) (simp add: dark_env_def sample_inner_def sample_consumed_def sample_defs)
  then have run: "Refresh_buffered (batch_streamer dark_env) sample_l1 0 ?o sample_buffered sample_world
      = (None, ?b, sample_world)"
    by (simp add: Refresh_buffered_def handleL2PositionUpdate_def RefreshSafeL1Origin_buffered_def Let_def
        batch_streamer_def origin)
  obtain b'' where nxt: "Next_buffered (batch_streamer dark_env) ?b [] = Some (Some (sample_batch 3 15 0), b'', [])"
    using sample_below_next [OF lru, of ?b] by auto
  have "window ?b = [] \<and> unat (Number (sample_batch 3 15 0)) = next_number sample_buffered + length (unread sample_buffered)"
    by (rule origin_rollback_skips [OF sample_aligned _ _ _ _ nxt])
      (use run lc in \<open>simp_all add: sample_source_ok lru alist_lru_lawful\<close>)
  with run show ?thesis by (simp add: sample_next_number)
qed

text \<open>
  \<open>SetProperHead\<close> of the buffered streamer skips what the consumer has not read: it cuts
  the window at the read position, although its comment says it adjusts the read
  position, and the inner streamer keeps its position behind the window, so the next batch
  the consumer gets lies beyond all the batches that were cut.
\<close>

theorem buffered_set_proper_head_skips:
  assumes "aligned nextBatchPos fallbackBatchPos b" and "source_ok e (inner b)"
    and "SetProperHead_buffered (batch_streamer e) parentHash b = Some b'"
    and "Next_buffered (batch_streamer e) b' w = Some (Some x, b'', w')"
  shows "unread b' = [] \<and> unat (Number x) = next_number b + length (unread b)"
proof -
  have wok: "window_ok b" using assms(1) by (simp add: aligned_def)
  have b': "b' = b\<lparr>window := take (unat (readPos b)) (window b), inner := SetProperHead parentHash (inner b)\<rparr>"
    using assms(3) by (auto simp: SetProperHead_buffered_def go_slice_def batch_streamer_def split: if_splits)
  have un: "unread b' = []" by (simp add: b' unread_def)
  have pos: "nextBatchPos (SetProperHead parentHash (inner b)) = nextBatchPos (inner b)" and ok: "source_ok e (inner b')"
    using op.proper_head_keeps [OF assms(2), of parentHash] by (simp_all add: b' batch_streamer_def)
  have "window_ok b'" using wok by (simp add: b' window_ok_def)
  from op.Next_buffered_below [OF this un ok _ assms(4)] aligned_start_le [OF assms(1)]
  have "Number x = nextBatchPos (inner b)" by (simp add: pos b')
  then show ?thesis using un aligned_skip [OF assms(1)] by simp
qed

lemma buffered_set_proper_head_skips_witness:
  "\<exists>b'. SetProperHead_buffered (batch_streamer sample_env) 0 sample_buffered = Some b' \<and> unread b' = []
    \<and> unat (Number (sample_batch 3 15 0)) = next_number sample_buffered + 2"
proof -
  let ?b = "sample_buffered\<lparr>window := []\<rparr>"
  have "SetProperHead 0 sample_inner = sample_inner"
    by (simp add: SetProperHead_def sample_inner_def sample_consumed_def sample_defs)
  then have run: "SetProperHead_buffered (batch_streamer sample_env) 0 sample_buffered = Some ?b"
    by (simp add: SetProperHead_buffered_def go_slice_def batch_streamer_def)
  obtain b'' where nxt: "Next_buffered (batch_streamer sample_env) ?b [] = Some (Some (sample_batch 3 15 0), b'', [])"
    using sample_below_next [of sample_env ?b] by (auto simp: sample_env_def)
  have "unread ?b = [] \<and> unat (Number (sample_batch 3 15 0)) = next_number sample_buffered + length (unread sample_buffered)"
    by (rule buffered_set_proper_head_skips [OF sample_aligned _ run nxt])
      (simp add: sample_source_ok sample_env_lru)
  with run show ?thesis by (simp add: sample_next_number)
qed

text \<open>
  The buffered streamer never indexes or slices outside its window. In every state reached
  from a new one by any calls, over any implementation below, the read position is at most
  the length of the window, so \<open>SetProperHead\<close> does not panic and a read position below the
  length is an element.
\<close>

theorem buffered_never_out_of_range:
  assumes "(buffered_step ops)\<^sup>*\<^sup>* (NewBufferedEspressoStreamer s) b"
  shows "unat (readPos b) \<le> length (window b) \<and> SetProperHead_buffered ops h b \<noteq> None
    \<and> (readPos b < u64_len (window b) \<longrightarrow> unat (readPos b) < length (window b))"
proof -
  have "in_window b"
    using assms
  proof (induction rule: rtranclp_induct)
    case base
    then show ?case by (simp add: in_window_def NewBufferedEspressoStreamer_def)
  next
    case (step c d)
    then show ?case using buffered_step_in_window by blast
  qed
  then show ?thesis
    using u64_len_le [of "window b"]
    by (auto simp: in_window_def SetProperHead_buffered_def go_slice_def word_less_nat_alt)
qed

lemma buffered_never_out_of_range_witness:
  "\<exists>b. Next_buffered (batch_streamer sample_env) (NewBufferedEspressoStreamer sample_inner) []
      = Some (Some (sample_batch 3 15 0), b, []) \<and> SetProperHead_buffered (batch_streamer sample_env) 0 b \<noteq> None"
proof -
  obtain b where n: "Next_buffered (batch_streamer sample_env) (NewBufferedEspressoStreamer sample_inner) []
      = Some (Some (sample_batch 3 15 0), b, [])"
    using sample_below_next [of sample_env "NewBufferedEspressoStreamer sample_inner"]
    by (auto simp: sample_env_def NewBufferedEspressoStreamer_def)
  from buffered_step.intros(1) [OF n] buffered_never_out_of_range [of "batch_streamer sample_env" sample_inner b 0] n
  show ?thesis by blast
qed

end
