(* ===== verification/Espresso_Batch.thy ===== *)
theory Espresso_Batch
  imports Batch_Buffer
begin

text \<open>
  \<open>op/derivation/espresso_batch.go\<close>: the batch that travels through HotShot, its signed
  transaction format and its conversion from and to an L2 block. RLP, Keccak, the signature
  scheme, the transaction codec and the Optimism derivation functions are fields of the
  record \<open>derivation\<close>; a Go pointer that may be nil is an option, and a method that
  dereferences it returns \<open>None\<close> where Go panics.
\<close>

section \<open>Data\<close>

type_synonym lib_err = string          \<comment> \<open>an error of a library call, opaque\<close>

record 'h eth_header =                 \<comment> \<open>\<open>types.Header\<close>; \<open>eh_rest\<close> the fields nothing here reads\<close>
  eh_number :: "int option"
  eh_parent :: hash
  eh_time :: u64
  eh_rest :: 'h

record singular_batch =                \<comment> \<open>\<open>derive.SingularBatch\<close>\<close>
  sb_parent :: hash
  sb_epoch_num :: u64
  sb_epoch_hash :: hash
  sb_timestamp :: u64
  sb_transactions :: "bytes list"

record ('h, 'tx) espresso_batch =
  BatchHeader :: "'h eth_header option"
  SingularBatch :: singular_batch      \<comment> \<open>the field \<open>Batch\<close>\<close>
  L1InfoDeposit :: "'tx option"
  SignerAddress :: address

record ('h, 'tx) l2_block =            \<comment> \<open>\<open>types.Block\<close>\<close>
  blk_header :: "'h eth_header"
  blk_transactions :: "'tx list"

record l1_info =                       \<comment> \<open>\<open>derive.L1BlockInfo\<close>\<close>
  li_number :: u64
  li_hash :: hash

record espresso_transaction =          \<comment> \<open>\<open>espressoCommon.Transaction\<close>\<close>
  et_namespace :: u64
  et_payload :: bytes

record ('h, 'tx, 'k, 'cfg) derivation =
  SignatureLength :: nat
  rlp_encode :: "('h, 'tx) espresso_batch \<Rightarrow> lib_err + bytes"
  rlp_decode :: "bytes \<Rightarrow> lib_err + ('h, 'tx) espresso_batch"
  Keccak256 :: "bytes \<Rightarrow> hash"
  SigToPub :: "hash \<Rightarrow> bytes \<Rightarrow> lib_err + 'k"
  PubkeyToAddress :: "'k \<Rightarrow> address"
  header_hash :: "'h eth_header \<Rightarrow> hash"
  tx_hash :: "'tx \<Rightarrow> hash"
  tx_data :: "'tx \<Rightarrow> bytes"
  IsDepositTx :: "'tx \<Rightarrow> bool"
  tx_unmarshal :: "bytes \<Rightarrow> lib_err + 'tx"
  L1BlockInfoFromBytes :: "'cfg \<Rightarrow> u64 \<Rightarrow> bytes \<Rightarrow> lib_err + l1_info"
  BlockToSingularBatch :: "'cfg \<Rightarrow> ('h, 'tx) l2_block \<Rightarrow> lib_err + singular_batch"

datatype batch_error =
    EncodeFailed lib_err
  | SigningFailed lib_err
  | DataTooShort nat
  | SignatureInvalid lib_err
  | DecodeFailed lib_err
  | NumberMissing
  | NumberNotUint64 int
  | DepositMissing
  | NoTransactions
  | FirstNotDeposit
  | SingularFailed lib_err
  | HeaderMissing
  | L1InfoUnreadable lib_err
  | ParentHashMismatch
  | TimestampMismatch
  | EpochMismatch
  | TransactionUnreadable nat lib_err

section \<open>The Batch methods\<close>

text \<open>\<open>big.Int.Uint64\<close>: the low 64 bits of the absolute value.\<close>

definition big_Uint64 :: "int \<Rightarrow> u64" where
  "big_Uint64 n = of_int \<bar>n\<bar>"

definition IsUint64 :: "int \<Rightarrow> bool" where
  "IsUint64 n = (0 \<le> n \<and> n < 2 ^ 64)"

definition Number_espresso :: "('h, 'tx) espresso_batch \<Rightarrow> u64 option" where
  "Number_espresso b = Option.bind (BatchHeader b) (\<lambda>h. map_option big_Uint64 (eh_number h))"

definition Signer_espresso :: "('h, 'tx) espresso_batch \<Rightarrow> address" where
  "Signer_espresso b = SignerAddress b"

definition L1Origin_espresso :: "('h, 'tx) espresso_batch \<Rightarrow> block_id" where
  "L1Origin_espresso b =
    \<lparr>bid_hash = sb_epoch_hash (SingularBatch b), bid_number = sb_epoch_num (SingularBatch b)\<rparr>"

definition Header_espresso :: "('h, 'tx) espresso_batch \<Rightarrow> 'h eth_header option" where
  "Header_espresso b = BatchHeader b"

definition Hash_espresso ::
  "('h, 'tx, 'k, 'cfg) derivation \<Rightarrow> ('h, 'tx) espresso_batch \<Rightarrow> hash option" where
  "Hash_espresso D b =
    Option.bind (BatchHeader b) (\<lambda>h. Option.bind (L1InfoDeposit b) (\<lambda>t.
      Some (Keccak256 D (be_bytes 32 (header_hash D h) @ be_bytes 32 (tx_hash D t)))))"

text \<open>
  The batch as the streamer sees it: the answers of its five methods (and the two header
  fields the streamer reads); \<open>None\<close> when one of them panics.
\<close>

definition as_batch :: "('h, 'tx, 'k, 'cfg) derivation \<Rightarrow> ('h, 'tx) espresso_batch \<Rightarrow> batch option" where
  "as_batch D b =
    Option.bind (Number_espresso b) (\<lambda>n. Option.bind (Header_espresso b) (\<lambda>h.
    Option.bind (Hash_espresso D b) (\<lambda>x. Some
      \<lparr>Number = n, L1Origin = L1Origin_espresso b,
       Header = \<lparr>hdr_hash = header_hash D h, hdr_parent = eh_parent h\<rparr>,
       Hash = x, Signer = Signer_espresso b\<rparr>)))"

section \<open>The signed transaction\<close>

text \<open>The signer is an interface value: \<open>sign\<close> is its method on the hash.\<close>

definition ToEspressoTransaction ::
  "('h, 'tx, 'k, 'cfg) derivation \<Rightarrow> u64 \<Rightarrow> (hash \<Rightarrow> lib_err + bytes) \<Rightarrow> ('h, 'tx) espresso_batch
    \<Rightarrow> batch_error + espresso_transaction" where
  "ToEspressoTransaction D namespace sign b =
    (case rlp_encode D b of
       Inl err \<Rightarrow> Inl (EncodeFailed err)
     | Inr buf \<Rightarrow>
         (case sign (Keccak256 D buf) of
            Inl err \<Rightarrow> Inl (SigningFailed err)
          | Inr batcherSignature \<Rightarrow>
              Inr \<lparr>et_namespace = namespace, et_payload = batcherSignature @ buf\<rparr>))"

text \<open>The checks on the decoded batch; nil pointers and the range of the number.\<close>

definition validate_decoded :: "('h, 'tx) espresso_batch \<Rightarrow> batch_error + ('h, 'tx) espresso_batch" where
  "validate_decoded b =
    (case BatchHeader b of
       None \<Rightarrow> Inl NumberMissing
     | Some h \<Rightarrow>
         (case eh_number h of
            None \<Rightarrow> Inl NumberMissing
          | Some n \<Rightarrow>
              if \<not> IsUint64 n then Inl (NumberNotUint64 n)
              else if L1InfoDeposit b = None then Inl DepositMissing
              else Inr b))"

text \<open>The two slices of the data are in range after the length check; \<open>None\<close> would be a panic.\<close>

definition UnmarshalEspressoTransaction ::
  "('h, 'tx, 'k, 'cfg) derivation \<Rightarrow> bytes \<Rightarrow> (batch_error + ('h, 'tx) espresso_batch) option" where
  "UnmarshalEspressoTransaction D data =
    (if length data < SignatureLength D then Some (Inl (DataTooShort (length data)))
     else
       Option.bind (go_slice data 0 (SignatureLength D)) (\<lambda>signatureData.
       Option.bind (go_slice data (SignatureLength D) (length data)) (\<lambda>batchData. Some
         (case SigToPub D (Keccak256 D batchData) signatureData of
            Inl err \<Rightarrow> Inl (SignatureInvalid err)
          | Inr signerKey \<Rightarrow>
              (case rlp_decode D batchData of
                 Inl err \<Rightarrow> Inl (DecodeFailed err)
               | Inr b \<Rightarrow> validate_decoded (b\<lparr>SignerAddress := PubkeyToAddress D signerKey\<rparr>))))))"

definition CreateEspressoBatchUnmarshaler ::
  "('h, 'tx, 'k, 'cfg) derivation \<Rightarrow> bytes \<Rightarrow> (batch_error + ('h, 'tx) espresso_batch) option" where
  "CreateEspressoBatchUnmarshaler D = (\<lambda>data. UnmarshalEspressoTransaction D data)"

section \<open>From and to a block\<close>

definition BlockToEspressoBatch ::
  "('h, 'tx, 'k, 'cfg) derivation \<Rightarrow> 'cfg \<Rightarrow> ('h, 'tx) l2_block \<Rightarrow> batch_error + ('h, 'tx) espresso_batch" where
  "BlockToEspressoBatch D rollupCfg blk =
    (case blk_transactions blk of
       [] \<Rightarrow> Inl NoTransactions
     | l1InfoDeposit # _ \<Rightarrow>
         if \<not> IsDepositTx D l1InfoDeposit then Inl FirstNotDeposit
         else
           (case BlockToSingularBatch D rollupCfg blk of
              Inl err \<Rightarrow> Inl (SingularFailed err)
            | Inr sb \<Rightarrow> Inr
                \<lparr>BatchHeader = Some (blk_header blk), SingularBatch = sb,
                 L1InfoDeposit = Some l1InfoDeposit, SignerAddress = 0\<rparr>))"

text \<open>The decoding loop of \<open>ToBlock\<close>, with the index that goes into the error.\<close>

fun decode_transactions ::
  "('h, 'tx, 'k, 'cfg) derivation \<Rightarrow> nat \<Rightarrow> bytes list \<Rightarrow> batch_error + 'tx list" where
  "decode_transactions D i [] = Inr []"
| "decode_transactions D i (opaqueTx # rest) =
    (case tx_unmarshal D opaqueTx of
       Inl err \<Rightarrow> Inl (TransactionUnreadable i err)
     | Inr tx \<Rightarrow> bind_res (decode_transactions D (Suc i) rest) (\<lambda>txs. Inr (tx # txs)))"

definition ToBlock ::
  "('h, 'tx, 'k, 'cfg) derivation \<Rightarrow> 'cfg \<Rightarrow> ('h, 'tx) espresso_batch \<Rightarrow> batch_error + ('h, 'tx) l2_block" where
  "ToBlock D rollupCfg b =
    (case BatchHeader b of
       None \<Rightarrow> Inl HeaderMissing
     | Some h \<Rightarrow>
         (case L1InfoDeposit b of
            None \<Rightarrow> Inl FirstNotDeposit
          | Some deposit \<Rightarrow>
              if \<not> IsDepositTx D deposit then Inl FirstNotDeposit
              else
                (case L1BlockInfoFromBytes D rollupCfg (eh_time h) (tx_data D deposit) of
                   Inl err \<Rightarrow> Inl (L1InfoUnreadable err)
                 | Inr l1Info \<Rightarrow>
                     if sb_parent (SingularBatch b) \<noteq> eh_parent h then Inl ParentHashMismatch
                     else if sb_timestamp (SingularBatch b) \<noteq> eh_time h then Inl TimestampMismatch
                     else if sb_epoch_num (SingularBatch b) \<noteq> li_number l1Info
                       \<or> sb_epoch_hash (SingularBatch b) \<noteq> li_hash l1Info then Inl EpochMismatch
                     else
                       bind_res (decode_transactions D 0 (sb_transactions (SingularBatch b)))
                         (\<lambda>txs. Inr \<lparr>blk_header = h, blk_transactions = deposit # txs\<rparr>))))"

section \<open>What unmarshalling guarantees\<close>

lemma big_Uint64_exact: "IsUint64 n \<Longrightarrow> uint (big_Uint64 n) = n"
  by (simp add: big_Uint64_def IsUint64_def take_bit_int_eq_self uint_word_of_int_eq)

lemma validate_decoded_Inr [result_inv]:
  "validate_decoded b = Inr b' \<longleftrightarrow>
    b' = b \<and> (\<exists>h n. BatchHeader b = Some h \<and> eh_number h = Some n \<and> IsUint64 n) \<and> L1InfoDeposit b \<noteq> None"
  by (auto simp: validate_decoded_def split: option.splits if_splits)

lemma validate_decoded_fields:
  "validate_decoded b = Inr b' \<Longrightarrow> b' = b"
  by (simp add: validate_decoded_Inr)

lemma unmarshal_unfold:
  "UnmarshalEspressoTransaction D data =
    (if length data < SignatureLength D then Some (Inl (DataTooShort (length data)))
     else Some
       (case SigToPub D (Keccak256 D (drop (SignatureLength D) data)) (take (SignatureLength D) data) of
          Inl err \<Rightarrow> Inl (SignatureInvalid err)
        | Inr signerKey \<Rightarrow>
            (case rlp_decode D (drop (SignatureLength D) data) of
               Inl err \<Rightarrow> Inl (DecodeFailed err)
             | Inr b \<Rightarrow> validate_decoded (b\<lparr>SignerAddress := PubkeyToAddress D signerKey\<rparr>))))"
  by (simp add: UnmarshalEspressoTransaction_def go_slice_def)

lemma unmarshal_Inr:
  assumes "UnmarshalEspressoTransaction D data = Some (Inr b)"
  obtains k b0 where "SignatureLength D \<le> length data"
    and "SigToPub D (Keccak256 D (drop (SignatureLength D) data)) (take (SignatureLength D) data) = Inr k"
    and "rlp_decode D (drop (SignatureLength D) data) = Inr b0"
    and "b = b0\<lparr>SignerAddress := PubkeyToAddress D k\<rparr>"
    and "validate_decoded b = Inr b"
  using assms
  by (auto simp: unmarshal_unfold split: if_splits sum.splits dest: validate_decoded_fields)

lemma as_batch_defined:
  assumes "BatchHeader b = Some h" and "eh_number h = Some n" and "L1InfoDeposit b = Some t"
  shows "as_batch D b = Some
    \<lparr>Number = big_Uint64 n, L1Origin = L1Origin_espresso b,
     Header = \<lparr>hdr_hash = header_hash D h, hdr_parent = eh_parent h\<rparr>,
     Hash = Keccak256 D (be_bytes 32 (header_hash D h) @ be_bytes 32 (tx_hash D t)),
     Signer = SignerAddress b\<rparr>"
  using assms
  by (simp add: as_batch_def Number_espresso_def Header_espresso_def Hash_espresso_def Signer_espresso_def)

text \<open>
  C20. Unmarshalling never panics, whatever bytes were posted to the namespace, and a batch it
  returns answers every method of the interface without a nil dereference: its number is the
  number of its header, not a truncation of it, and its signer is the address recovered from
  the signature over the rest of the data, whatever signer the data itself claimed.
\<close>

theorem unmarshalled_batch_usable:
  "\<exists>r. UnmarshalEspressoTransaction D data = Some r \<and>
    (\<forall>b. r = Inr b \<longrightarrow>
      (\<exists>x h n k. as_batch D b = Some x \<and> BatchHeader b = Some h \<and> eh_number h = Some n
        \<and> int (unat (Number x)) = n
        \<and> SigToPub D (Keccak256 D (drop (SignatureLength D) data)) (take (SignatureLength D) data) = Inr k
        \<and> Signer x = PubkeyToAddress D k))"
proof -
  have "UnmarshalEspressoTransaction D data \<noteq> None" by (simp add: unmarshal_unfold)
  then obtain r where r: "UnmarshalEspressoTransaction D data = Some r" by blast
  have "\<exists>x h n k. as_batch D b = Some x \<and> BatchHeader b = Some h \<and> eh_number h = Some n
        \<and> int (unat (Number x)) = n
        \<and> SigToPub D (Keccak256 D (drop (SignatureLength D) data)) (take (SignatureLength D) data) = Inr k
        \<and> Signer x = PubkeyToAddress D k" if "r = Inr b" for b
  proof -
    from r that have "UnmarshalEspressoTransaction D data = Some (Inr b)" by simp
    then show ?thesis
    proof (cases rule: unmarshal_Inr)
      case (1 k b0)
      from 1(5) obtain h n t where
        h: "BatchHeader b = Some h" "eh_number h = Some n" "IsUint64 n" "L1InfoDeposit b = Some t"
        by (auto simp: validate_decoded_Inr)
      have "SignerAddress b = PubkeyToAddress D k" using 1(4) by simp
      with as_batch_defined [OF h(1,2,4), of D] h 1(2) show ?thesis
        by (simp add: big_Uint64_exact [OF h(3)])
    qed
  qed
  with r show ?thesis by blast
qed

section \<open>Round trips\<close>

lemma transaction_unmarshals:
  assumes "ToEspressoTransaction D namespace sign b = Inr tx"
    and "\<And>buf. rlp_encode D b = Inr buf \<Longrightarrow> rlp_decode D buf = Inr b"
    and "\<And>h sg. sign h = Inr sg \<Longrightarrow> length sg = SignatureLength D \<and> SigToPub D h sg = Inr key"
    and "BatchHeader b = Some h" "eh_number h = Some n" "IsUint64 n" "L1InfoDeposit b \<noteq> None"
  shows "et_namespace tx = namespace
    \<and> CreateEspressoBatchUnmarshaler D (et_payload tx)
        = Some (Inr (b\<lparr>SignerAddress := PubkeyToAddress D key\<rparr>))"
proof -
  from assms(1) obtain buf sg where buf: "rlp_encode D b = Inr buf"
    and sg: "sign (Keccak256 D buf) = Inr sg"
    and tx: "tx = \<lparr>et_namespace = namespace, et_payload = sg @ buf\<rparr>"
    by (auto simp: ToEspressoTransaction_def split: sum.splits)
  from assms(3) [OF sg] have "length sg = SignatureLength D" "SigToPub D (Keccak256 D buf) sg = Inr key"
    by simp_all
  with assms(2) [OF buf] assms(4-7) show ?thesis
    by (auto simp: tx CreateEspressoBatchUnmarshaler_def unmarshal_unfold validate_decoded_def)
qed

text \<open>
  C26. What a batcher sends is what a streamer decodes. If RLP decodes its own encoding of the
  batch and the signer returns a signature of the fixed length from which the batcher's key
  is recovered, then the payload of \<open>ToEspressoTransaction\<close> unmarshals to the same batch with
  the batcher's address as its signer.
\<close>

theorem espresso_transaction_roundtrip:
  assumes "ToEspressoTransaction D namespace sign b = Inr tx"
    and "\<And>buf. rlp_encode D b = Inr buf \<Longrightarrow> rlp_decode D buf = Inr b"
    and "\<And>h sg. sign h = Inr sg \<Longrightarrow> length sg = SignatureLength D \<and> SigToPub D h sg = Inr key"
    and "BatchHeader b = Some h" "eh_number h = Some n" "IsUint64 n" "L1InfoDeposit b \<noteq> None"
  shows "et_namespace tx = namespace
    \<and> CreateEspressoBatchUnmarshaler D (et_payload tx)
        = Some (Inr (b\<lparr>SignerAddress := PubkeyToAddress D key\<rparr>))"
  using transaction_unmarshals [OF assms] .

section \<open>Blocks\<close>

text \<open>
  What \<open>derive.BlockToSingularBatch\<close> documents: the batch of a block copies its parent hash
  and time, takes its epoch from the L1 information in the first transaction, and holds the
  encodings of the transactions that are not deposits.
\<close>

definition batch_of_block ::
  "('h, 'tx, 'k, 'cfg) derivation \<Rightarrow> 'cfg \<Rightarrow> ('h, 'tx) l2_block \<Rightarrow> singular_batch \<Rightarrow> bool" where
  "batch_of_block D cfg blk sb =
    (sb_parent sb = eh_parent (blk_header blk) \<and> sb_timestamp sb = eh_time (blk_header blk)
     \<and> blk_transactions blk \<noteq> []
     \<and> L1BlockInfoFromBytes D cfg (eh_time (blk_header blk)) (tx_data D (hd (blk_transactions blk)))
         = Inr \<lparr>li_number = sb_epoch_num sb, li_hash = sb_epoch_hash sb\<rparr>
     \<and> map (tx_unmarshal D) (sb_transactions sb)
         = map Inr (filter (\<lambda>t. \<not> IsDepositTx D t) (blk_transactions blk)))"

lemma map_eq_unique:
  "map f xs = map f ys \<Longrightarrow> (\<And>x y. y \<in> set ys \<Longrightarrow> f x = f y \<Longrightarrow> x = y) \<Longrightarrow> xs = ys"
proof (induction xs arbitrary: ys)
  case Nil
  then show ?case by simp
next
  case (Cons x xs)
  from Cons.prems(1) obtain y zs where "ys = y # zs" "f x = f y" "map f xs = map f zs"
    by (auto simp: map_eq_Cons_conv Cons_eq_map_conv)
  with Cons.IH [of zs] Cons.prems(2) show ?case by simp
qed

lemma decode_transactions_Inr [result_inv]:
  "decode_transactions D i ops = Inr txs \<longleftrightarrow> map (tx_unmarshal D) ops = map Inr txs"
proof (induction ops arbitrary: i txs)
  case Nil
  show ?case by auto
next
  case (Cons opq ops)
  show ?case
  proof (cases "tx_unmarshal D opq")
    case (Inl err)
    then show ?thesis by (cases txs) simp_all
  next
    case (Inr tx)
    then show ?thesis by (cases txs) (auto simp: bind_res_Inr_iff Cons.IH)
  qed
qed

lemma ToBlock_Inr:
  "ToBlock D cfg b = Inr blk \<longleftrightarrow>
    (\<exists>h deposit l1 txs. BatchHeader b = Some h \<and> L1InfoDeposit b = Some deposit
      \<and> IsDepositTx D deposit
      \<and> L1BlockInfoFromBytes D cfg (eh_time h) (tx_data D deposit) = Inr l1
      \<and> sb_parent (SingularBatch b) = eh_parent h \<and> sb_timestamp (SingularBatch b) = eh_time h
      \<and> sb_epoch_num (SingularBatch b) = li_number l1 \<and> sb_epoch_hash (SingularBatch b) = li_hash l1
      \<and> map (tx_unmarshal D) (sb_transactions (SingularBatch b)) = map Inr txs
      \<and> blk = \<lparr>blk_header = h, blk_transactions = deposit # txs\<rparr>)"
  by (auto simp: ToBlock_def bind_res_Inr_iff decode_transactions_Inr split: option.splits sum.splits if_splits)

lemma BlockToEspressoBatch_Inr:
  "BlockToEspressoBatch D cfg blk = Inr b \<longleftrightarrow>
    (\<exists>deposit rest sb. blk_transactions blk = deposit # rest \<and> IsDepositTx D deposit
      \<and> BlockToSingularBatch D cfg blk = Inr sb
      \<and> b = \<lparr>BatchHeader = Some (blk_header blk), SingularBatch = sb,
             L1InfoDeposit = Some deposit, SignerAddress = 0\<rparr>)"
  by (auto simp: BlockToEspressoBatch_def split: list.splits sum.splits if_splits)

text \<open>
  A block turned into a batch and back is the block again: same header, the L1 info
  deposit first, then the other transactions in their order. Only deposits after the first
  transaction are lost, because the batch format has no place for them.
\<close>

theorem block_batch_block:
  assumes "BlockToEspressoBatch D cfg blk = Inr b"
    and "\<And>sb. BlockToSingularBatch D cfg blk = Inr sb \<Longrightarrow> batch_of_block D cfg blk sb"
  shows "ToBlock D cfg b = Inr
    \<lparr>blk_header = blk_header blk,
     blk_transactions = hd (blk_transactions blk)
       # filter (\<lambda>t. \<not> IsDepositTx D t) (tl (blk_transactions blk))\<rparr>"
proof -
  from assms(1) obtain deposit rest sb where txs: "blk_transactions blk = deposit # rest"
    and dep: "IsDepositTx D deposit" and sb: "BlockToSingularBatch D cfg blk = Inr sb"
    and b: "b = \<lparr>BatchHeader = Some (blk_header blk), SingularBatch = sb,
             L1InfoDeposit = Some deposit, SignerAddress = 0\<rparr>"
    by (auto simp: BlockToEspressoBatch_Inr)
  from assms(2) [OF sb] txs dep show ?thesis
    by (simp add: ToBlock_Inr batch_of_block_def b)
qed

text \<open>
  What \<open>ToBlock\<close> checks up front makes its block one that batches again: the library's
  batch of the block it returns can only be the batch it was built from, header and deposit
  included, provided no transaction in the batch is itself a deposit. So the channel manager
  encodes what the sequencer signed.
\<close>

theorem batch_block_batch:
  assumes "ToBlock D cfg b = Inr blk"
    and "\<And>bs t. bs \<in> set (sb_transactions (SingularBatch b)) \<Longrightarrow> tx_unmarshal D bs = Inr t
      \<Longrightarrow> \<not> IsDepositTx D t"
    and "\<And>bs bs' t. tx_unmarshal D bs = Inr t \<Longrightarrow> tx_unmarshal D bs' = Inr t \<Longrightarrow> bs = bs'"
    and "BlockToSingularBatch D cfg blk = Inr sb" and "batch_of_block D cfg blk sb"
  shows "BlockToEspressoBatch D cfg blk = Inr (b\<lparr>SignerAddress := 0\<rparr>)"
proof -
  from assms(1) obtain h deposit l1 txs where
    b: "BatchHeader b = Some h" "L1InfoDeposit b = Some deposit" "IsDepositTx D deposit"
      "L1BlockInfoFromBytes D cfg (eh_time h) (tx_data D deposit) = Inr l1"
      "sb_parent (SingularBatch b) = eh_parent h" "sb_timestamp (SingularBatch b) = eh_time h"
      "sb_epoch_num (SingularBatch b) = li_number l1" "sb_epoch_hash (SingularBatch b) = li_hash l1"
    and txs: "map (tx_unmarshal D) (sb_transactions (SingularBatch b)) = map Inr txs"
    and blk: "blk = \<lparr>blk_header = h, blk_transactions = deposit # txs\<rparr>"
    unfolding ToBlock_Inr by blast
  have "\<not> IsDepositTx D t" if "t \<in> set txs" for t
  proof -
    from that have "Inr t \<in> set (map (tx_unmarshal D) (sb_transactions (SingularBatch b)))"
      by (simp add: txs)
    then show ?thesis using assms(2) by fastforce
  qed
  then have "filter (\<lambda>t. \<not> IsDepositTx D t) txs = txs" by (simp add: filter_id_conv)
  with assms(5) b blk txs
  have "map (tx_unmarshal D) (sb_transactions sb) = map (tx_unmarshal D) (sb_transactions (SingularBatch b))"
    by (simp add: batch_of_block_def)
  moreover have "\<exists>t. tx_unmarshal D bs = Inr t" if "bs \<in> set (sb_transactions (SingularBatch b))" for bs
  proof -
    from that have "tx_unmarshal D bs \<in> set (map Inr txs)"
      unfolding txs [symmetric] by simp
    then show ?thesis by auto
  qed
  ultimately have "sb_transactions sb = sb_transactions (SingularBatch b)"
    using assms(3) by (intro map_eq_unique [where f = "tx_unmarshal D"]) metis+
  with assms(5) b blk have "sb = SingularBatch b"
    by (auto simp: batch_of_block_def)
  with assms(4) b blk show ?thesis
    by (cases b) (simp add: BlockToEspressoBatch_Inr)
qed

section \<open>A concrete derivation library\<close>

text \<open>
  One instance of the library functions, for evaluating the theorems: a transaction is its
  own bytes, a deposit starts with byte 126, one key signs everything, and RLP knows the
  encoding of one batch.
\<close>

definition sample_block :: "(unit, bytes) l2_block" where
  "sample_block =
    \<lparr>blk_header = \<lparr>eh_number = Some 5, eh_parent = 8, eh_time = 70, eh_rest = ()\<rparr>,
     blk_transactions = [[126, 1, 1], [2, 2], [126, 3], [4]]\<rparr>"

definition sample_espresso_batch :: "(unit, bytes) espresso_batch" where
  "sample_espresso_batch =
    \<lparr>BatchHeader = Some \<lparr>eh_number = Some 5, eh_parent = 8, eh_time = 70, eh_rest = ()\<rparr>,
     SingularBatch = \<lparr>sb_parent = 8, sb_epoch_num = 3, sb_epoch_hash = 9, sb_timestamp = 70,
                      sb_transactions = [[2, 2], [4]]\<rparr>,
     L1InfoDeposit = Some [126, 1, 1], SignerAddress = 0\<rparr>"

definition sample_derivation :: "(unit, bytes, address, unit) derivation" where
  "sample_derivation =
    \<lparr>SignatureLength = 65,
     rlp_encode = (\<lambda>b. if b = sample_espresso_batch then Inr [1, 2, 3] else Inl ''rlp''),
     rlp_decode = (\<lambda>bs. if bs = [1, 2, 3] then Inr sample_espresso_batch else Inl ''rlp''),
     Keccak256 = (\<lambda>bs. of_nat (length bs)),
     SigToPub = (\<lambda>h sg. if sg = replicate 65 7 then Inr 42 else Inl ''signature''),
     PubkeyToAddress = (\<lambda>k. k),
     header_hash = (\<lambda>h. eh_parent h + 1),
     tx_hash = (\<lambda>t. of_nat (length t)),
     tx_data = (\<lambda>t. t),
     IsDepositTx = (\<lambda>t. take 1 t = [126]),
     tx_unmarshal = (\<lambda>bs. if bs = [] then Inl ''empty'' else Inr bs),
     L1BlockInfoFromBytes =
       (\<lambda>_ _ bs. if length bs < 3 then Inl ''short'' else Inr \<lparr>li_number = of_nat (length bs), li_hash = 9\<rparr>),
     BlockToSingularBatch =
       (\<lambda>_ blk. case blk_transactions blk of
          [] \<Rightarrow> Inl ''empty''
        | t # _ \<Rightarrow>
            if length t < 3 then Inl ''short''
            else Inr
              \<lparr>sb_parent = eh_parent (blk_header blk), sb_epoch_num = of_nat (length t),
               sb_epoch_hash = 9, sb_timestamp = eh_time (blk_header blk),
               sb_transactions = filter (\<lambda>t. \<not> take 1 t = [126]) (blk_transactions blk)\<rparr>)\<rparr>"

lemmas sample_derivation_defs = sample_derivation_def sample_espresso_batch_def sample_block_def

lemma sample_derivation_unmarshal:
  "UnmarshalEspressoTransaction sample_derivation (replicate 65 7 @ [1, 2, 3])
    = Some (Inr (sample_espresso_batch\<lparr>SignerAddress := 42\<rparr>))"
  by (simp add: unmarshal_unfold validate_decoded_def IsUint64_def sample_derivation_defs)

theorem unmarshalled_batch_usable_witness:
  "\<exists>x. as_batch sample_derivation (sample_espresso_batch\<lparr>SignerAddress := 42\<rparr>) = Some x
    \<and> int (unat (Number x)) = 5 \<and> Signer x = 42"
proof -
  have k: "PubkeyToAddress sample_derivation k = 42" if "SigToPub sample_derivation h sg = Inr k" for h sg k
    using that by (simp add: sample_derivation_def split: if_splits)
  have n: "eh_number h = Some 5"
    if "BatchHeader (sample_espresso_batch\<lparr>SignerAddress := 42\<rparr>) = Some h" for h
    using that by (auto simp: sample_espresso_batch_def)
  from unmarshalled_batch_usable [of sample_derivation "replicate 65 7 @ [1, 2, 3]"]
  obtain x h n k' where "as_batch sample_derivation (sample_espresso_batch\<lparr>SignerAddress := 42\<rparr>) = Some x"
    and "BatchHeader (sample_espresso_batch\<lparr>SignerAddress := 42\<rparr>) = Some h"
    and "eh_number h = Some n" "int (unat (Number x)) = n"
    and "Signer x = PubkeyToAddress sample_derivation k'"
    and "PubkeyToAddress sample_derivation k' = 42"
    unfolding sample_derivation_unmarshal using k by (elim exE conjE) (drule option.inject [THEN iffD1], blast)
  with n show ?thesis by auto
qed

theorem espresso_transaction_roundtrip_witness:
  "CreateEspressoBatchUnmarshaler sample_derivation (replicate 65 7 @ [1, 2, 3])
    = Some (Inr (sample_espresso_batch\<lparr>SignerAddress := 42\<rparr>))"
proof -
  have "ToEspressoTransaction sample_derivation 1 (\<lambda>_. Inr (replicate 65 7)) sample_espresso_batch
    = Inr \<lparr>et_namespace = 1, et_payload = replicate 65 7 @ [1, 2, 3]\<rparr>"
    by (simp add: ToEspressoTransaction_def sample_derivation_def)
  from espresso_transaction_roundtrip [OF this, where key = 42 and n = 5] show ?thesis
    by (simp add: sample_derivation_defs IsUint64_def)
qed

theorem block_batch_block_witness:
  "ToBlock sample_derivation () sample_espresso_batch
    = Inr (sample_block\<lparr>blk_transactions := [[126, 1, 1], [2, 2], [4]]\<rparr>)"
proof -
  have "BlockToEspressoBatch sample_derivation () sample_block = Inr sample_espresso_batch"
    by (simp add: BlockToEspressoBatch_def sample_derivation_defs)
  from block_batch_block [OF this] show ?thesis
    by (simp add: batch_of_block_def sample_derivation_defs)
qed

theorem batch_block_batch_witness:
  "BlockToEspressoBatch sample_derivation () (sample_block\<lparr>blk_transactions := [[126, 1, 1], [2, 2], [4]]\<rparr>)
    = Inr sample_espresso_batch"
proof -
  let ?blk = "sample_block\<lparr>blk_transactions := [[126, 1, 1], [2, 2], [4]]\<rparr>"
  have "ToBlock sample_derivation () sample_espresso_batch = Inr ?blk"
    by (simp add: ToBlock_def sample_derivation_defs)
  moreover have "BlockToSingularBatch sample_derivation () ?blk = Inr (SingularBatch sample_espresso_batch)"
    by (simp add: sample_derivation_defs)
  moreover have "batch_of_block sample_derivation () ?blk (SingularBatch sample_espresso_batch)"
    by (simp add: batch_of_block_def sample_derivation_defs)
  ultimately have "BlockToEspressoBatch sample_derivation () ?blk
      = Inr (sample_espresso_batch\<lparr>SignerAddress := 0\<rparr>)"
    by (intro batch_block_batch) (auto simp: sample_derivation_defs split: if_splits)
  then show ?thesis by (simp add: sample_espresso_batch_def)
qed

text \<open>
  The condition on deposits is needed: a batch whose transactions hold an encoded deposit
  passes every check of \<open>ToBlock\<close>, and batching its block again drops that transaction.
\<close>

lemma ToBlock_accepts_inner_deposit:
  fixes b :: "(unit, bytes) espresso_batch"
  assumes "b = sample_espresso_batch
    \<lparr>SingularBatch := (SingularBatch sample_espresso_batch)\<lparr>sb_transactions := [[2, 2], [126, 3]]\<rparr>\<rparr>"
  shows "\<exists>blk. ToBlock sample_derivation () b = Inr blk
    \<and> BlockToEspressoBatch sample_derivation () blk \<noteq> Inr b"
  by (simp add: assms ToBlock_def BlockToEspressoBatch_def sample_derivation_defs)

end
