(* ===== verification/Batch_Authenticator.thy ===== *)
theory Batch_Authenticator
  imports Prelude
begin

text \<open>
  \<open>op/bindings/batch_authenticator.go\<close>, the binding that abigen generated for the
  \<open>BatchAuthenticator\<close> contract: its ABI, the constructors and the read calls, of which the
  streamer uses two. The library behind it (package \<open>bind\<close>) is the record \<open>bind_lib\<close>: a
  call packs its arguments, runs the contract and unpacks the answer into interface values. The
  generated code picks one of them and converts it to a Go type, and panics when it is not
  there or of another type; \<open>None\<close> is that panic.
\<close>

section \<open>Values and types of the ABI\<close>

type_synonym bind_err = string         \<comment> \<open>an error of the library, opaque\<close>

datatype abi_type = TAddress | TBool | TUint nat | TString | TBytes | TBytes32 | TAddresses

text \<open>The Go values the library unpacks into, by their Go types.\<close>

datatype abi_value =
    AbiAddress address
  | AbiBool bool
  | AbiUint8 "8 word"
  | AbiUint32 "32 word"
  | AbiUint64 u64
  | AbiUint256 int                     \<comment> \<open>\<open>*big.Int\<close>\<close>
  | AbiString string
  | AbiBytes bytes
  | AbiBytes32 hash
  | AbiAddresses "address list"

fun abi_type_of :: "abi_value \<Rightarrow> abi_type" where
  "abi_type_of (AbiAddress a) = TAddress"
| "abi_type_of (AbiBool b) = TBool"
| "abi_type_of (AbiUint8 n) = TUint 8"
| "abi_type_of (AbiUint32 n) = TUint 32"
| "abi_type_of (AbiUint64 n) = TUint 64"
| "abi_type_of (AbiUint256 n) = TUint 256"
| "abi_type_of (AbiString s) = TString"
| "abi_type_of (AbiBytes bs) = TBytes"
| "abi_type_of (AbiBytes32 h) = TBytes32"
| "abi_type_of (AbiAddresses as) = TAddresses"

text \<open>\<open>abi.ConvertType(v, new(T))\<close>: assigns the value when it has the type \<open>T\<close>, else panics.\<close>

fun as_address :: "abi_value \<Rightarrow> address option" where
  "as_address (AbiAddress a) = Some a" | "as_address v = None"

fun as_bool :: "abi_value \<Rightarrow> bool option" where
  "as_bool (AbiBool b) = Some b" | "as_bool v = None"

fun as_uint8 :: "abi_value \<Rightarrow> 8 word option" where
  "as_uint8 (AbiUint8 n) = Some n" | "as_uint8 v = None"

fun as_uint64 :: "abi_value \<Rightarrow> u64 option" where
  "as_uint64 (AbiUint64 n) = Some n" | "as_uint64 v = None"

fun as_uint256 :: "abi_value \<Rightarrow> int option" where
  "as_uint256 (AbiUint256 n) = Some n" | "as_uint256 v = None"

fun as_string :: "abi_value \<Rightarrow> string option" where
  "as_string (AbiString s) = Some s" | "as_string v = None"

fun as_bytes32 :: "abi_value \<Rightarrow> hash option" where
  "as_bytes32 (AbiBytes32 h) = Some h" | "as_bytes32 v = None"

fun as_addresses :: "abi_value \<Rightarrow> address list option" where
  "as_addresses (AbiAddresses as) = Some as" | "as_addresses v = None"

section \<open>The ABI of the contract\<close>

record method_abi =
  m_name :: string
  m_inputs :: "abi_type list"
  m_outputs :: "abi_type list"

record event_abi =
  e_name :: string
  e_inputs :: "(string \<times> abi_type \<times> bool) list"   \<comment> \<open>name, type and the flag \<open>indexed\<close>\<close>

record contract_abi =
  abi_methods :: "method_abi list"
  abi_events :: "event_abi list"

abbreviation "method_abi n ins outs \<equiv> \<lparr>m_name = n, m_inputs = ins, m_outputs = outs\<rparr>"
abbreviation "event_abi n ins \<equiv> \<lparr>e_name = n, e_inputs = ins\<rparr>"

text \<open>The methods and events of the JSON text; the constructor and the errors are left out.\<close>

definition BatchAuthenticatorMetaData :: contract_abi where
  "BatchAuthenticatorMetaData = \<lparr>
    abi_methods =
    [method_abi ''acceptOwnership'' [] [],
     method_abi ''activeIsEspresso'' [] [TBool],
     method_abi ''addGuardian'' [TAddress] [],
     method_abi ''authenticateBatchInfo'' [TBytes32, TBytes] [],
     method_abi ''espressoBatcher'' [] [TAddress],
     method_abi ''espressoBatcherAt'' [TUint 32] [TAddress, TUint 64],
     method_abi ''espressoBatcherAtBlock'' [TUint 64] [TAddress],
     method_abi ''espressoBatcherHistoryLength'' [] [TUint 256],
     method_abi ''espressoTEEVerifier'' [] [TAddress],
     method_abi ''getGuardians'' [] [TAddresses],
     method_abi ''guardianCount'' [] [TUint 256],
     method_abi ''initVersion'' [] [TUint 8],
     method_abi ''initialize'' [TAddress, TAddress, TAddress, TAddress, TBool] [],
     method_abi ''isGuardian'' [TAddress] [TBool],
     method_abi ''nitroValidator'' [] [TAddress],
     method_abi ''owner'' [] [TAddress],
     method_abi ''pendingOwner'' [] [TAddress],
     method_abi ''proxyAdmin'' [] [TAddress],
     method_abi ''proxyAdminOwner'' [] [TAddress],
     method_abi ''registerSigner'' [TBytes, TBytes] [],
     method_abi ''removeGuardian'' [TAddress] [],
     method_abi ''renounceOwnership'' [] [],
     method_abi ''setActiveIsEspresso'' [TBool] [],
     method_abi ''setEspressoBatcher'' [TAddress] [],
     method_abi ''systemConfig'' [] [TAddress],
     method_abi ''transferOwnership'' [TAddress] [],
     method_abi ''version'' [] [TString]],
    abi_events =
    [event_abi ''BatchInfoAuthenticated'' [(''commitment'', TBytes32, False), (''caller'', TAddress, True)],
     event_abi ''BatcherSwitched'' [(''activeIsEspresso'', TBool, True)],
     event_abi ''EspressoBatcherUpdated''
       [(''oldEspressoBatcher'', TAddress, True), (''newEspressoBatcher'', TAddress, True), (''fromBlock'', TUint 64, True)],
     event_abi ''GuardianAdded'' [(''guardian'', TAddress, True)],
     event_abi ''GuardianRemoved'' [(''guardian'', TAddress, True)],
     event_abi ''Initialized'' [(''version'', TUint 64, False)],
     event_abi ''OwnershipTransferStarted'' [(''previousOwner'', TAddress, True), (''newOwner'', TAddress, True)],
     event_abi ''OwnershipTransferred'' [(''previousOwner'', TAddress, True), (''newOwner'', TAddress, True)],
     event_abi ''SignerRegistrationInitiated'' [(''caller'', TAddress, True)]]\<rparr>"

definition find_method :: "string \<Rightarrow> method_abi option" where
  "find_method n = find (\<lambda>m. m_name m = n) (abi_methods BatchAuthenticatorMetaData)"

section \<open>The library and the constructors\<close>

record call_opts =                     \<comment> \<open>\<open>bind.CallOpts\<close>: the block the call runs at, nil for the latest\<close>
  BlockNumber :: "u64 option"

record ('abi, 'b) bound_contract =     \<comment> \<open>what \<open>bind.NewBoundContract\<close> keeps; a backend may be nil\<close>
  bc_address :: address
  bc_abi :: 'abi
  bc_caller :: "'b option"
  bc_transactor :: "'b option"
  bc_filterer :: "'b option"

record ('abi, 'b, 'w) bind_lib =
  GetAbi :: "contract_abi \<Rightarrow> bind_err + 'abi"
  BoundContract_Call :: "('abi, 'b) bound_contract \<Rightarrow> call_opts \<Rightarrow> string \<Rightarrow> abi_value list \<Rightarrow> 'w
    \<Rightarrow> (bind_err + abi_value list) \<times> 'w"

record ('abi, 'b) batch_authenticator_caller =
  caller_contract :: "('abi, 'b) bound_contract"

record ('abi, 'b) batch_authenticator_transactor =
  transactor_contract :: "('abi, 'b) bound_contract"

record ('abi, 'b) batch_authenticator_filterer =
  filterer_contract :: "('abi, 'b) bound_contract"

record ('abi, 'b) batch_authenticator =
  BatchAuthenticatorCaller :: "('abi, 'b) batch_authenticator_caller"
  BatchAuthenticatorTransactor :: "('abi, 'b) batch_authenticator_transactor"
  BatchAuthenticatorFilterer :: "('abi, 'b) batch_authenticator_filterer"

definition bindBatchAuthenticator ::
  "('abi, 'b, 'w) bind_lib \<Rightarrow> address \<Rightarrow> 'b option \<Rightarrow> 'b option \<Rightarrow> 'b option
    \<Rightarrow> bind_err + ('abi, 'b) bound_contract" where
  "bindBatchAuthenticator lib addr caller transactor filterer =
    bind_res (GetAbi lib BatchAuthenticatorMetaData) (\<lambda>parsed. Inr
      \<lparr>bc_address = addr, bc_abi = parsed, bc_caller = caller, bc_transactor = transactor,
       bc_filterer = filterer\<rparr>)"

definition NewBatchAuthenticator_binding ::
  "('abi, 'b, 'w) bind_lib \<Rightarrow> address \<Rightarrow> 'b \<Rightarrow> bind_err + ('abi, 'b) batch_authenticator" where
  "NewBatchAuthenticator_binding lib addr backend =
    bind_res (bindBatchAuthenticator lib addr (Some backend) (Some backend) (Some backend)) (\<lambda>contract. Inr
      \<lparr>BatchAuthenticatorCaller = \<lparr>caller_contract = contract\<rparr>,
       BatchAuthenticatorTransactor = \<lparr>transactor_contract = contract\<rparr>,
       BatchAuthenticatorFilterer = \<lparr>filterer_contract = contract\<rparr>\<rparr>)"

definition NewBatchAuthenticatorCaller_binding ::
  "('abi, 'b, 'w) bind_lib \<Rightarrow> address \<Rightarrow> 'b \<Rightarrow> bind_err + ('abi, 'b) batch_authenticator_caller" where
  "NewBatchAuthenticatorCaller_binding lib addr caller =
    bind_res (bindBatchAuthenticator lib addr (Some caller) None None)
      (\<lambda>contract. Inr \<lparr>caller_contract = contract\<rparr>)"

definition NewBatchAuthenticatorTransactor_binding ::
  "('abi, 'b, 'w) bind_lib \<Rightarrow> address \<Rightarrow> 'b \<Rightarrow> bind_err + ('abi, 'b) batch_authenticator_transactor" where
  "NewBatchAuthenticatorTransactor_binding lib addr transactor =
    bind_res (bindBatchAuthenticator lib addr None (Some transactor) None)
      (\<lambda>contract. Inr \<lparr>transactor_contract = contract\<rparr>)"

definition NewBatchAuthenticatorFilterer_binding ::
  "('abi, 'b, 'w) bind_lib \<Rightarrow> address \<Rightarrow> 'b \<Rightarrow> bind_err + ('abi, 'b) batch_authenticator_filterer" where
  "NewBatchAuthenticatorFilterer_binding lib addr filterer =
    bind_res (bindBatchAuthenticator lib addr None None (Some filterer))
      (\<lambda>contract. Inr \<lparr>filterer_contract = contract\<rparr>)"

section \<open>The read calls\<close>

text \<open>\<open>*abi.ConvertType(out[i], new(T)).(*T)\<close>.\<close>

definition read_out :: "(abi_value \<Rightarrow> 'a option) \<Rightarrow> abi_value list \<Rightarrow> nat \<Rightarrow> 'a option" where
  "read_out conv out i = (if i < length out then conv (out ! i) else None)"

text \<open>The body that the read calls with one result share.\<close>

definition view_call ::
  "('abi, 'b, 'w) bind_lib \<Rightarrow> ('abi, 'b) batch_authenticator_caller \<Rightarrow> call_opts \<Rightarrow> string
    \<Rightarrow> abi_value list \<Rightarrow> (abi_value \<Rightarrow> 'a option) \<Rightarrow> 'w \<Rightarrow> (bind_err + 'a) option \<times> 'w" where
  "view_call lib c opts method params conv w =
    (case BoundContract_Call lib (caller_contract c) opts method params w of
       (Inl err, w) \<Rightarrow> (Some (Inl err), w)
     | (Inr out, w) \<Rightarrow> (map_option Inr (read_out conv out 0), w))"

definition ActiveIsEspresso_caller ::
  "('abi, 'b, 'w) bind_lib \<Rightarrow> ('abi, 'b) batch_authenticator_caller
    \<Rightarrow> call_opts \<Rightarrow> 'w \<Rightarrow> (bind_err + bool) option \<times> 'w" where
  "ActiveIsEspresso_caller lib c opts = view_call lib c opts ''activeIsEspresso'' [] as_bool"

definition EspressoBatcher_caller ::
  "('abi, 'b, 'w) bind_lib \<Rightarrow> ('abi, 'b) batch_authenticator_caller
    \<Rightarrow> call_opts \<Rightarrow> 'w \<Rightarrow> (bind_err + address) option \<times> 'w" where
  "EspressoBatcher_caller lib c opts = view_call lib c opts ''espressoBatcher'' [] as_address"

definition EspressoBatcherAt_caller ::
  "('abi, 'b, 'w) bind_lib \<Rightarrow> ('abi, 'b) batch_authenticator_caller
    \<Rightarrow> call_opts \<Rightarrow> 32 word \<Rightarrow> 'w \<Rightarrow> (bind_err + address \<times> u64) option \<times> 'w" where
  "EspressoBatcherAt_caller lib c opts index w =
    (case BoundContract_Call lib (caller_contract c) opts ''espressoBatcherAt'' [AbiUint32 index] w of
       (Inl err, w) \<Rightarrow> (Some (Inl err), w)
     | (Inr out, w) \<Rightarrow>
         (Option.bind (read_out as_address out 0) (\<lambda>batcher.
          Option.bind (read_out as_uint64 out 1) (\<lambda>fromBlock. Some (Inr (batcher, fromBlock)))), w))"

definition EspressoBatcherAtBlock_caller ::
  "('abi, 'b, 'w) bind_lib \<Rightarrow> ('abi, 'b) batch_authenticator_caller
    \<Rightarrow> call_opts \<Rightarrow> u64 \<Rightarrow> 'w \<Rightarrow> (bind_err + address) option \<times> 'w" where
  "EspressoBatcherAtBlock_caller lib c opts l1Block =
    view_call lib c opts ''espressoBatcherAtBlock'' [AbiUint64 l1Block] as_address"

definition EspressoBatcherHistoryLength_caller ::
  "('abi, 'b, 'w) bind_lib \<Rightarrow> ('abi, 'b) batch_authenticator_caller
    \<Rightarrow> call_opts \<Rightarrow> 'w \<Rightarrow> (bind_err + int) option \<times> 'w" where
  "EspressoBatcherHistoryLength_caller lib c opts =
    view_call lib c opts ''espressoBatcherHistoryLength'' [] as_uint256"

definition EspressoTEEVerifier_caller ::
  "('abi, 'b, 'w) bind_lib \<Rightarrow> ('abi, 'b) batch_authenticator_caller
    \<Rightarrow> call_opts \<Rightarrow> 'w \<Rightarrow> (bind_err + address) option \<times> 'w" where
  "EspressoTEEVerifier_caller lib c opts = view_call lib c opts ''espressoTEEVerifier'' [] as_address"

definition GetGuardians_caller ::
  "('abi, 'b, 'w) bind_lib \<Rightarrow> ('abi, 'b) batch_authenticator_caller
    \<Rightarrow> call_opts \<Rightarrow> 'w \<Rightarrow> (bind_err + address list) option \<times> 'w" where
  "GetGuardians_caller lib c opts = view_call lib c opts ''getGuardians'' [] as_addresses"

definition GuardianCount_caller ::
  "('abi, 'b, 'w) bind_lib \<Rightarrow> ('abi, 'b) batch_authenticator_caller
    \<Rightarrow> call_opts \<Rightarrow> 'w \<Rightarrow> (bind_err + int) option \<times> 'w" where
  "GuardianCount_caller lib c opts = view_call lib c opts ''guardianCount'' [] as_uint256"

definition InitVersion_caller ::
  "('abi, 'b, 'w) bind_lib \<Rightarrow> ('abi, 'b) batch_authenticator_caller
    \<Rightarrow> call_opts \<Rightarrow> 'w \<Rightarrow> (bind_err + 8 word) option \<times> 'w" where
  "InitVersion_caller lib c opts = view_call lib c opts ''initVersion'' [] as_uint8"

definition IsGuardian_caller ::
  "('abi, 'b, 'w) bind_lib \<Rightarrow> ('abi, 'b) batch_authenticator_caller
    \<Rightarrow> call_opts \<Rightarrow> address \<Rightarrow> 'w \<Rightarrow> (bind_err + bool) option \<times> 'w" where
  "IsGuardian_caller lib c opts account = view_call lib c opts ''isGuardian'' [AbiAddress account] as_bool"

definition NitroValidator_caller ::
  "('abi, 'b, 'w) bind_lib \<Rightarrow> ('abi, 'b) batch_authenticator_caller
    \<Rightarrow> call_opts \<Rightarrow> 'w \<Rightarrow> (bind_err + address) option \<times> 'w" where
  "NitroValidator_caller lib c opts = view_call lib c opts ''nitroValidator'' [] as_address"

definition Owner_caller ::
  "('abi, 'b, 'w) bind_lib \<Rightarrow> ('abi, 'b) batch_authenticator_caller
    \<Rightarrow> call_opts \<Rightarrow> 'w \<Rightarrow> (bind_err + address) option \<times> 'w" where
  "Owner_caller lib c opts = view_call lib c opts ''owner'' [] as_address"

definition PendingOwner_caller ::
  "('abi, 'b, 'w) bind_lib \<Rightarrow> ('abi, 'b) batch_authenticator_caller
    \<Rightarrow> call_opts \<Rightarrow> 'w \<Rightarrow> (bind_err + address) option \<times> 'w" where
  "PendingOwner_caller lib c opts = view_call lib c opts ''pendingOwner'' [] as_address"

definition ProxyAdmin_caller ::
  "('abi, 'b, 'w) bind_lib \<Rightarrow> ('abi, 'b) batch_authenticator_caller
    \<Rightarrow> call_opts \<Rightarrow> 'w \<Rightarrow> (bind_err + address) option \<times> 'w" where
  "ProxyAdmin_caller lib c opts = view_call lib c opts ''proxyAdmin'' [] as_address"

definition ProxyAdminOwner_caller ::
  "('abi, 'b, 'w) bind_lib \<Rightarrow> ('abi, 'b) batch_authenticator_caller
    \<Rightarrow> call_opts \<Rightarrow> 'w \<Rightarrow> (bind_err + address) option \<times> 'w" where
  "ProxyAdminOwner_caller lib c opts = view_call lib c opts ''proxyAdminOwner'' [] as_address"

definition SystemConfig_caller ::
  "('abi, 'b, 'w) bind_lib \<Rightarrow> ('abi, 'b) batch_authenticator_caller
    \<Rightarrow> call_opts \<Rightarrow> 'w \<Rightarrow> (bind_err + address) option \<times> 'w" where
  "SystemConfig_caller lib c opts = view_call lib c opts ''systemConfig'' [] as_address"

definition Version_caller ::
  "('abi, 'b, 'w) bind_lib \<Rightarrow> ('abi, 'b) batch_authenticator_caller
    \<Rightarrow> call_opts \<Rightarrow> 'w \<Rightarrow> (bind_err + string) option \<times> 'w" where
  "Version_caller lib c opts = view_call lib c opts ''version'' [] as_string"

section \<open>What the reads return\<close>

text \<open>
  The documented behaviour of \<open>BoundContract.Call\<close>: on a contract bound with this ABI, the
  answer of a method is unpacked into one value per output, of the type the ABI gives it.
\<close>

definition abi_typed :: "('abi, 'b, 'w) bind_lib \<Rightarrow> bool" where
  "abi_typed lib =
    (\<forall>c opts method params w out w'. GetAbi lib BatchAuthenticatorMetaData = Inr (bc_abi c) \<longrightarrow>
      BoundContract_Call lib c opts method params w = (Inr out, w') \<longrightarrow>
      (\<exists>m. find_method method = Some m \<and> map abi_type_of params = m_inputs m
        \<and> map abi_type_of out = m_outputs m))"

lemma abi_typedD:
  assumes "abi_typed lib" and "GetAbi lib BatchAuthenticatorMetaData = Inr (bc_abi c)"
    and "BoundContract_Call lib c opts method params w = (Inr out, w')" and "find_method method = Some m"
  shows "map abi_type_of out = m_outputs m"
  using assms unfolding abi_typed_def by (metis option.inject)

text \<open>
  A read decodes: it ends, with the error of the call, or with the value \<open>x\<close> exactly when
  the call of this method with these arguments answered the values \<open>enc x\<close>, and it leaves the
  world as the call does. \<open>decodes\<close> is the case of one value \<open>K x\<close>.
\<close>

definition decodes_as ::
  "('abi, 'b, 'w) bind_lib \<Rightarrow> ('abi, 'b) batch_authenticator_caller \<Rightarrow> call_opts \<Rightarrow> string
    \<Rightarrow> abi_value list \<Rightarrow> ('a \<Rightarrow> abi_value list) \<Rightarrow> ('w \<Rightarrow> (bind_err + 'a) option \<times> 'w) \<Rightarrow> bool" where
  "decodes_as lib c opts method params enc read =
    (\<forall>w. fst (read w) \<noteq> None
      \<and> (\<forall>x w'. read w = (Some (Inr x), w') \<longleftrightarrow>
           BoundContract_Call lib (caller_contract c) opts method params w = (Inr (enc x), w'))
      \<and> (\<forall>err w'. read w = (Some (Inl err), w') \<longleftrightarrow>
           BoundContract_Call lib (caller_contract c) opts method params w = (Inl err, w')))"

definition decodes ::
  "('abi, 'b, 'w) bind_lib \<Rightarrow> ('abi, 'b) batch_authenticator_caller \<Rightarrow> call_opts \<Rightarrow> string
    \<Rightarrow> abi_value list \<Rightarrow> ('a \<Rightarrow> abi_value) \<Rightarrow> ('w \<Rightarrow> (bind_err + 'a) option \<times> 'w) \<Rightarrow> bool" where
  "decodes lib c opts method params K read = decodes_as lib c opts method params (\<lambda>x. [K x]) read"

lemma conversion_iff:
  "as_address v = Some a \<longleftrightarrow> v = AbiAddress a"
  "as_bool v = Some b \<longleftrightarrow> v = AbiBool b"
  "as_uint8 v = Some n8 \<longleftrightarrow> v = AbiUint8 n8"
  "as_uint64 v = Some n64 \<longleftrightarrow> v = AbiUint64 n64"
  "as_uint256 v = Some n \<longleftrightarrow> v = AbiUint256 n"
  "as_string v = Some s \<longleftrightarrow> v = AbiString s"
  "as_addresses v = Some as \<longleftrightarrow> v = AbiAddresses as"
  "as_bytes32 v = Some h \<longleftrightarrow> v = AbiBytes32 h"
  by (cases v; simp)+

lemma abi_type_of_iff:
  "abi_type_of v = TAddress \<longleftrightarrow> (\<exists>a. v = AbiAddress a)"
  "abi_type_of v = TBool \<longleftrightarrow> (\<exists>b. v = AbiBool b)"
  "abi_type_of v = TUint 8 \<longleftrightarrow> (\<exists>n. v = AbiUint8 n)"
  "abi_type_of v = TUint 64 \<longleftrightarrow> (\<exists>n. v = AbiUint64 n)"
  "abi_type_of v = TUint 256 \<longleftrightarrow> (\<exists>n. v = AbiUint256 n)"
  "abi_type_of v = TString \<longleftrightarrow> (\<exists>s. v = AbiString s)"
  "abi_type_of v = TAddresses \<longleftrightarrow> (\<exists>as. v = AbiAddresses as)"
  "abi_type_of v = TBytes32 \<longleftrightarrow> (\<exists>h. v = AbiBytes32 h)"
  by (cases v; simp)+

lemma NewBatchAuthenticatorCaller_abi:
  "NewBatchAuthenticatorCaller_binding lib addr b = Inr c \<Longrightarrow>
    GetAbi lib BatchAuthenticatorMetaData = Inr (bc_abi (caller_contract c))"
  by (auto simp: NewBatchAuthenticatorCaller_binding_def bindBatchAuthenticator_def bind_res_Inr_iff)

lemma view_call_decodes:
  assumes lib: "abi_typed lib" and new: "NewBatchAuthenticatorCaller_binding lib addr b = Inr c"
    and m: "find_method method = Some (method_abi n ins [t])"
    and conv: "\<And>v x. conv v = Some x \<longleftrightarrow> v = K x"
    and tys: "\<And>v. abi_type_of v = t \<longleftrightarrow> (\<exists>x. v = K x)"
  shows "decodes lib c opts method params K (view_call lib c opts method params conv)"
  unfolding decodes_def decodes_as_def
proof
  fix w
  obtain r w1 where call: "BoundContract_Call lib (caller_contract c) opts method params w = (r, w1)"
    by fastforce
  show "fst (view_call lib c opts method params conv w) \<noteq> None
    \<and> (\<forall>x w'. view_call lib c opts method params conv w = (Some (Inr x), w') \<longleftrightarrow>
         BoundContract_Call lib (caller_contract c) opts method params w = (Inr [K x], w'))
    \<and> (\<forall>err w'. view_call lib c opts method params conv w = (Some (Inl err), w') \<longleftrightarrow>
         BoundContract_Call lib (caller_contract c) opts method params w = (Inl err, w'))"
  proof (cases r)
    case (Inr vs)
    from abi_typedD [OF lib NewBatchAuthenticatorCaller_abi [OF new] call [unfolded Inr] m] obtain v where v: "vs = [v]" "abi_type_of v = t"
      by (auto simp: map_eq_Cons_conv)
    then obtain y where y: "v = K y" using tys by blast
    have K: "conv (K x) = Some x" for x by (simp add: conv)
    then have "K a = K b \<longleftrightarrow> a = b" for a b by (metis option.inject)
    with K show ?thesis by (simp add: view_call_def read_out_def call Inr v(1) y)
  qed (simp add: view_call_def call)
qed

lemmas read_decodes = view_call_decodes [where K = AbiAddress and t = TAddress]
  view_call_decodes [where K = AbiBool and t = TBool]
  view_call_decodes [where K = AbiUint8 and t = "TUint 8"]
  view_call_decodes [where K = AbiUint256 and t = "TUint 256"]
  view_call_decodes [where K = AbiString and t = TString]
  view_call_decodes [where K = AbiAddresses and t = TAddresses]

lemmas read_call_defs =
  ActiveIsEspresso_caller_def EspressoBatcher_caller_def EspressoBatcherAtBlock_caller_def
  EspressoBatcherHistoryLength_caller_def EspressoTEEVerifier_caller_def GetGuardians_caller_def
  GuardianCount_caller_def InitVersion_caller_def IsGuardian_caller_def
  NitroValidator_caller_def Owner_caller_def PendingOwner_caller_def
  ProxyAdmin_caller_def ProxyAdminOwner_caller_def SystemConfig_caller_def
  Version_caller_def

lemma EspressoBatcherAtBlock_decodes:
  assumes "abi_typed lib" and "NewBatchAuthenticatorCaller_binding lib addr b = Inr c"
  shows "decodes lib c opts ''espressoBatcherAtBlock'' [AbiUint64 n] AbiAddress
    (EspressoBatcherAtBlock_caller lib c opts n)"
  unfolding EspressoBatcherAtBlock_caller_def
  by (rule read_decodes [OF assms]) (simp_all add: find_method_def BatchAuthenticatorMetaData_def
      conversion_iff abi_type_of_iff)

lemma EspressoBatcher_decodes:
  assumes "abi_typed lib" and "NewBatchAuthenticatorCaller_binding lib addr b = Inr c"
  shows "decodes lib c opts ''espressoBatcher'' [] AbiAddress (EspressoBatcher_caller lib c opts)"
  unfolding EspressoBatcher_caller_def
  by (rule read_decodes [OF assms]) (simp_all add: find_method_def BatchAuthenticatorMetaData_def
      conversion_iff abi_type_of_iff)

lemma EspressoBatcherAt_decodes:
  assumes "abi_typed lib" and "NewBatchAuthenticatorCaller_binding lib addr b = Inr c"
  shows "decodes_as lib c opts ''espressoBatcherAt'' [AbiUint32 index]
    (\<lambda>(batcher, fromBlock). [AbiAddress batcher, AbiUint64 fromBlock]) (EspressoBatcherAt_caller lib c opts index)"
  unfolding decodes_as_def
proof
  fix w
  obtain r w1 where call:
    "BoundContract_Call lib (caller_contract c) opts ''espressoBatcherAt'' [AbiUint32 index] w = (r, w1)"
    by fastforce
  have m: "find_method ''espressoBatcherAt''
      = Some (method_abi ''espressoBatcherAt'' [TUint 32] [TAddress, TUint 64])"
    by (simp add: find_method_def BatchAuthenticatorMetaData_def)
  show "fst (EspressoBatcherAt_caller lib c opts index w) \<noteq> None
    \<and> (\<forall>x w'. EspressoBatcherAt_caller lib c opts index w = (Some (Inr x), w') \<longleftrightarrow>
         BoundContract_Call lib (caller_contract c) opts ''espressoBatcherAt'' [AbiUint32 index] w
           = (Inr (case x of (batcher, fromBlock) \<Rightarrow> [AbiAddress batcher, AbiUint64 fromBlock]), w'))
    \<and> (\<forall>err w'. EspressoBatcherAt_caller lib c opts index w = (Some (Inl err), w') \<longleftrightarrow>
         BoundContract_Call lib (caller_contract c) opts ''espressoBatcherAt'' [AbiUint32 index] w = (Inl err, w'))"
  proof (cases r)
    case (Inr vs)
    from abi_typedD [OF assms(1) NewBatchAuthenticatorCaller_abi [OF assms(2)] call [unfolded Inr] m]
    obtain a n where "vs = [AbiAddress a, AbiUint64 n]" by (auto simp: map_eq_Cons_conv abi_type_of_iff)
    with call Inr show ?thesis by (auto simp: EspressoBatcherAt_caller_def read_out_def)
  qed (simp add: EspressoBatcherAt_caller_def call)
qed

text \<open>
  C27. The binding agrees with the contract's ABI. With a library that unpacks answers as the ABI
  says, no read call panics on a missing value or a conversion. Each of the sixteen with one
  result returns a value exactly when the contract's method of that name, called with its
  arguments at the given block, answered it, and an error exactly when the call ended with it;
  \<open>EspressoBatcherAt\<close> returns a pair of an address and a block exactly when the contract answered
  these two, in this order, for the given index.
\<close>

theorem binding_reads_agree:
  assumes "abi_typed lib" and "NewBatchAuthenticatorCaller_binding lib addr b = Inr c"
  shows "decodes lib c opts ''activeIsEspresso'' [] AbiBool (ActiveIsEspresso_caller lib c opts)
    \<and> decodes lib c opts ''espressoBatcher'' [] AbiAddress (EspressoBatcher_caller lib c opts)
    \<and> decodes lib c opts ''espressoBatcherAtBlock'' [AbiUint64 l1Block] AbiAddress
        (EspressoBatcherAtBlock_caller lib c opts l1Block)
    \<and> decodes lib c opts ''espressoBatcherHistoryLength'' [] AbiUint256
        (EspressoBatcherHistoryLength_caller lib c opts)
    \<and> decodes lib c opts ''espressoTEEVerifier'' [] AbiAddress (EspressoTEEVerifier_caller lib c opts)
    \<and> decodes lib c opts ''getGuardians'' [] AbiAddresses (GetGuardians_caller lib c opts)
    \<and> decodes lib c opts ''guardianCount'' [] AbiUint256 (GuardianCount_caller lib c opts)
    \<and> decodes lib c opts ''initVersion'' [] AbiUint8 (InitVersion_caller lib c opts)
    \<and> decodes lib c opts ''isGuardian'' [AbiAddress account] AbiBool (IsGuardian_caller lib c opts account)
    \<and> decodes lib c opts ''nitroValidator'' [] AbiAddress (NitroValidator_caller lib c opts)
    \<and> decodes lib c opts ''owner'' [] AbiAddress (Owner_caller lib c opts)
    \<and> decodes lib c opts ''pendingOwner'' [] AbiAddress (PendingOwner_caller lib c opts)
    \<and> decodes lib c opts ''proxyAdmin'' [] AbiAddress (ProxyAdmin_caller lib c opts)
    \<and> decodes lib c opts ''proxyAdminOwner'' [] AbiAddress (ProxyAdminOwner_caller lib c opts)
    \<and> decodes lib c opts ''systemConfig'' [] AbiAddress (SystemConfig_caller lib c opts)
    \<and> decodes lib c opts ''version'' [] AbiString (Version_caller lib c opts)
    \<and> decodes_as lib c opts ''espressoBatcherAt'' [AbiUint32 index]
        (\<lambda>(batcher, fromBlock). [AbiAddress batcher, AbiUint64 fromBlock]) (EspressoBatcherAt_caller lib c opts index)"
proof (intro conjI)
  show "decodes_as lib c opts ''espressoBatcherAt'' [AbiUint32 index]
      (\<lambda>(batcher, fromBlock). [AbiAddress batcher, AbiUint64 fromBlock]) (EspressoBatcherAt_caller lib c opts index)"
    by (rule EspressoBatcherAt_decodes [OF assms])
qed (unfold read_call_defs,
    (rule read_decodes [OF assms];
      simp add: find_method_def BatchAuthenticatorMetaData_def conversion_iff abi_type_of_iff)+)

text \<open>A library that answers every method with fixed values of its output types.\<close>

fun sample_abi_value :: "abi_type \<Rightarrow> abi_value" where
  "sample_abi_value TAddress = AbiAddress 42"
| "sample_abi_value TBool = AbiBool True"
| "sample_abi_value (TUint n) =
    (if n = 8 then AbiUint8 1 else if n = 32 then AbiUint32 1 else if n = 64 then AbiUint64 1 else AbiUint256 1)"
| "sample_abi_value TString = AbiString ''1.1''"
| "sample_abi_value TBytes = AbiBytes []"
| "sample_abi_value TBytes32 = AbiBytes32 0"
| "sample_abi_value TAddresses = AbiAddresses [5, 6]"

definition sample_bind_lib :: "(unit, unit, 'w) bind_lib" where
  "sample_bind_lib =
    \<lparr>GetAbi = (\<lambda>_. Inr ()),
     BoundContract_Call = (\<lambda>c opts method params w.
       ((case find_method method of
           None \<Rightarrow> Inl ''no method''
         | Some m \<Rightarrow>
             if map abi_type_of params = m_inputs m then Inr (map sample_abi_value (m_outputs m))
             else Inl ''arguments''), w))\<rparr>"

definition sample_caller :: "(unit, unit) batch_authenticator_caller" where
  "sample_caller = \<lparr>caller_contract = \<lparr>bc_address = 1, bc_abi = (), bc_caller = Some (),
     bc_transactor = None, bc_filterer = None\<rparr>\<rparr>"

lemma sample_caller_new: "NewBatchAuthenticatorCaller_binding sample_bind_lib 1 () = Inr sample_caller"
  by (simp add: NewBatchAuthenticatorCaller_binding_def bindBatchAuthenticator_def sample_bind_lib_def sample_caller_def)

lemma sample_abi_value_typed:
  "\<forall>m \<in> set (abi_methods BatchAuthenticatorMetaData). map (abi_type_of \<circ> sample_abi_value) (m_outputs m) = m_outputs m"
  by (simp add: BatchAuthenticatorMetaData_def)

lemma sample_bind_lib_typed: "abi_typed sample_bind_lib"
proof -
  have "m \<in> set (abi_methods BatchAuthenticatorMetaData)" if "find_method n = Some m" for n m
    using that by (auto simp: find_method_def find_Some_iff)
  then show ?thesis
    using sample_abi_value_typed by (auto simp: abi_typed_def sample_bind_lib_def split: option.splits if_splits)
qed

lemma binding_reads_agree_witness:
  "EspressoBatcherAtBlock_caller sample_bind_lib sample_caller \<lparr>BlockNumber = Some 9\<rparr> 7 () = (Some (Inr 42), ())
    \<and> EspressoBatcherAt_caller sample_bind_lib sample_caller \<lparr>BlockNumber = Some 9\<rparr> 1 () = (Some (Inr (42, 1)), ())"
proof -
  let ?opts = "\<lparr>BlockNumber = Some 9\<rparr>"
  have call: "BoundContract_Call sample_bind_lib (caller_contract sample_caller) ?opts
      ''espressoBatcherAtBlock'' [AbiUint64 7] () = (Inr [AbiAddress 42], ())"
    "BoundContract_Call sample_bind_lib (caller_contract sample_caller) ?opts
      ''espressoBatcherAt'' [AbiUint32 1] () = (Inr [AbiAddress 42, AbiUint64 1], ())"
    by (simp_all add: sample_bind_lib_def find_method_def BatchAuthenticatorMetaData_def)
  have "decodes sample_bind_lib sample_caller ?opts ''espressoBatcherAtBlock'' [AbiUint64 7] AbiAddress
      (EspressoBatcherAtBlock_caller sample_bind_lib sample_caller ?opts 7 :: unit \<Rightarrow> _)
    \<and> decodes_as sample_bind_lib sample_caller ?opts ''espressoBatcherAt'' [AbiUint32 1]
      (\<lambda>(batcher, fromBlock). [AbiAddress batcher, AbiUint64 fromBlock])
      (EspressoBatcherAt_caller sample_bind_lib sample_caller ?opts 1 :: unit \<Rightarrow> _)"
    using binding_reads_agree [OF sample_bind_lib_typed sample_caller_new,
        where opts = ?opts and l1Block = 7 and index = 1 and account = 0]
    by (elim conjE) (intro conjI)
  with call show ?thesis unfolding decodes_def decodes_as_def by simp
qed

end
