(* ===== verification/Batch_Authenticator_Calls.thy ===== *)
theory Batch_Authenticator_Calls
  imports Batch_Authenticator
begin

text \<open>
  The rest of the calls of \<open>op/bindings/batch_authenticator.go\<close>: the transactions, the sessions
  that keep the options of a call, and the raw access. A transaction is signed and sent by the
  library, so it is a field of the record \<open>bind_tx_lib\<close>, which returns it or an error and
  changes the world.
\<close>

section \<open>Sessions\<close>

record ('abi, 'b, 'o) batch_authenticator_session =      \<comment> \<open>\<open>BatchAuthenticatorSession\<close>\<close>
  session_Contract :: "('abi, 'b) batch_authenticator"
  session_CallOpts :: call_opts
  session_TransactOpts :: 'o

record ('abi, 'b) batch_authenticator_caller_session =
  caller_session_Contract :: "('abi, 'b) batch_authenticator_caller"
  caller_session_CallOpts :: call_opts

record ('abi, 'b, 'o) batch_authenticator_transactor_session =
  transactor_session_Contract :: "('abi, 'b) batch_authenticator_transactor"
  transactor_session_TransactOpts :: 'o

record ('abi, 'b, 'o, 'tx, 'w) bind_tx_lib =
  BoundContract_Transact :: "('abi, 'b) bound_contract \<Rightarrow> 'o \<Rightarrow> string \<Rightarrow> abi_value list \<Rightarrow> 'w
    \<Rightarrow> (bind_err + 'tx) \<times> 'w"
  BoundContract_Transfer :: "('abi, 'b) bound_contract \<Rightarrow> 'o \<Rightarrow> 'w \<Rightarrow> (bind_err + 'tx) \<times> 'w"

section \<open>Raw access\<close>

record ('abi, 'b) batch_authenticator_raw =
  raw_Contract :: "('abi, 'b) batch_authenticator"

record ('abi, 'b) batch_authenticator_caller_raw =
  caller_raw_Contract :: "('abi, 'b) batch_authenticator_caller"

record ('abi, 'b) batch_authenticator_transactor_raw =
  transactor_raw_Contract :: "('abi, 'b) batch_authenticator_transactor"

definition Call_raw ::
  "('abi, 'b, 'w) bind_lib \<Rightarrow> ('abi, 'b) batch_authenticator_raw \<Rightarrow> call_opts \<Rightarrow> string
    \<Rightarrow> abi_value list \<Rightarrow> 'w \<Rightarrow> (bind_err + abi_value list) \<times> 'w" where
  "Call_raw lib r opts method params =
    BoundContract_Call lib (caller_contract (BatchAuthenticatorCaller (raw_Contract r))) opts
      method params"

definition Transfer_raw ::
  "('abi, 'b, 'o, 'tx, 'w) bind_tx_lib \<Rightarrow> ('abi, 'b) batch_authenticator_raw \<Rightarrow> 'o
    \<Rightarrow> 'w \<Rightarrow> (bind_err + 'tx) \<times> 'w" where
  "Transfer_raw lib r opts =
    BoundContract_Transfer lib (transactor_contract (BatchAuthenticatorTransactor (raw_Contract
      r))) opts"

definition Transact_raw ::
  "('abi, 'b, 'o, 'tx, 'w) bind_tx_lib \<Rightarrow> ('abi, 'b) batch_authenticator_raw \<Rightarrow> 'o \<Rightarrow> string
    \<Rightarrow> abi_value list \<Rightarrow> 'w \<Rightarrow> (bind_err + 'tx) \<times> 'w" where
  "Transact_raw lib r opts method params =
    BoundContract_Transact lib (transactor_contract (BatchAuthenticatorTransactor (raw_Contract
      r))) opts method params"

definition Call_caller_raw ::
  "('abi, 'b, 'w) bind_lib \<Rightarrow> ('abi, 'b) batch_authenticator_caller_raw \<Rightarrow> call_opts \<Rightarrow> string
    \<Rightarrow> abi_value list \<Rightarrow> 'w \<Rightarrow> (bind_err + abi_value list) \<times> 'w" where
  "Call_caller_raw lib r opts method params =
    BoundContract_Call lib (caller_contract (caller_raw_Contract r)) opts method params"

definition Transfer_transactor_raw ::
  "('abi, 'b, 'o, 'tx, 'w) bind_tx_lib \<Rightarrow> ('abi, 'b) batch_authenticator_transactor_raw \<Rightarrow> 'o
    \<Rightarrow> 'w \<Rightarrow> (bind_err + 'tx) \<times> 'w" where
  "Transfer_transactor_raw lib r opts =
    BoundContract_Transfer lib (transactor_contract (transactor_raw_Contract r)) opts"

definition Transact_transactor_raw ::
  "('abi, 'b, 'o, 'tx, 'w) bind_tx_lib \<Rightarrow> ('abi, 'b) batch_authenticator_transactor_raw \<Rightarrow> 'o \<Rightarrow> string
    \<Rightarrow> abi_value list \<Rightarrow> 'w \<Rightarrow> (bind_err + 'tx) \<times> 'w" where
  "Transact_transactor_raw lib r opts method params =
    BoundContract_Transact lib (transactor_contract (transactor_raw_Contract r)) opts method params"

section \<open>Reading in a session\<close>

definition ActiveIsEspresso_session ::
  "('abi, 'b, 'w) bind_lib \<Rightarrow> ('abi, 'b, 'o) batch_authenticator_session
    \<Rightarrow> 'w \<Rightarrow> (bind_err + bool) option \<times> 'w" where
  "ActiveIsEspresso_session lib s =
    ActiveIsEspresso_caller lib (BatchAuthenticatorCaller (session_Contract s))
      (session_CallOpts s)"

definition ActiveIsEspresso_caller_session ::
  "('abi, 'b, 'w) bind_lib \<Rightarrow> ('abi, 'b) batch_authenticator_caller_session
    \<Rightarrow> 'w \<Rightarrow> (bind_err + bool) option \<times> 'w" where
  "ActiveIsEspresso_caller_session lib s =
    ActiveIsEspresso_caller lib (caller_session_Contract s) (caller_session_CallOpts s)"

definition EspressoBatcher_session ::
  "('abi, 'b, 'w) bind_lib \<Rightarrow> ('abi, 'b, 'o) batch_authenticator_session
    \<Rightarrow> 'w \<Rightarrow> (bind_err + address) option \<times> 'w" where
  "EspressoBatcher_session lib s =
    EspressoBatcher_caller lib (BatchAuthenticatorCaller (session_Contract s)) (session_CallOpts s)"

definition EspressoBatcher_caller_session ::
  "('abi, 'b, 'w) bind_lib \<Rightarrow> ('abi, 'b) batch_authenticator_caller_session
    \<Rightarrow> 'w \<Rightarrow> (bind_err + address) option \<times> 'w" where
  "EspressoBatcher_caller_session lib s =
    EspressoBatcher_caller lib (caller_session_Contract s) (caller_session_CallOpts s)"

definition EspressoBatcherAt_session ::
  "('abi, 'b, 'w) bind_lib \<Rightarrow> ('abi, 'b, 'o) batch_authenticator_session \<Rightarrow> 32 word
    \<Rightarrow> 'w \<Rightarrow> (bind_err + address \<times> u64) option \<times> 'w" where
  "EspressoBatcherAt_session lib s index =
    EspressoBatcherAt_caller lib (BatchAuthenticatorCaller (session_Contract s))
      (session_CallOpts s) index"

definition EspressoBatcherAt_caller_session ::
  "('abi, 'b, 'w) bind_lib \<Rightarrow> ('abi, 'b) batch_authenticator_caller_session \<Rightarrow> 32 word
    \<Rightarrow> 'w \<Rightarrow> (bind_err + address \<times> u64) option \<times> 'w" where
  "EspressoBatcherAt_caller_session lib s index =
    EspressoBatcherAt_caller lib (caller_session_Contract s) (caller_session_CallOpts s) index"

definition EspressoBatcherAtBlock_session ::
  "('abi, 'b, 'w) bind_lib \<Rightarrow> ('abi, 'b, 'o) batch_authenticator_session \<Rightarrow> u64
    \<Rightarrow> 'w \<Rightarrow> (bind_err + address) option \<times> 'w" where
  "EspressoBatcherAtBlock_session lib s l1Block =
    EspressoBatcherAtBlock_caller lib (BatchAuthenticatorCaller (session_Contract s))
      (session_CallOpts s) l1Block"

definition EspressoBatcherAtBlock_caller_session ::
  "('abi, 'b, 'w) bind_lib \<Rightarrow> ('abi, 'b) batch_authenticator_caller_session \<Rightarrow> u64
    \<Rightarrow> 'w \<Rightarrow> (bind_err + address) option \<times> 'w" where
  "EspressoBatcherAtBlock_caller_session lib s l1Block =
    EspressoBatcherAtBlock_caller lib (caller_session_Contract s) (caller_session_CallOpts s)
      l1Block"

definition EspressoBatcherHistoryLength_session ::
  "('abi, 'b, 'w) bind_lib \<Rightarrow> ('abi, 'b, 'o) batch_authenticator_session
    \<Rightarrow> 'w \<Rightarrow> (bind_err + int) option \<times> 'w" where
  "EspressoBatcherHistoryLength_session lib s =
    EspressoBatcherHistoryLength_caller lib (BatchAuthenticatorCaller (session_Contract s))
      (session_CallOpts s)"

definition EspressoBatcherHistoryLength_caller_session ::
  "('abi, 'b, 'w) bind_lib \<Rightarrow> ('abi, 'b) batch_authenticator_caller_session
    \<Rightarrow> 'w \<Rightarrow> (bind_err + int) option \<times> 'w" where
  "EspressoBatcherHistoryLength_caller_session lib s =
    EspressoBatcherHistoryLength_caller lib (caller_session_Contract s) (caller_session_CallOpts s)"

definition EspressoTEEVerifier_session ::
  "('abi, 'b, 'w) bind_lib \<Rightarrow> ('abi, 'b, 'o) batch_authenticator_session
    \<Rightarrow> 'w \<Rightarrow> (bind_err + address) option \<times> 'w" where
  "EspressoTEEVerifier_session lib s =
    EspressoTEEVerifier_caller lib (BatchAuthenticatorCaller (session_Contract s))
      (session_CallOpts s)"

definition EspressoTEEVerifier_caller_session ::
  "('abi, 'b, 'w) bind_lib \<Rightarrow> ('abi, 'b) batch_authenticator_caller_session
    \<Rightarrow> 'w \<Rightarrow> (bind_err + address) option \<times> 'w" where
  "EspressoTEEVerifier_caller_session lib s =
    EspressoTEEVerifier_caller lib (caller_session_Contract s) (caller_session_CallOpts s)"

definition GetGuardians_session ::
  "('abi, 'b, 'w) bind_lib \<Rightarrow> ('abi, 'b, 'o) batch_authenticator_session
    \<Rightarrow> 'w \<Rightarrow> (bind_err + address list) option \<times> 'w" where
  "GetGuardians_session lib s =
    GetGuardians_caller lib (BatchAuthenticatorCaller (session_Contract s)) (session_CallOpts s)"

definition GetGuardians_caller_session ::
  "('abi, 'b, 'w) bind_lib \<Rightarrow> ('abi, 'b) batch_authenticator_caller_session
    \<Rightarrow> 'w \<Rightarrow> (bind_err + address list) option \<times> 'w" where
  "GetGuardians_caller_session lib s =
    GetGuardians_caller lib (caller_session_Contract s) (caller_session_CallOpts s)"

definition GuardianCount_session ::
  "('abi, 'b, 'w) bind_lib \<Rightarrow> ('abi, 'b, 'o) batch_authenticator_session
    \<Rightarrow> 'w \<Rightarrow> (bind_err + int) option \<times> 'w" where
  "GuardianCount_session lib s =
    GuardianCount_caller lib (BatchAuthenticatorCaller (session_Contract s)) (session_CallOpts s)"

definition GuardianCount_caller_session ::
  "('abi, 'b, 'w) bind_lib \<Rightarrow> ('abi, 'b) batch_authenticator_caller_session
    \<Rightarrow> 'w \<Rightarrow> (bind_err + int) option \<times> 'w" where
  "GuardianCount_caller_session lib s =
    GuardianCount_caller lib (caller_session_Contract s) (caller_session_CallOpts s)"

definition InitVersion_session ::
  "('abi, 'b, 'w) bind_lib \<Rightarrow> ('abi, 'b, 'o) batch_authenticator_session
    \<Rightarrow> 'w \<Rightarrow> (bind_err + 8 word) option \<times> 'w" where
  "InitVersion_session lib s =
    InitVersion_caller lib (BatchAuthenticatorCaller (session_Contract s)) (session_CallOpts s)"

definition InitVersion_caller_session ::
  "('abi, 'b, 'w) bind_lib \<Rightarrow> ('abi, 'b) batch_authenticator_caller_session
    \<Rightarrow> 'w \<Rightarrow> (bind_err + 8 word) option \<times> 'w" where
  "InitVersion_caller_session lib s =
    InitVersion_caller lib (caller_session_Contract s) (caller_session_CallOpts s)"

definition IsGuardian_session ::
  "('abi, 'b, 'w) bind_lib \<Rightarrow> ('abi, 'b, 'o) batch_authenticator_session \<Rightarrow> address
    \<Rightarrow> 'w \<Rightarrow> (bind_err + bool) option \<times> 'w" where
  "IsGuardian_session lib s account =
    IsGuardian_caller lib (BatchAuthenticatorCaller (session_Contract s)) (session_CallOpts s)
      account"

definition IsGuardian_caller_session ::
  "('abi, 'b, 'w) bind_lib \<Rightarrow> ('abi, 'b) batch_authenticator_caller_session \<Rightarrow> address
    \<Rightarrow> 'w \<Rightarrow> (bind_err + bool) option \<times> 'w" where
  "IsGuardian_caller_session lib s account =
    IsGuardian_caller lib (caller_session_Contract s) (caller_session_CallOpts s) account"

definition NitroValidator_session ::
  "('abi, 'b, 'w) bind_lib \<Rightarrow> ('abi, 'b, 'o) batch_authenticator_session
    \<Rightarrow> 'w \<Rightarrow> (bind_err + address) option \<times> 'w" where
  "NitroValidator_session lib s =
    NitroValidator_caller lib (BatchAuthenticatorCaller (session_Contract s)) (session_CallOpts s)"

definition NitroValidator_caller_session ::
  "('abi, 'b, 'w) bind_lib \<Rightarrow> ('abi, 'b) batch_authenticator_caller_session
    \<Rightarrow> 'w \<Rightarrow> (bind_err + address) option \<times> 'w" where
  "NitroValidator_caller_session lib s =
    NitroValidator_caller lib (caller_session_Contract s) (caller_session_CallOpts s)"

definition Owner_session ::
  "('abi, 'b, 'w) bind_lib \<Rightarrow> ('abi, 'b, 'o) batch_authenticator_session
    \<Rightarrow> 'w \<Rightarrow> (bind_err + address) option \<times> 'w" where
  "Owner_session lib s =
    Owner_caller lib (BatchAuthenticatorCaller (session_Contract s)) (session_CallOpts s)"

definition Owner_caller_session ::
  "('abi, 'b, 'w) bind_lib \<Rightarrow> ('abi, 'b) batch_authenticator_caller_session
    \<Rightarrow> 'w \<Rightarrow> (bind_err + address) option \<times> 'w" where
  "Owner_caller_session lib s =
    Owner_caller lib (caller_session_Contract s) (caller_session_CallOpts s)"

definition PendingOwner_session ::
  "('abi, 'b, 'w) bind_lib \<Rightarrow> ('abi, 'b, 'o) batch_authenticator_session
    \<Rightarrow> 'w \<Rightarrow> (bind_err + address) option \<times> 'w" where
  "PendingOwner_session lib s =
    PendingOwner_caller lib (BatchAuthenticatorCaller (session_Contract s)) (session_CallOpts s)"

definition PendingOwner_caller_session ::
  "('abi, 'b, 'w) bind_lib \<Rightarrow> ('abi, 'b) batch_authenticator_caller_session
    \<Rightarrow> 'w \<Rightarrow> (bind_err + address) option \<times> 'w" where
  "PendingOwner_caller_session lib s =
    PendingOwner_caller lib (caller_session_Contract s) (caller_session_CallOpts s)"

definition ProxyAdmin_session ::
  "('abi, 'b, 'w) bind_lib \<Rightarrow> ('abi, 'b, 'o) batch_authenticator_session
    \<Rightarrow> 'w \<Rightarrow> (bind_err + address) option \<times> 'w" where
  "ProxyAdmin_session lib s =
    ProxyAdmin_caller lib (BatchAuthenticatorCaller (session_Contract s)) (session_CallOpts s)"

definition ProxyAdmin_caller_session ::
  "('abi, 'b, 'w) bind_lib \<Rightarrow> ('abi, 'b) batch_authenticator_caller_session
    \<Rightarrow> 'w \<Rightarrow> (bind_err + address) option \<times> 'w" where
  "ProxyAdmin_caller_session lib s =
    ProxyAdmin_caller lib (caller_session_Contract s) (caller_session_CallOpts s)"

definition ProxyAdminOwner_session ::
  "('abi, 'b, 'w) bind_lib \<Rightarrow> ('abi, 'b, 'o) batch_authenticator_session
    \<Rightarrow> 'w \<Rightarrow> (bind_err + address) option \<times> 'w" where
  "ProxyAdminOwner_session lib s =
    ProxyAdminOwner_caller lib (BatchAuthenticatorCaller (session_Contract s)) (session_CallOpts s)"

definition ProxyAdminOwner_caller_session ::
  "('abi, 'b, 'w) bind_lib \<Rightarrow> ('abi, 'b) batch_authenticator_caller_session
    \<Rightarrow> 'w \<Rightarrow> (bind_err + address) option \<times> 'w" where
  "ProxyAdminOwner_caller_session lib s =
    ProxyAdminOwner_caller lib (caller_session_Contract s) (caller_session_CallOpts s)"

definition SystemConfig_session ::
  "('abi, 'b, 'w) bind_lib \<Rightarrow> ('abi, 'b, 'o) batch_authenticator_session
    \<Rightarrow> 'w \<Rightarrow> (bind_err + address) option \<times> 'w" where
  "SystemConfig_session lib s =
    SystemConfig_caller lib (BatchAuthenticatorCaller (session_Contract s)) (session_CallOpts s)"

definition SystemConfig_caller_session ::
  "('abi, 'b, 'w) bind_lib \<Rightarrow> ('abi, 'b) batch_authenticator_caller_session
    \<Rightarrow> 'w \<Rightarrow> (bind_err + address) option \<times> 'w" where
  "SystemConfig_caller_session lib s =
    SystemConfig_caller lib (caller_session_Contract s) (caller_session_CallOpts s)"

definition Version_session ::
  "('abi, 'b, 'w) bind_lib \<Rightarrow> ('abi, 'b, 'o) batch_authenticator_session
    \<Rightarrow> 'w \<Rightarrow> (bind_err + string) option \<times> 'w" where
  "Version_session lib s =
    Version_caller lib (BatchAuthenticatorCaller (session_Contract s)) (session_CallOpts s)"

definition Version_caller_session ::
  "('abi, 'b, 'w) bind_lib \<Rightarrow> ('abi, 'b) batch_authenticator_caller_session
    \<Rightarrow> 'w \<Rightarrow> (bind_err + string) option \<times> 'w" where
  "Version_caller_session lib s =
    Version_caller lib (caller_session_Contract s) (caller_session_CallOpts s)"

section \<open>Transactions\<close>

definition AcceptOwnership_transactor ::
  "('abi, 'b, 'o, 'tx, 'w) bind_tx_lib \<Rightarrow> ('abi, 'b) batch_authenticator_transactor \<Rightarrow> 'o \<Rightarrow>
    'w \<Rightarrow> (bind_err + 'tx) \<times> 'w" where
  "AcceptOwnership_transactor lib c opts =
    BoundContract_Transact lib (transactor_contract c) opts ''acceptOwnership'' []"

definition AcceptOwnership_session ::
  "('abi, 'b, 'o, 'tx, 'w) bind_tx_lib \<Rightarrow> ('abi, 'b, 'o) batch_authenticator_session \<Rightarrow>
    'w \<Rightarrow> (bind_err + 'tx) \<times> 'w" where
  "AcceptOwnership_session lib s =
    AcceptOwnership_transactor lib (BatchAuthenticatorTransactor (session_Contract s))
      (session_TransactOpts s)"

definition AcceptOwnership_transactor_session ::
  "('abi, 'b, 'o, 'tx, 'w) bind_tx_lib \<Rightarrow> ('abi, 'b, 'o) batch_authenticator_transactor_session \<Rightarrow>
    'w \<Rightarrow> (bind_err + 'tx) \<times> 'w" where
  "AcceptOwnership_transactor_session lib s =
    AcceptOwnership_transactor lib (transactor_session_Contract s)
      (transactor_session_TransactOpts s)"

definition AddGuardian_transactor ::
  "('abi, 'b, 'o, 'tx, 'w) bind_tx_lib \<Rightarrow> ('abi, 'b) batch_authenticator_transactor \<Rightarrow> 'o \<Rightarrow> address \<Rightarrow>
    'w \<Rightarrow> (bind_err + 'tx) \<times> 'w" where
  "AddGuardian_transactor lib c opts guardian =
    BoundContract_Transact lib (transactor_contract c) opts ''addGuardian'' [AbiAddress guardian]"

definition AddGuardian_session ::
  "('abi, 'b, 'o, 'tx, 'w) bind_tx_lib \<Rightarrow> ('abi, 'b, 'o) batch_authenticator_session \<Rightarrow> address \<Rightarrow>
    'w \<Rightarrow> (bind_err + 'tx) \<times> 'w" where
  "AddGuardian_session lib s guardian =
    AddGuardian_transactor lib (BatchAuthenticatorTransactor (session_Contract s))
      (session_TransactOpts s) guardian"

definition AddGuardian_transactor_session ::
  "('abi, 'b, 'o, 'tx, 'w) bind_tx_lib \<Rightarrow> ('abi, 'b, 'o) batch_authenticator_transactor_session
    \<Rightarrow> address \<Rightarrow>
    'w \<Rightarrow> (bind_err + 'tx) \<times> 'w" where
  "AddGuardian_transactor_session lib s guardian =
    AddGuardian_transactor lib (transactor_session_Contract s) (transactor_session_TransactOpts
      s) guardian"

definition AuthenticateBatchInfo_transactor ::
  "('abi, 'b, 'o, 'tx, 'w) bind_tx_lib \<Rightarrow> ('abi, 'b) batch_authenticator_transactor \<Rightarrow> 'o \<Rightarrow> hash
    \<Rightarrow> bytes \<Rightarrow>
    'w \<Rightarrow> (bind_err + 'tx) \<times> 'w" where
  "AuthenticateBatchInfo_transactor lib c opts commitment signature =
    BoundContract_Transact lib (transactor_contract c) opts ''authenticateBatchInfo''
      [AbiBytes32 commitment, AbiBytes signature]"

definition AuthenticateBatchInfo_session ::
  "('abi, 'b, 'o, 'tx, 'w) bind_tx_lib \<Rightarrow> ('abi, 'b, 'o) batch_authenticator_session \<Rightarrow> hash \<Rightarrow> bytes \<Rightarrow>
    'w \<Rightarrow> (bind_err + 'tx) \<times> 'w" where
  "AuthenticateBatchInfo_session lib s commitment signature =
    AuthenticateBatchInfo_transactor lib (BatchAuthenticatorTransactor (session_Contract s))
      (session_TransactOpts s) commitment signature"

definition AuthenticateBatchInfo_transactor_session ::
  "('abi, 'b, 'o, 'tx, 'w) bind_tx_lib \<Rightarrow> ('abi, 'b, 'o) batch_authenticator_transactor_session
    \<Rightarrow> hash \<Rightarrow> bytes \<Rightarrow>
    'w \<Rightarrow> (bind_err + 'tx) \<times> 'w" where
  "AuthenticateBatchInfo_transactor_session lib s commitment signature =
    AuthenticateBatchInfo_transactor lib (transactor_session_Contract s)
      (transactor_session_TransactOpts s) commitment signature"

definition Initialize_transactor ::
  "('abi, 'b, 'o, 'tx, 'w) bind_tx_lib \<Rightarrow> ('abi, 'b) batch_authenticator_transactor \<Rightarrow> 'o
    \<Rightarrow> address \<Rightarrow> address \<Rightarrow> address \<Rightarrow> address \<Rightarrow> bool \<Rightarrow>
    'w \<Rightarrow> (bind_err + 'tx) \<times> 'w" where
  "Initialize_transactor lib c opts espressoTEEVerifier espressoBatcher systemConfig owner
    activeIsEspresso =
    BoundContract_Transact lib (transactor_contract c) opts ''initialize'' [AbiAddress
      espressoTEEVerifier, AbiAddress espressoBatcher, AbiAddress systemConfig, AbiAddress
      owner, AbiBool activeIsEspresso]"

definition Initialize_session ::
  "('abi, 'b, 'o, 'tx, 'w) bind_tx_lib \<Rightarrow> ('abi, 'b, 'o) batch_authenticator_session \<Rightarrow> address
    \<Rightarrow> address \<Rightarrow> address \<Rightarrow> address \<Rightarrow> bool \<Rightarrow>
    'w \<Rightarrow> (bind_err + 'tx) \<times> 'w" where
  "Initialize_session lib s espressoTEEVerifier espressoBatcher systemConfig owner
    activeIsEspresso =
    Initialize_transactor lib (BatchAuthenticatorTransactor (session_Contract s))
      (session_TransactOpts s) espressoTEEVerifier espressoBatcher systemConfig owner
      activeIsEspresso"

definition Initialize_transactor_session ::
  "('abi, 'b, 'o, 'tx, 'w) bind_tx_lib \<Rightarrow> ('abi, 'b, 'o) batch_authenticator_transactor_session
    \<Rightarrow> address \<Rightarrow> address \<Rightarrow> address \<Rightarrow> address \<Rightarrow> bool \<Rightarrow>
    'w \<Rightarrow> (bind_err + 'tx) \<times> 'w" where
  "Initialize_transactor_session lib s espressoTEEVerifier espressoBatcher systemConfig owner
    activeIsEspresso =
    Initialize_transactor lib (transactor_session_Contract s) (transactor_session_TransactOpts
      s) espressoTEEVerifier espressoBatcher systemConfig owner activeIsEspresso"

definition RegisterSigner_transactor ::
  "('abi, 'b, 'o, 'tx, 'w) bind_tx_lib \<Rightarrow> ('abi, 'b) batch_authenticator_transactor \<Rightarrow> 'o \<Rightarrow> bytes
    \<Rightarrow> bytes \<Rightarrow>
    'w \<Rightarrow> (bind_err + 'tx) \<times> 'w" where
  "RegisterSigner_transactor lib c opts verificationData data =
    BoundContract_Transact lib (transactor_contract c) opts ''registerSigner'' [AbiBytes
      verificationData, AbiBytes data]"

definition RegisterSigner_session ::
  "('abi, 'b, 'o, 'tx, 'w) bind_tx_lib \<Rightarrow> ('abi, 'b, 'o) batch_authenticator_session \<Rightarrow> bytes
    \<Rightarrow> bytes \<Rightarrow>
    'w \<Rightarrow> (bind_err + 'tx) \<times> 'w" where
  "RegisterSigner_session lib s verificationData data =
    RegisterSigner_transactor lib (BatchAuthenticatorTransactor (session_Contract s))
      (session_TransactOpts s) verificationData data"

definition RegisterSigner_transactor_session ::
  "('abi, 'b, 'o, 'tx, 'w) bind_tx_lib \<Rightarrow> ('abi, 'b, 'o) batch_authenticator_transactor_session
    \<Rightarrow> bytes \<Rightarrow> bytes \<Rightarrow>
    'w \<Rightarrow> (bind_err + 'tx) \<times> 'w" where
  "RegisterSigner_transactor_session lib s verificationData data =
    RegisterSigner_transactor lib (transactor_session_Contract s)
      (transactor_session_TransactOpts s) verificationData data"

definition RemoveGuardian_transactor ::
  "('abi, 'b, 'o, 'tx, 'w) bind_tx_lib \<Rightarrow> ('abi, 'b) batch_authenticator_transactor \<Rightarrow> 'o \<Rightarrow> address \<Rightarrow>
    'w \<Rightarrow> (bind_err + 'tx) \<times> 'w" where
  "RemoveGuardian_transactor lib c opts guardian =
    BoundContract_Transact lib (transactor_contract c) opts ''removeGuardian'' [AbiAddress
      guardian]"

definition RemoveGuardian_session ::
  "('abi, 'b, 'o, 'tx, 'w) bind_tx_lib \<Rightarrow> ('abi, 'b, 'o) batch_authenticator_session \<Rightarrow> address \<Rightarrow>
    'w \<Rightarrow> (bind_err + 'tx) \<times> 'w" where
  "RemoveGuardian_session lib s guardian =
    RemoveGuardian_transactor lib (BatchAuthenticatorTransactor (session_Contract s))
      (session_TransactOpts s) guardian"

definition RemoveGuardian_transactor_session ::
  "('abi, 'b, 'o, 'tx, 'w) bind_tx_lib \<Rightarrow> ('abi, 'b, 'o) batch_authenticator_transactor_session
    \<Rightarrow> address \<Rightarrow>
    'w \<Rightarrow> (bind_err + 'tx) \<times> 'w" where
  "RemoveGuardian_transactor_session lib s guardian =
    RemoveGuardian_transactor lib (transactor_session_Contract s)
      (transactor_session_TransactOpts s) guardian"

definition RenounceOwnership_transactor ::
  "('abi, 'b, 'o, 'tx, 'w) bind_tx_lib \<Rightarrow> ('abi, 'b) batch_authenticator_transactor \<Rightarrow> 'o \<Rightarrow>
    'w \<Rightarrow> (bind_err + 'tx) \<times> 'w" where
  "RenounceOwnership_transactor lib c opts =
    BoundContract_Transact lib (transactor_contract c) opts ''renounceOwnership'' []"

definition RenounceOwnership_session ::
  "('abi, 'b, 'o, 'tx, 'w) bind_tx_lib \<Rightarrow> ('abi, 'b, 'o) batch_authenticator_session \<Rightarrow>
    'w \<Rightarrow> (bind_err + 'tx) \<times> 'w" where
  "RenounceOwnership_session lib s =
    RenounceOwnership_transactor lib (BatchAuthenticatorTransactor (session_Contract s))
      (session_TransactOpts s)"

definition RenounceOwnership_transactor_session ::
  "('abi, 'b, 'o, 'tx, 'w) bind_tx_lib \<Rightarrow> ('abi, 'b, 'o) batch_authenticator_transactor_session \<Rightarrow>
    'w \<Rightarrow> (bind_err + 'tx) \<times> 'w" where
  "RenounceOwnership_transactor_session lib s =
    RenounceOwnership_transactor lib (transactor_session_Contract s)
      (transactor_session_TransactOpts s)"

definition SetActiveIsEspresso_transactor ::
  "('abi, 'b, 'o, 'tx, 'w) bind_tx_lib \<Rightarrow> ('abi, 'b) batch_authenticator_transactor \<Rightarrow> 'o \<Rightarrow> bool \<Rightarrow>
    'w \<Rightarrow> (bind_err + 'tx) \<times> 'w" where
  "SetActiveIsEspresso_transactor lib c opts desired =
    BoundContract_Transact lib (transactor_contract c) opts ''setActiveIsEspresso'' [AbiBool
      desired]"

definition SetActiveIsEspresso_session ::
  "('abi, 'b, 'o, 'tx, 'w) bind_tx_lib \<Rightarrow> ('abi, 'b, 'o) batch_authenticator_session \<Rightarrow> bool \<Rightarrow>
    'w \<Rightarrow> (bind_err + 'tx) \<times> 'w" where
  "SetActiveIsEspresso_session lib s desired =
    SetActiveIsEspresso_transactor lib (BatchAuthenticatorTransactor (session_Contract s))
      (session_TransactOpts s) desired"

definition SetActiveIsEspresso_transactor_session ::
  "('abi, 'b, 'o, 'tx, 'w) bind_tx_lib \<Rightarrow> ('abi, 'b, 'o) batch_authenticator_transactor_session
    \<Rightarrow> bool \<Rightarrow>
    'w \<Rightarrow> (bind_err + 'tx) \<times> 'w" where
  "SetActiveIsEspresso_transactor_session lib s desired =
    SetActiveIsEspresso_transactor lib (transactor_session_Contract s)
      (transactor_session_TransactOpts s) desired"

definition SetEspressoBatcher_transactor ::
  "('abi, 'b, 'o, 'tx, 'w) bind_tx_lib \<Rightarrow> ('abi, 'b) batch_authenticator_transactor \<Rightarrow> 'o \<Rightarrow> address \<Rightarrow>
    'w \<Rightarrow> (bind_err + 'tx) \<times> 'w" where
  "SetEspressoBatcher_transactor lib c opts newEspressoBatcher =
    BoundContract_Transact lib (transactor_contract c) opts ''setEspressoBatcher'' [AbiAddress
      newEspressoBatcher]"

definition SetEspressoBatcher_session ::
  "('abi, 'b, 'o, 'tx, 'w) bind_tx_lib \<Rightarrow> ('abi, 'b, 'o) batch_authenticator_session \<Rightarrow> address \<Rightarrow>
    'w \<Rightarrow> (bind_err + 'tx) \<times> 'w" where
  "SetEspressoBatcher_session lib s newEspressoBatcher =
    SetEspressoBatcher_transactor lib (BatchAuthenticatorTransactor (session_Contract s))
      (session_TransactOpts s) newEspressoBatcher"

definition SetEspressoBatcher_transactor_session ::
  "('abi, 'b, 'o, 'tx, 'w) bind_tx_lib \<Rightarrow> ('abi, 'b, 'o) batch_authenticator_transactor_session
    \<Rightarrow> address \<Rightarrow>
    'w \<Rightarrow> (bind_err + 'tx) \<times> 'w" where
  "SetEspressoBatcher_transactor_session lib s newEspressoBatcher =
    SetEspressoBatcher_transactor lib (transactor_session_Contract s)
      (transactor_session_TransactOpts s) newEspressoBatcher"

definition TransferOwnership_transactor ::
  "('abi, 'b, 'o, 'tx, 'w) bind_tx_lib \<Rightarrow> ('abi, 'b) batch_authenticator_transactor \<Rightarrow> 'o \<Rightarrow> address \<Rightarrow>
    'w \<Rightarrow> (bind_err + 'tx) \<times> 'w" where
  "TransferOwnership_transactor lib c opts newOwner =
    BoundContract_Transact lib (transactor_contract c) opts ''transferOwnership'' [AbiAddress
      newOwner]"

definition TransferOwnership_session ::
  "('abi, 'b, 'o, 'tx, 'w) bind_tx_lib \<Rightarrow> ('abi, 'b, 'o) batch_authenticator_session \<Rightarrow> address \<Rightarrow>
    'w \<Rightarrow> (bind_err + 'tx) \<times> 'w" where
  "TransferOwnership_session lib s newOwner =
    TransferOwnership_transactor lib (BatchAuthenticatorTransactor (session_Contract s))
      (session_TransactOpts s) newOwner"

definition TransferOwnership_transactor_session ::
  "('abi, 'b, 'o, 'tx, 'w) bind_tx_lib \<Rightarrow> ('abi, 'b, 'o) batch_authenticator_transactor_session
    \<Rightarrow> address \<Rightarrow>
    'w \<Rightarrow> (bind_err + 'tx) \<times> 'w" where
  "TransferOwnership_transactor_session lib s newOwner =
    TransferOwnership_transactor lib (transactor_session_Contract s)
      (transactor_session_TransactOpts s) newOwner"

section \<open>The transactions agree with the ABI\<close>

text \<open>
  The transaction \<open>tx\<close> is the call of this method with these arguments, and the ABI has a method
  of this name with inputs of their types and no output.
\<close>

definition transacts ::
  "('abi, 'b, 'o, 'tx, 'w) bind_tx_lib \<Rightarrow> ('abi, 'b) bound_contract \<Rightarrow> 'o \<Rightarrow> string \<Rightarrow> abi_value list
    \<Rightarrow> ('w \<Rightarrow> (bind_err + 'tx) \<times> 'w) \<Rightarrow> bool" where
  "transacts lib c opts method params tx =
    (tx = BoundContract_Transact lib c opts method params
     \<and> (\<exists>m. find_method method = Some m \<and> m_inputs m = map abi_type_of params \<and> m_outputs m = []))"

lemmas transactor_defs =
  AcceptOwnership_transactor_def AddGuardian_transactor_def AuthenticateBatchInfo_transactor_def
  Initialize_transactor_def RegisterSigner_transactor_def RemoveGuardian_transactor_def
  RenounceOwnership_transactor_def SetActiveIsEspresso_transactor_def
    SetEspressoBatcher_transactor_def
  TransferOwnership_transactor_def

text \<open>
  Each of the ten transaction methods sends its arguments to the contract's method of its
  name, in the order and with the types of the ABI, which the library would refuse otherwise.
\<close>

lemma binding_writes_agree:
  "transacts lib (transactor_contract c) opts ''acceptOwnership'' []
        (AcceptOwnership_transactor lib c opts)
    \<and> transacts lib (transactor_contract c) opts ''addGuardian'' [AbiAddress guardian]
        (AddGuardian_transactor lib c opts guardian)
    \<and> transacts lib (transactor_contract c) opts ''authenticateBatchInfo'' [AbiBytes32
      commitment, AbiBytes signature]
        (AuthenticateBatchInfo_transactor lib c opts commitment signature)
    \<and> transacts lib (transactor_contract c) opts ''initialize'' [AbiAddress espressoTEEVerifier,
      AbiAddress espressoBatcher, AbiAddress systemConfig, AbiAddress owner, AbiBool
      activeIsEspresso]
        (Initialize_transactor lib c opts espressoTEEVerifier espressoBatcher systemConfig owner
        activeIsEspresso)
    \<and> transacts lib (transactor_contract c) opts ''registerSigner'' [AbiBytes verificationData,
      AbiBytes data]
        (RegisterSigner_transactor lib c opts verificationData data)
    \<and> transacts lib (transactor_contract c) opts ''removeGuardian'' [AbiAddress guardian]
        (RemoveGuardian_transactor lib c opts guardian)
    \<and> transacts lib (transactor_contract c) opts ''renounceOwnership'' []
        (RenounceOwnership_transactor lib c opts)
    \<and> transacts lib (transactor_contract c) opts ''setActiveIsEspresso'' [AbiBool desired]
        (SetActiveIsEspresso_transactor lib c opts desired)
    \<and> transacts lib (transactor_contract c) opts ''setEspressoBatcher'' [AbiAddress
      newEspressoBatcher]
        (SetEspressoBatcher_transactor lib c opts newEspressoBatcher)
    \<and> transacts lib (transactor_contract c) opts ''transferOwnership'' [AbiAddress newOwner]
        (TransferOwnership_transactor lib c opts newOwner)"
  by (simp_all add: transacts_def transactor_defs find_method_def BatchAuthenticatorMetaData_def)

text \<open>A session made of one contract gives its two halves the same results as the contract itself.\<close>

lemma session_reads_at_options:
  assumes "abi_typed lib" and "NewBatchAuthenticatorCaller_binding lib addr b = Inr
    (BatchAuthenticatorCaller (session_Contract s))"
  shows "decodes lib (BatchAuthenticatorCaller (session_Contract s)) (session_CallOpts s)
    ''espressoBatcherAtBlock'' [AbiUint64 n] AbiAddress (EspressoBatcherAtBlock_session lib s n)"
  unfolding EspressoBatcherAtBlock_session_def
  by (rule EspressoBatcherAtBlock_decodes [OF assms])

end
