(* ===== verification/Batch_Authenticator_Logs.thy ===== *)
theory Batch_Authenticator_Logs
  imports Batch_Authenticator
begin

text \<open>
  How the binding of \<open>op/bindings/batch_authenticator.go\<close> turns logs into events. The nine events
  of the contract have the same generated code, which is here once, over the Go struct of the
  event; \<open>Batch_Authenticator_Events\<close> has the nine structs and their functions. A channel of
  logs with its subscription is a \<open>feed\<close>; which ready case a \<open>select\<close> takes is an argument, so
  that a theorem about every choice is one about every schedule.
\<close>

section \<open>Structs and the library\<close>

text \<open>
  A Go struct as the library's reflection sees it: \<open>new(E)\<close>, the assignment to the field of a
  name, \<open>None\<close> when there is no such field or it has another type, and that of \<open>Raw\<close>.
\<close>

record ('e, 'log) event_type =
  ev_new :: 'e
  ev_put :: "string \<Rightarrow> abi_value \<Rightarrow> 'e \<Rightarrow> 'e option"
  ev_raw :: "'log \<Rightarrow> 'e \<Rightarrow> 'e"

record 'log feed =                     \<comment> \<open>\<open>logs chan types.Log\<close> and \<open>sub ethereum.Subscription\<close>\<close>
  feed_logs :: "'log list"             \<comment> \<open>what the channel has to give, in order\<close>
  feed_end :: "bind_err option option" \<comment> \<open>what \<open>sub.Err()\<close> gives, when it is ready\<close>

text \<open>
  \<open>UnpackLog\<close> decodes the arguments of the named event from a log and assigns each to the field
  of its name; the list has the assignments made, also when an error ended them early.
\<close>

record ('abi, 'b, 'fo, 'wo, 'log, 'w) bind_log_lib =
  BoundContract_FilterLogs :: "('abi, 'b) bound_contract \<Rightarrow> 'fo \<Rightarrow> string \<Rightarrow> abi_value list list \<Rightarrow> 'w
    \<Rightarrow> (bind_err + 'log feed) \<times> 'w"
  BoundContract_WatchLogs :: "('abi, 'b) bound_contract \<Rightarrow> 'wo \<Rightarrow> string \<Rightarrow> abi_value list list \<Rightarrow> 'w
    \<Rightarrow> (bind_err + 'log feed) \<times> 'w"
  BoundContract_UnpackLog :: "('abi, 'b) bound_contract \<Rightarrow> string \<Rightarrow> 'log
    \<Rightarrow> bind_err option \<times> (string \<times> abi_value) list"
  Unsubscribe :: "'log feed \<Rightarrow> 'log feed"

fun assign_fields :: "(string \<Rightarrow> abi_value \<Rightarrow> 'e \<Rightarrow> 'e option) \<Rightarrow> (string \<times> abi_value) list \<Rightarrow> 'e \<Rightarrow> 'e option" where
  "assign_fields put [] e = Some e"
| "assign_fields put ((n, v) # kvs) e = Option.bind (put n v e) (assign_fields put kvs)"

text \<open>\<open>event := new(E); err := UnpackLog(event, ...)\<close>, then \<open>event.Raw = log\<close> when there is no error.\<close>

definition unpack_event ::
  "('abi, 'b, 'fo, 'wo, 'log, 'w) bind_log_lib \<Rightarrow> ('e, 'log) event_type \<Rightarrow> ('abi, 'b) bound_contract
    \<Rightarrow> string \<Rightarrow> 'log \<Rightarrow> (bind_err option \<times> 'e) option" where
  "unpack_event lib E c name l =
    (case BoundContract_UnpackLog lib c name l of (err, kvs) \<Rightarrow>
       map_option (\<lambda>e. (err, if err = None then ev_raw E l e else e)) (assign_fields (ev_put E) kvs (ev_new E)))"

definition parse_event ::
  "('abi, 'b, 'fo, 'wo, 'log, 'w) bind_log_lib \<Rightarrow> ('e, 'log) event_type \<Rightarrow> ('abi, 'b) batch_authenticator_filterer
    \<Rightarrow> string \<Rightarrow> 'log \<Rightarrow> (bind_err + 'e) option" where
  "parse_event lib E f name l =
    map_option (\<lambda>(err, e). case err of Some err \<Rightarrow> Inl err | None \<Rightarrow> Inr e)
      (unpack_event lib E (filterer_contract f) name l)"

section \<open>The iterator of a filter\<close>

record ('e, 'log, 'abi, 'b) event_iterator =
  it_Event :: "'e option"
  it_contract :: "('abi, 'b) bound_contract"
  it_event :: string
  it_feed :: "'log feed"
  it_done :: bool
  it_fail :: "bind_err option"

datatype 'a select_result = Returns 'a | Waits | Panics

text \<open>The body of \<open>case log := <-it.logs\<close>.\<close>

definition take_log ::
  "('abi, 'b, 'fo, 'wo, 'log, 'w) bind_log_lib \<Rightarrow> ('e, 'log) event_type
    \<Rightarrow> ('e, 'log, 'abi, 'b) event_iterator \<Rightarrow> 'log \<Rightarrow> 'log list
    \<Rightarrow> (bool \<times> ('e, 'log, 'abi, 'b) event_iterator) select_result" where
  "take_log lib E it l ls =
    (let it = it\<lparr>it_feed := (it_feed it)\<lparr>feed_logs := ls\<rparr>\<rparr> in
     case unpack_event lib E (it_contract it) (it_event it) l of
       None \<Rightarrow> Panics
     | Some (Some err, e) \<Rightarrow> Returns (False, it\<lparr>it_Event := Some e, it_fail := Some err\<rparr>)
     | Some (None, e) \<Rightarrow> Returns (True, it\<lparr>it_Event := Some e\<rparr>))"

text \<open>\<open>Next\<close>; \<open>err_case\<close> is the choice when both cases of the second \<open>select\<close> are ready.\<close>

function next_event ::
  "('abi, 'b, 'fo, 'wo, 'log, 'w) bind_log_lib \<Rightarrow> ('e, 'log) event_type \<Rightarrow> bool
    \<Rightarrow> ('e, 'log, 'abi, 'b) event_iterator \<Rightarrow> (bool \<times> ('e, 'log, 'abi, 'b) event_iterator) select_result" where
  "next_event lib E err_case it =
    (if it_fail it \<noteq> None then Returns (False, it)
     else if it_done it then
       (case feed_logs (it_feed it) of l # ls \<Rightarrow> take_log lib E it l ls | [] \<Rightarrow> Returns (False, it))
     else
       (case (feed_logs (it_feed it), feed_end (it_feed it)) of
          ([], None) \<Rightarrow> Waits
        | (l # ls, None) \<Rightarrow> take_log lib E it l ls
        | ([], Some err) \<Rightarrow> next_event lib E err_case (it\<lparr>it_done := True, it_fail := err\<rparr>)
        | (l # ls, Some err) \<Rightarrow>
            if err_case then next_event lib E err_case (it\<lparr>it_done := True, it_fail := err\<rparr>)
            else take_log lib E it l ls))"
  by pat_completeness auto

termination
  by (relation "measure (\<lambda>(lib, E, err_case, it). if it_done it then 0 else 1)") auto

declare next_event.simps [simp del]

definition iterator_error :: "('e, 'log, 'abi, 'b) event_iterator \<Rightarrow> bind_err option" where
  "iterator_error it = it_fail it"

definition iterator_close ::
  "('abi, 'b, 'fo, 'wo, 'log, 'w) bind_log_lib \<Rightarrow> ('e, 'log, 'abi, 'b) event_iterator
    \<Rightarrow> bind_err option \<times> ('e, 'log, 'abi, 'b) event_iterator" where
  "iterator_close lib it = (None, it\<lparr>it_feed := Unsubscribe lib (it_feed it)\<rparr>)"

definition filter_event ::
  "('abi, 'b, 'fo, 'wo, 'log, 'w) bind_log_lib \<Rightarrow> ('abi, 'b) batch_authenticator_filterer \<Rightarrow> 'fo \<Rightarrow> string
    \<Rightarrow> abi_value list list \<Rightarrow> 'w \<Rightarrow> (bind_err + ('e, 'log, 'abi, 'b) event_iterator) \<times> 'w" where
  "filter_event lib f opts name rules w =
    (case BoundContract_FilterLogs lib (filterer_contract f) opts name rules w of (r, w) \<Rightarrow>
      (bind_res r (\<lambda>feed. Inr \<lparr>it_Event = None, it_contract = filterer_contract f, it_event = name,
         it_feed = feed, it_done = False, it_fail = None\<rparr>), w))"

section \<open>The loop of a watch\<close>

text \<open>
  The goroutine that \<open>event.NewSubscription\<close> runs for a watch: it waits in the outer \<open>select\<close>, or in
  the inner one with an event to send, or has returned. Its cases are labels of the steps; a
  step is \<open>None\<close> when the case is not there or not ready. The first two labels are the feed's.
\<close>

datatype 'e watch_phase = Selecting | Forwarding 'e | Ended "bind_err option" | Crashed

record ('e, 'log, 'abi, 'b) watcher =
  wt_contract :: "('abi, 'b) bound_contract"
  wt_event :: string
  wt_feed :: "'log feed"
  wt_phase :: "'e watch_phase"
  wt_sink :: "'e list"                 \<comment> \<open>what the user's channel was given\<close>

datatype 'log watch_case = LogArrives 'log | SubEnds "bind_err option" | TakeLog | TakeErr | TakeQuit | SendSink

definition end_watch ::                \<comment> \<open>a return, with the deferred \<open>sub.Unsubscribe()\<close>\<close>
  "('abi, 'b, 'fo, 'wo, 'log, 'w) bind_log_lib \<Rightarrow> 'e watch_phase
    \<Rightarrow> ('e, 'log, 'abi, 'b) watcher \<Rightarrow> ('e, 'log, 'abi, 'b) watcher" where
  "end_watch lib p s = s\<lparr>wt_phase := p, wt_feed := Unsubscribe lib (wt_feed s)\<rparr>"

fun active :: "'e watch_phase \<Rightarrow> bool" where
  "active Selecting = True" | "active (Forwarding e) = True" | "active (Ended r) = False" | "active Crashed = False"

fun watch_step ::
  "('abi, 'b, 'fo, 'wo, 'log, 'w) bind_log_lib \<Rightarrow> ('e, 'log) event_type \<Rightarrow> 'log watch_case
    \<Rightarrow> ('e, 'log, 'abi, 'b) watcher \<Rightarrow> ('e, 'log, 'abi, 'b) watcher option" where
  "watch_step lib E (LogArrives l) s = Some (s\<lparr>wt_feed := (wt_feed s)\<lparr>feed_logs := feed_logs (wt_feed s) @ [l]\<rparr>\<rparr>)"
| "watch_step lib E (SubEnds r) s = Some (s\<lparr>wt_feed := (wt_feed s)\<lparr>feed_end := Some r\<rparr>\<rparr>)"
| "watch_step lib E TakeLog s =
    (case (wt_phase s, feed_logs (wt_feed s)) of
       (Selecting, l # ls) \<Rightarrow>
         let s = s\<lparr>wt_feed := (wt_feed s)\<lparr>feed_logs := ls\<rparr>\<rparr> in
         Some (case unpack_event lib E (wt_contract s) (wt_event s) l of
           None \<Rightarrow> end_watch lib Crashed s
         | Some (Some err, _) \<Rightarrow> end_watch lib (Ended (Some err)) s
         | Some (None, e) \<Rightarrow> s\<lparr>wt_phase := Forwarding e\<rparr>)
     | _ \<Rightarrow> None)"
| "watch_step lib E SendSink s =
    (case wt_phase s of
       Forwarding e \<Rightarrow> Some (s\<lparr>wt_sink := wt_sink s @ [e], wt_phase := Selecting\<rparr>)
     | _ \<Rightarrow> None)"
| "watch_step lib E TakeErr s =
    (case feed_end (wt_feed s) of
       Some r \<Rightarrow> if active (wt_phase s) then Some (end_watch lib (Ended r) s) else None
     | None \<Rightarrow> None)"
| "watch_step lib E TakeQuit s =
    (if active (wt_phase s) then Some (end_watch lib (Ended None) s) else None)"

primrec watch_run ::
  "('abi, 'b, 'fo, 'wo, 'log, 'w) bind_log_lib \<Rightarrow> ('e, 'log) event_type \<Rightarrow> 'log watch_case list
    \<Rightarrow> ('e, 'log, 'abi, 'b) watcher \<Rightarrow> ('e, 'log, 'abi, 'b) watcher option" where
  "watch_run lib E [] s = Some s"
| "watch_run lib E (k # ks) s = Option.bind (watch_step lib E k s) (watch_run lib E ks)"

definition watch_event ::
  "('abi, 'b, 'fo, 'wo, 'log, 'w) bind_log_lib \<Rightarrow> ('abi, 'b) batch_authenticator_filterer \<Rightarrow> 'wo \<Rightarrow> string
    \<Rightarrow> abi_value list list \<Rightarrow> 'w \<Rightarrow> (bind_err + ('e, 'log, 'abi, 'b) watcher) \<times> 'w" where
  "watch_event lib f opts name rules w =
    (case BoundContract_WatchLogs lib (filterer_contract f) opts name rules w of (r, w) \<Rightarrow>
      (bind_res r (\<lambda>feed. Inr \<lparr>wt_contract = filterer_contract f, wt_event = name, wt_feed = feed,
         wt_phase = Selecting, wt_sink = []\<rparr>), w))"

section \<open>What parsing reads\<close>

text \<open>
  What the library promises of \<open>UnpackLog\<close> on a contract bound with this ABI: it assigns only
  arguments of the event it was asked for, each to the field its name maps to, the ABI's name
  with a capital first letter, and with the ABI's type.
\<close>

definition find_event :: "string \<Rightarrow> event_abi option" where
  "find_event n = find (\<lambda>ev. e_name ev = n) (abi_events BatchAuthenticatorMetaData)"

fun capital :: "char \<Rightarrow> char" where     \<comment> \<open>of a small letter: without its bit of value 32\<close>
  "capital (Char b0 b1 b2 b3 b4 b5 b6 b7) = Char b0 b1 b2 b3 b4 False b6 b7"

fun field_name :: "string \<Rightarrow> string" where  \<comment> \<open>\<open>abi.ToCamelCase\<close> on the names of this ABI\<close>
  "field_name [] = []"
| "field_name (c # cs) = capital c # cs"

definition struct_fields :: "event_abi \<Rightarrow> (string \<times> abi_type) list" where
  "struct_fields ev = map (\<lambda>(n, t, indexed). (field_name n, t)) (e_inputs ev)"

definition logs_typed :: "('abi, 'b, 'fo, 'wo, 'log, 'w) bind_log_lib \<Rightarrow> 'abi \<Rightarrow> bool" where
  "logs_typed lib abi =
    (\<forall>c name ev l err kvs. bc_abi c = abi \<longrightarrow> find_event name = Some ev \<longrightarrow>
      BoundContract_UnpackLog lib c name l = (err, kvs) \<longrightarrow>
      (\<lambda>(n, v). (n, abi_type_of v)) ` set kvs \<subseteq> set (struct_fields ev))"

lemma logs_typedD:
  assumes "logs_typed lib abi" and "bc_abi c = abi" and "find_event name = Some ev"
    and "BoundContract_UnpackLog lib c name l = (err, kvs)"
  shows "(\<lambda>(n, v). (n, abi_type_of v)) ` set kvs \<subseteq> set (struct_fields ev)"
  using assms unfolding logs_typed_def by blast

text \<open>The arguments of a struct after assignments, the last one of a field being kept.\<close>

fun overlay :: "(string \<times> abi_value) list \<Rightarrow> (string \<times> abi_value) list \<Rightarrow> (string \<times> abi_value) list" where
  "overlay [] zs = zs"
| "overlay ((n, v) # kvs) zs = overlay kvs (map (\<lambda>(m, y). (m, if m = n then v else y)) zs)"

text \<open>
  A parse function reads the arguments of a log: it fails exactly with the library's error, and
  else returns the struct with every field as it was assigned, the zero value where it was not,
  and the log itself as \<open>Raw\<close>.
\<close>

definition parses ::
  "('abi, 'b, 'fo, 'wo, 'log, 'w) bind_log_lib \<Rightarrow> ('abi, 'b) batch_authenticator_filterer \<Rightarrow> string
    \<Rightarrow> ('e \<Rightarrow> (string \<times> abi_value) list) \<Rightarrow> ('e \<Rightarrow> 'log option) \<Rightarrow> 'e \<Rightarrow> ('log \<Rightarrow> (bind_err + 'e) option) \<Rightarrow> bool" where
  "parses lib f name args raw zero parse =
    (\<forall>l. case BoundContract_UnpackLog lib (filterer_contract f) name l of
       (Some err, kvs) \<Rightarrow> parse l = Some (Inl err)
     | (None, kvs) \<Rightarrow> (\<exists>e. parse l = Some (Inr e) \<and> args e = overlay kvs (args zero) \<and> raw e = Some l))"

text \<open>
  The contract of an event's struct: \<open>args\<close> lists its fields; assigning a value to one of
  them, of its type, changes that field only; \<open>Raw\<close> is apart from them.
\<close>

locale event_struct =
  fixes E :: "('e, 'log) event_type" and args :: "'e \<Rightarrow> (string \<times> abi_value) list" and raw :: "'e \<Rightarrow> 'log option"
  assumes put: "(n, abi_type_of v) \<in> (\<lambda>(m, y). (m, abi_type_of y)) ` set (args e) \<Longrightarrow>
      \<exists>e'. ev_put E n v e = Some e' \<and> args e' = map (\<lambda>(m, y). (m, if m = n then v else y)) (args e)"
    and distinct_names: "distinct (map fst (args e))"
    and args_raw: "args (ev_raw E l e) = args e"
    and raw_raw: "raw (ev_raw E l e) = Some l"
begin

lemma put_keeps_types:
  assumes "(n, abi_type_of v) \<in> (\<lambda>(m, y). (m, abi_type_of y)) ` set (args e)"
  shows "map (\<lambda>(m, y). (m, abi_type_of y)) (map (\<lambda>(m, y). (m, if m = n then v else y)) (args e))
    = map (\<lambda>(m, y). (m, abi_type_of y)) (args e)"
  using assms distinct_names [of e] by (auto dest: eq_key_imp_eq_value)

lemma assign:
  assumes "(\<lambda>(n, v). (n, abi_type_of v)) ` set kvs \<subseteq> (\<lambda>(m, y). (m, abi_type_of y)) ` set (args e)"
  shows "\<exists>e'. assign_fields (ev_put E) kvs e = Some e' \<and> args e' = overlay kvs (args e)"
  using assms
proof (induction kvs arbitrary: e)
  case (Cons kv kvs)
  obtain n v where kv: "kv = (n, v)" by fastforce
  with Cons.prems have mem: "(n, abi_type_of v) \<in> (\<lambda>(m, y). (m, abi_type_of y)) ` set (args e)" by simp
  from put [OF mem] obtain e' where e': "ev_put E n v e = Some e'"
    "args e' = map (\<lambda>(m, y). (m, if m = n then v else y)) (args e)" by blast
  have "(\<lambda>(m, y). (m, abi_type_of y)) ` set (args e') = (\<lambda>(m, y). (m, abi_type_of y)) ` set (args e)"
    using put_keeps_types [OF mem] unfolding e'(2) by (metis list.set_map)
  with Cons.prems Cons.IH [of e'] show ?case by (simp add: kv e')
qed simp

lemma parse:
  assumes lib: "logs_typed lib abi" "bc_abi (filterer_contract f) = abi"
    and ev: "find_event name = Some ev"
    and fields: "map (\<lambda>(m, y). (m, abi_type_of y)) (args (ev_new E)) = struct_fields ev"
  shows "parses lib f name args raw (ev_new E) (parse_event lib E f name)"
  unfolding parses_def
proof
  fix l
  obtain err kvs where u: "BoundContract_UnpackLog lib (filterer_contract f) name l = (err, kvs)" by fastforce
  have "(\<lambda>(n, v). (n, abi_type_of v)) ` set kvs \<subseteq> set (struct_fields ev)"
    by (rule logs_typedD [OF lib ev u])
  also have "set (struct_fields ev) = (\<lambda>(m, y). (m, abi_type_of y)) ` set (args (ev_new E))"
    unfolding fields [symmetric] by (rule list.set_map)
  finally obtain e where e: "assign_fields (ev_put E) kvs (ev_new E) = Some e" "args e = overlay kvs (args (ev_new E))"
    using assign by blast
  show "case BoundContract_UnpackLog lib (filterer_contract f) name l of
       (Some err, kvs) \<Rightarrow> parse_event lib E f name l = Some (Inl err)
     | (None, kvs) \<Rightarrow> (\<exists>e. parse_event lib E f name l = Some (Inr e)
         \<and> args e = overlay kvs (args (ev_new E)) \<and> raw e = Some l)"
    by (cases err) (simp_all add: u e parse_event_def unpack_event_def args_raw raw_raw)
qed

end

section \<open>What a filter gives\<close>

lemma next_event_done:
  assumes "it_done it"
  shows "next_event lib E err_case it =
    (if it_fail it \<noteq> None then Returns (False, it)
     else case feed_logs (it_feed it) of l # ls \<Rightarrow> take_log lib E it l ls | [] \<Rightarrow> Returns (False, it))"
  using assms by (subst next_event.simps) simp

lemma take_log_shrinks:
  "take_log lib E it l ls = Returns (True, it') \<Longrightarrow> feed_logs (it_feed it') = ls"
  by (auto simp: take_log_def Let_def split: option.splits)

lemma next_event_shrinks:
  assumes "next_event lib E err_case it = Returns (True, it')"
  shows "length (feed_logs (it_feed it')) < length (feed_logs (it_feed it))"
proof (cases "it_done it")
  case True
  with assms show ?thesis
    by (auto simp: next_event_done dest: take_log_shrinks split: if_splits list.splits)
next
  case False
  with assms show ?thesis
    by (subst (asm) next_event.simps)
      (auto simp: next_event_done dest!: take_log_shrinks split: if_splits list.splits option.splits)
qed

text \<open>The loop that the binding's users write, \<open>for it.Next() { ... it.Event ... }\<close>.\<close>

function collect_events ::
  "('abi, 'b, 'fo, 'wo, 'log, 'w) bind_log_lib \<Rightarrow> ('e, 'log) event_type \<Rightarrow> (nat \<Rightarrow> bool) \<Rightarrow> nat
    \<Rightarrow> ('e, 'log, 'abi, 'b) event_iterator \<Rightarrow> ('e list \<times> ('e, 'log, 'abi, 'b) event_iterator) select_result" where
  "collect_events lib E choice k it =
    (case next_event lib E (choice k) it of
       Waits \<Rightarrow> Waits
     | Panics \<Rightarrow> Panics
     | Returns (found, it') \<Rightarrow>
         if found then
           (case collect_events lib E choice (Suc k) it' of
              Returns (es, it'') \<Rightarrow> Returns (the (it_Event it') # es, it'')
            | Waits \<Rightarrow> Waits
            | Panics \<Rightarrow> Panics)
         else Returns ([], it'))"
  by pat_completeness auto

termination
  by (relation "measure (\<lambda>(lib, E, choice, k, it). length (feed_logs (it_feed it)))")
    (auto dest: next_event_shrinks)

declare collect_events.simps [simp del]

text \<open>An iterator that has not failed, over a feed that is complete and ends with \<open>final\<close>.\<close>

definition iterating ::
  "('abi, 'b) batch_authenticator_filterer \<Rightarrow> string \<Rightarrow> bind_err option \<Rightarrow> ('e, 'log, 'abi, 'b) event_iterator \<Rightarrow> bool" where
  "iterating f name final it \<longleftrightarrow> it_contract it = filterer_contract f \<and> it_event it = name
    \<and> it_fail it = None \<and> feed_end (it_feed it) = Some final \<and> (it_done it \<longrightarrow> final = None)"

lemma next_event_empty:
  assumes "iterating f name final it" and "feed_logs (it_feed it) = []"
  shows "\<exists>it'. next_event lib E err_case it = Returns (False, it') \<and> it_fail it' = final"
  using assms by (subst next_event.simps) (auto simp: iterating_def next_event_done)

text \<open>The next log is taken, or the subscription's error is.\<close>

lemma next_event_log:
  assumes "iterating f name final it" and "feed_logs (it_feed it) = l # ls"
  obtains (error) it' where "final \<noteq> None" "next_event lib E err_case it = Returns (False, it')" "it_fail it' = final"
  | (log) it1 where "iterating f name final it1" "feed_logs (it_feed it1) = l # ls"
      "next_event lib E err_case it = take_log lib E it1 l ls"
proof (cases "it_done it \<or> \<not> err_case")
  case True
  then have "next_event lib E err_case it = take_log lib E it l ls"
    using assms by (subst next_event.simps) (auto simp: iterating_def)
  with assms log show thesis by blast
next
  case False
  let ?it = "it\<lparr>it_done := True, it_fail := final\<rparr>"
  have *: "next_event lib E err_case it = next_event lib E err_case ?it"
    using assms False by (subst next_event.simps) (auto simp: iterating_def)
  show thesis
  proof (cases final)
    case None
    show thesis
      by (rule log [of ?it]) (use assms None * in \<open>auto simp: iterating_def next_event_done\<close>)
  next
    case (Some err)
    show thesis by (rule error [of ?it]) (use assms Some * in \<open>auto simp: next_event_done\<close>)
  qed
qed

lemma parse_event_unpack:
  "parse_event lib E f name l = Some (Inl err) \<Longrightarrow>
    \<exists>e. unpack_event lib E (filterer_contract f) name l = Some (Some err, e)"
  "parse_event lib E f name l = Some (Inr e) \<Longrightarrow>
    unpack_event lib E (filterer_contract f) name l = Some (None, e)"
  by (auto simp: parse_event_def split: option.splits)

lemma take_log_parse:
  assumes "iterating f name final it"
  shows "parse_event lib E f name l = Some (Inl err) \<Longrightarrow>
      \<exists>it'. take_log lib E it l ls = Returns (False, it') \<and> it_fail it' = Some err"
    and "parse_event lib E f name l = Some (Inr e) \<Longrightarrow>
      \<exists>it'. take_log lib E it l ls = Returns (True, it') \<and> it_Event it' = Some e
        \<and> iterating f name final it' \<and> feed_logs (it_feed it') = ls"
  using assms by (auto dest!: parse_event_unpack simp: take_log_def iterating_def)

text \<open>
  What the loop has of the logs \<open>ls\<close>, when \<open>parse\<close> reads them and \<open>final\<close> is the subscription's
  error: the events of the first of them, in order, and of all of them when \<open>Error\<close> is nil.
\<close>

definition collected ::
  "('log \<Rightarrow> (bind_err + 'e) option) \<Rightarrow> 'log list \<Rightarrow> bind_err option \<Rightarrow> 'e list \<Rightarrow> bind_err option \<Rightarrow> bool" where
  "collected parse ls final es fail \<longleftrightarrow>
    (\<exists>n. map parse (take n ls) = map (\<lambda>e. Some (Inr e)) es)
    \<and> (fail = None \<longrightarrow> map parse ls = map (\<lambda>e. Some (Inr e)) es)
    \<and> (fail = final \<or> (\<exists>l \<in> set ls. \<exists>err. parse l = Some (Inl err) \<and> fail = Some err))"

lemma collected_Nil: "fail = final \<Longrightarrow> ls = [] \<or> final \<noteq> None \<Longrightarrow> collected parse ls final [] fail"
  by (auto simp: collected_def intro: exI [of _ "0 :: nat"])

lemma collected_fail: "parse l = Some (Inl err) \<Longrightarrow> collected parse (l # ls) final [] (Some err)"
  by (auto simp: collected_def intro: exI [of _ "0 :: nat"])

lemma collected_Cons:
  assumes "parse l = Some (Inr e)" and "collected parse ls final es fail"
  shows "collected parse (l # ls) final (e # es) fail"
proof -
  from assms(2) obtain n where n: "map parse (take n ls) = map (\<lambda>e. Some (Inr e)) es"
    unfolding collected_def by blast
  have "map parse (take (Suc n) (l # ls)) = map (\<lambda>e. Some (Inr e)) (e # es)" using assms(1) n by simp
  with assms show ?thesis unfolding collected_def by (metis list.set_intros(2) list.simps(9))
qed

text \<open>Whatever case each \<open>select\<close> takes, the loop ends.\<close>

lemma collect_events_all:
  assumes "iterating f name final it" and "\<forall>l \<in> set (feed_logs (it_feed it)). parse_event lib E f name l \<noteq> None"
  shows "\<exists>es it'. collect_events lib E choice k it = Returns (es, it')
    \<and> collected (parse_event lib E f name) (feed_logs (it_feed it)) final es (it_fail it')"
  using assms
proof (induction "feed_logs (it_feed it)" arbitrary: it k)
  case Nil
  from next_event_empty [OF Nil.prems(1) Nil.hyps [symmetric], of lib E "choice k"] obtain it' where
    it': "next_event lib E (choice k) it = Returns (False, it')" "it_fail it' = final" by blast
  then have "collect_events lib E choice k it = Returns ([], it')"
    by (subst collect_events.simps) simp
  with it'(2) Nil.hyps show ?case by (metis collected_Nil)
next
  case (Cons l ls)
  note logs = Cons.hyps(2) [symmetric]
  show ?case
  proof (cases rule: next_event_log [OF Cons.prems(1) logs, of lib E "choice k", case_names error log])
    case (error it')
    then have "collect_events lib E choice k it = Returns ([], it')"
      by (subst collect_events.simps) simp
    with error show ?thesis by (metis collected_Nil)
  next
    case (log it1)
    from Cons.prems(2) logs obtain r where r: "parse_event lib E f name l = Some r" by auto
    show ?thesis
    proof (cases r)
      case (Inl err)
      obtain it' where it': "take_log lib E it1 l ls = Returns (False, it')" "it_fail it' = Some err"
        using take_log_parse(1) [OF log(1) r [unfolded Inl]] by blast
      then have "collect_events lib E choice k it = Returns ([], it')"
        by (subst collect_events.simps) (simp add: log(3))
      with it'(2) collected_fail [of "parse_event lib E f name", OF r [unfolded Inl]] logs
      show ?thesis by metis
    next
      case (Inr e)
      obtain it' where it': "take_log lib E it1 l ls = Returns (True, it')" "it_Event it' = Some e"
          "iterating f name final it'" "feed_logs (it_feed it') = ls"
        using take_log_parse(2) [OF log(1) r [unfolded Inr]] by blast
      have "\<forall>l \<in> set (feed_logs (it_feed it')). parse_event lib E f name l \<noteq> None"
        using Cons.prems(2) logs it'(4) by simp
      from Cons.hyps(1) [OF it'(4) [symmetric] it'(3) this, of "Suc k"] obtain es it2 where
        rec: "collect_events lib E choice (Suc k) it' = Returns (es, it2)"
          "collected (parse_event lib E f name) ls final es (it_fail it2)"
        unfolding it'(4) by blast
      have "collect_events lib E choice k it = Returns (e # es, it2)"
        by (subst collect_events.simps) (simp add: log(3) it' rec(1))
      with collected_Cons [of "parse_event lib E f name", OF r [unfolded Inr] rec(2)] logs
      show ?thesis by metis
    qed
  qed
qed

section \<open>What a watch forwards\<close>

text \<open>
  The logs of a watch are those its channel had and those that arrived since. What it has sent
  and has in hand are the events of the first \<open>n\<close> of them, while it runs the channel has the others,
  and what it returned is the error of a log that does not parse, of the subscription, or nil.
\<close>

fun in_hand :: "'e watch_phase \<Rightarrow> 'e list" where
  "in_hand (Forwarding e) = [e]" | "in_hand Selecting = []" | "in_hand (Ended r) = []" | "in_hand Crashed = []"

fun arrived :: "'log watch_case \<Rightarrow> 'log list" where
  "arrived (LogArrives l) = [l]" | "arrived (SubEnds r) = []" | "arrived TakeLog = []"
| "arrived TakeErr = []" | "arrived TakeQuit = []" | "arrived SendSink = []"

fun ends :: "'log watch_case \<Rightarrow> bind_err option set" where
  "ends (LogArrives l) = {}" | "ends (SubEnds r) = {r}" | "ends TakeLog = {}"
| "ends TakeErr = {}" | "ends TakeQuit = {}" | "ends SendSink = {}"

definition watching ::
  "('log \<Rightarrow> (bind_err + 'e) option) \<Rightarrow> ('abi, 'b) batch_authenticator_filterer \<Rightarrow> string \<Rightarrow> 'log list \<Rightarrow> bind_err option set
    \<Rightarrow> ('e, 'log, 'abi, 'b) watcher \<Rightarrow> bool" where
  "watching parse f name logs errs s \<longleftrightarrow> wt_contract s = filterer_contract f \<and> wt_event s = name
    \<and> map (\<lambda>e. Some (Inr e)) (wt_sink s) = map parse (take (length (wt_sink s)) logs) \<and>
    (case wt_phase s of
       Ended r \<Rightarrow> r \<in> insert None errs \<or> (\<exists>l \<in> set logs. \<exists>err. r = Some err \<and> parse l = Some (Inl err))
     | Crashed \<Rightarrow> \<exists>l \<in> set logs. parse l = None
     | p \<Rightarrow> set_option (feed_end (wt_feed s)) \<subseteq> errs
         \<and> map (\<lambda>e. Some (Inr e)) (wt_sink s @ in_hand p) @ map parse (feed_logs (wt_feed s)) = map parse logs)"

lemma watching_phase:
  "wt_phase s = Selecting \<Longrightarrow> watching parse f name logs errs s \<longleftrightarrow>
    wt_contract s = filterer_contract f \<and> wt_event s = name \<and> set_option (feed_end (wt_feed s)) \<subseteq> errs
    \<and> map (\<lambda>e. Some (Inr e)) (wt_sink s) @ map parse (feed_logs (wt_feed s)) = map parse logs"
  "wt_phase s = Forwarding e \<Longrightarrow> watching parse f name logs errs s \<longleftrightarrow>
    wt_contract s = filterer_contract f \<and> wt_event s = name \<and> set_option (feed_end (wt_feed s)) \<subseteq> errs
    \<and> map (\<lambda>e. Some (Inr e)) (wt_sink s @ [e]) @ map parse (feed_logs (wt_feed s)) = map parse logs"
  by (auto simp: watching_def append_eq_conv_conj take_map)

lemma watching_more:
  assumes "watching parse f name logs errs s" and "\<not> active (wt_phase s)"
    and "wt_contract s' = wt_contract s" "wt_event s' = wt_event s" "wt_sink s' = wt_sink s" "wt_phase s' = wt_phase s"
  shows "watching parse f name (logs @ ls) (errs \<union> rs) s'"
proof -
  have "length (wt_sink s) \<le> length logs"
    using assms(1) unfolding watching_def by (metis length_map length_take min.absorb_iff2)
  with assms show ?thesis by (cases "wt_phase s") (auto simp: watching_def)
qed

lemma watching_end:
  assumes "watching parse f name logs errs s" and "active (wt_phase s)"
    and "r \<in> insert None errs"
  shows "watching parse f name logs errs (end_watch lib (Ended r) s)"
  using assms by (cases "wt_phase s") (auto simp: watching_def end_watch_def)

lemma watch_step_keeps:
  assumes inv: "watching (parse_event lib E f name) f name logs errs s" and step: "watch_step lib E k s = Some s'"
  shows "watching (parse_event lib E f name) f name (logs @ arrived k) (errs \<union> ends k) s'"
proof (cases k)
  case TakeLog
  with step obtain l ls where sel: "wt_phase s = Selecting" "feed_logs (wt_feed s) = l # ls"
    by (auto split: watch_phase.splits list.splits)
  from inv sel have c: "wt_contract s = filterer_contract f" "wt_event s = name"
    and logs: "map (\<lambda>e. Some (Inr e)) (wt_sink s) @ parse_event lib E f name l # map (parse_event lib E f name) ls
      = map (parse_event lib E f name) logs" "set_option (feed_end (wt_feed s)) \<subseteq> errs"
    by (simp_all add: watching_phase)
  from inv have sink: "map (\<lambda>e. Some (Inr e)) (wt_sink s) = map (parse_event lib E f name) (take (length (wt_sink s)) logs)"
    by (simp add: watching_def)
  have "parse_event lib E f name l \<in> set (map (parse_event lib E f name) logs)"
    unfolding logs(1) [symmetric] by simp
  then obtain l' where l': "l' \<in> set logs" "parse_event lib E f name l' = parse_event lib E f name l" by auto
  show ?thesis
  proof (cases "unpack_event lib E (filterer_contract f) name l")
    case None
    with l' have "\<exists>l \<in> set logs. parse_event lib E f name l = None" by (auto simp: parse_event_def)
    with step sel c sink None TakeLog show ?thesis by (auto simp: watching_def end_watch_def)
  next
    case (Some r)
    obtain err e where r: "r = (err, e)" by fastforce
    show ?thesis
    proof (cases err)
      case (Some err')
      with r \<open>unpack_event _ _ _ _ _ = Some r\<close> l'
      have "\<exists>l \<in> set logs. parse_event lib E f name l = Some (Inl err')" by (auto simp: parse_event_def)
      with step sel c sink \<open>unpack_event _ _ _ _ _ = Some r\<close> r Some TakeLog show ?thesis
        by (auto simp: watching_def end_watch_def)
    next
      case None
      with step sel c r \<open>unpack_event _ _ _ _ _ = Some r\<close> TakeLog
      have "s' = s\<lparr>wt_feed := (wt_feed s)\<lparr>feed_logs := ls\<rparr>, wt_phase := Forwarding e\<rparr>" by simp
      moreover have "parse_event lib E f name l = Some (Inr e)"
        using r None \<open>unpack_event _ _ _ _ _ = Some r\<close> by (simp add: parse_event_def)
      ultimately show ?thesis using c logs TakeLog by (simp add: watching_phase)
    qed
  qed
next
  case (LogArrives l)
  show ?thesis
  proof (cases "active (wt_phase s)")
    case True
    with inv step LogArrives show ?thesis by (cases "wt_phase s") (auto simp: watching_phase)
  qed (use inv step LogArrives in \<open>auto intro!: watching_more [OF inv, where rs = "{}", simplified]\<close>)
next
  case (SubEnds r)
  show ?thesis
  proof (cases "active (wt_phase s)")
    case True
    with inv step SubEnds show ?thesis by (cases "wt_phase s") (auto simp: watching_phase)
  qed (use inv step SubEnds in \<open>auto intro!: watching_more [OF inv, where ls = "[]" and rs = "{r}", simplified]\<close>)
next
  case TakeErr
  with step obtain r where r: "feed_end (wt_feed s) = Some r" "active (wt_phase s)" "s' = end_watch lib (Ended r) s"
    by (auto split: option.splits if_splits)
  with inv have "r \<in> errs" by (cases "wt_phase s") (auto simp: watching_phase)
  with inv r show ?thesis by (auto simp: TakeErr intro!: watching_end)
next
  case TakeQuit
  with inv step show ?thesis by (auto intro!: watching_end split: if_splits)
next
  case SendSink
  with inv step show ?thesis by (auto simp: watching_phase split: watch_phase.splits)
qed

lemma watch_run_keeps:
  "watching (parse_event lib E f name) f name logs errs s \<Longrightarrow> watch_run lib E ks s = Some s' \<Longrightarrow>
    watching (parse_event lib E f name) f name (logs @ concat (map arrived ks)) (errs \<union> \<Union> (set (map ends ks))) s'"
proof (induction ks arbitrary: logs errs s)
  case (Cons k ks)
  from Cons.prems(2) obtain s1 where s1: "watch_step lib E k s = Some s1" "watch_run lib E ks s1 = Some s'"
    by (auto simp: bind_eq_Some_conv)
  from Cons.IH [OF watch_step_keeps [OF Cons.prems(1) s1(1)] s1(2)] show ?case by (simp add: Un_assoc)
qed simp

lemma watch_forwards_in_order:
  assumes "watch_event lib f opts name rules w = (Inr s0, w')" and "watch_run lib E ks s0 = Some s"
  defines "logs \<equiv> feed_logs (wt_feed s0) @ concat (map arrived ks)"
  shows "map (\<lambda>e. Some (Inr e)) (wt_sink s) = map (parse_event lib E f name) (take (length (wt_sink s)) logs)"
    and "wt_phase s = Selecting \<Longrightarrow> feed_logs (wt_feed s) = [] \<Longrightarrow>
      map (\<lambda>e. Some (Inr e)) (wt_sink s) = map (parse_event lib E f name) logs"
    and "wt_phase s = Crashed \<Longrightarrow> \<exists>l \<in> set logs. parse_event lib E f name l = None"
proof -
  have "watching (parse_event lib E f name) f name (feed_logs (wt_feed s0)) (set_option (feed_end (wt_feed s0))) s0"
    using assms(1) by (auto simp: watch_event_def watching_def bind_res_Inr_iff split: prod.splits)
  from watch_run_keeps [OF this assms(2)] obtain errs where inv: "watching (parse_event lib E f name) f name logs errs s"
    unfolding logs_def by blast
  from inv show "map (\<lambda>e. Some (Inr e)) (wt_sink s) = map (parse_event lib E f name) (take (length (wt_sink s)) logs)"
    unfolding watching_def by blast
  show "wt_phase s = Selecting \<Longrightarrow> feed_logs (wt_feed s) = [] \<Longrightarrow>
      map (\<lambda>e. Some (Inr e)) (wt_sink s) = map (parse_event lib E f name) logs"
    using inv by (simp add: watching_phase)
  show "wt_phase s = Crashed \<Longrightarrow> \<exists>l \<in> set logs. parse_event lib E f name l = None"
    using inv by (simp add: watching_def)
qed

end
