(* ===== verification/Batch_Authenticator_Events.thy ===== *)
theory Batch_Authenticator_Events
  imports Batch_Authenticator_Logs
begin

text \<open>
  The nine events of \<open>op/bindings/batch_authenticator.go\<close>, with the functions generated for each
  of them from the code of \<open>Batch_Authenticator_Logs\<close>. For an event \<open>X\<close> there are the struct
  \<open>BatchAuthenticatorX\<close>, its iterator with \<open>Next_X\<close>, \<open>Error_X\<close> and \<open>Close_X\<close>, and the
  filterer's \<open>Filter_X\<close>, \<open>Watch_X\<close> and \<open>Parse_X\<close>; \<open>X_type\<close> is the struct as the library sees it,
  \<open>X_args\<close> lists its fields.
\<close>

section \<open>BatchInfoAuthenticated\<close>

record 'log BatchAuthenticatorBatchInfoAuthenticated =
  bia_Commitment :: hash
  bia_Caller :: address
  bia_Raw :: "'log option"               \<comment> \<open>\<open>None\<close>: the zero log\<close>

type_synonym ('log, 'abi, 'b) BatchAuthenticatorBatchInfoAuthenticatedIterator =
  "('log BatchAuthenticatorBatchInfoAuthenticated, 'log, 'abi, 'b) event_iterator"

definition BatchInfoAuthenticated_type :: "('log BatchAuthenticatorBatchInfoAuthenticated, 'log)
  event_type" where
  "BatchInfoAuthenticated_type =
    \<lparr>ev_new = \<lparr>bia_Commitment = 0, bia_Caller = 0, bia_Raw = None\<rparr>,
     ev_put = (\<lambda>n v e.
        if n = ''Commitment'' then map_option (\<lambda>x. e\<lparr>bia_Commitment := x\<rparr>) (as_bytes32 v)
        else if n = ''Caller'' then map_option (\<lambda>x. e\<lparr>bia_Caller := x\<rparr>) (as_address v)
        else None),
     ev_raw = (\<lambda>l e. e\<lparr>bia_Raw := Some l\<rparr>)\<rparr>"

definition BatchInfoAuthenticated_args :: "'log BatchAuthenticatorBatchInfoAuthenticated
  \<Rightarrow> (string \<times> abi_value) list" where
  "BatchInfoAuthenticated_args e =
    [(''Commitment'', AbiBytes32 (bia_Commitment e)), (''Caller'', AbiAddress (bia_Caller e))]"

definition Next_BatchInfoAuthenticated ::
  "('abi, 'b, 'fo, 'wo, 'log, 'w) bind_log_lib \<Rightarrow> bool
    \<Rightarrow> ('log, 'abi, 'b) BatchAuthenticatorBatchInfoAuthenticatedIterator
      \<Rightarrow> (bool \<times> ('log, 'abi, 'b) BatchAuthenticatorBatchInfoAuthenticatedIterator)
      select_result" where
  "Next_BatchInfoAuthenticated lib = next_event lib BatchInfoAuthenticated_type"

definition Error_BatchInfoAuthenticated :: "('log, 'abi, 'b)
  BatchAuthenticatorBatchInfoAuthenticatedIterator \<Rightarrow> bind_err option" where
  "Error_BatchInfoAuthenticated = iterator_error"

definition Close_BatchInfoAuthenticated ::
  "('abi, 'b, 'fo, 'wo, 'log, 'w) bind_log_lib \<Rightarrow> ('log, 'abi, 'b)
    BatchAuthenticatorBatchInfoAuthenticatedIterator
    \<Rightarrow> bind_err option \<times> ('log, 'abi, 'b) BatchAuthenticatorBatchInfoAuthenticatedIterator" where
  "Close_BatchInfoAuthenticated = iterator_close"

definition Filter_BatchInfoAuthenticated ::
  "('abi, 'b, 'fo, 'wo, 'log, 'w) bind_log_lib \<Rightarrow> ('abi, 'b) batch_authenticator_filterer \<Rightarrow> 'fo
    \<Rightarrow> address list
    \<Rightarrow> 'w \<Rightarrow> (bind_err + ('log, 'abi, 'b) BatchAuthenticatorBatchInfoAuthenticatedIterator) \<times> 'w"
      where
  "Filter_BatchInfoAuthenticated lib f opts caller =
    filter_event lib f opts ''BatchInfoAuthenticated'' [map AbiAddress caller]"

definition Watch_BatchInfoAuthenticated ::
  "('abi, 'b, 'fo, 'wo, 'log, 'w) bind_log_lib \<Rightarrow> ('abi, 'b) batch_authenticator_filterer \<Rightarrow> 'wo
    \<Rightarrow> address list
    \<Rightarrow> 'w \<Rightarrow> (bind_err + ('log BatchAuthenticatorBatchInfoAuthenticated, 'log, 'abi, 'b) watcher)
      \<times> 'w" where
  "Watch_BatchInfoAuthenticated lib f opts caller =
    watch_event lib f opts ''BatchInfoAuthenticated'' [map AbiAddress caller]"

definition Parse_BatchInfoAuthenticated ::
  "('abi, 'b, 'fo, 'wo, 'log, 'w) bind_log_lib \<Rightarrow> ('abi, 'b) batch_authenticator_filterer
    \<Rightarrow> 'log \<Rightarrow> (bind_err + 'log BatchAuthenticatorBatchInfoAuthenticated) option" where
  "Parse_BatchInfoAuthenticated lib f =
    parse_event lib BatchInfoAuthenticated_type f ''BatchInfoAuthenticated''"

interpretation BatchInfoAuthenticated: event_struct BatchInfoAuthenticated_type
  BatchInfoAuthenticated_args bia_Raw
  by unfold_locales (auto simp: BatchInfoAuthenticated_type_def BatchInfoAuthenticated_args_def
    conversion_iff abi_type_of_iff)

section \<open>BatcherSwitched\<close>

record 'log BatchAuthenticatorBatcherSwitched =
  bsw_ActiveIsEspresso :: bool
  bsw_Raw :: "'log option"               \<comment> \<open>\<open>None\<close>: the zero log\<close>

type_synonym ('log, 'abi, 'b) BatchAuthenticatorBatcherSwitchedIterator =
  "('log BatchAuthenticatorBatcherSwitched, 'log, 'abi, 'b) event_iterator"

definition BatcherSwitched_type :: "('log BatchAuthenticatorBatcherSwitched, 'log) event_type" where
  "BatcherSwitched_type =
    \<lparr>ev_new = \<lparr>bsw_ActiveIsEspresso = False, bsw_Raw = None\<rparr>,
     ev_put = (\<lambda>n v e.
        if n = ''ActiveIsEspresso'' then map_option (\<lambda>x. e\<lparr>bsw_ActiveIsEspresso := x\<rparr>) (as_bool v)
        else None),
     ev_raw = (\<lambda>l e. e\<lparr>bsw_Raw := Some l\<rparr>)\<rparr>"

definition BatcherSwitched_args :: "'log BatchAuthenticatorBatcherSwitched
  \<Rightarrow> (string \<times> abi_value) list" where
  "BatcherSwitched_args e = [(''ActiveIsEspresso'', AbiBool (bsw_ActiveIsEspresso e))]"

definition Next_BatcherSwitched ::
  "('abi, 'b, 'fo, 'wo, 'log, 'w) bind_log_lib \<Rightarrow> bool
    \<Rightarrow> ('log, 'abi, 'b) BatchAuthenticatorBatcherSwitchedIterator
      \<Rightarrow> (bool \<times> ('log, 'abi, 'b) BatchAuthenticatorBatcherSwitchedIterator) select_result" where
  "Next_BatcherSwitched lib = next_event lib BatcherSwitched_type"

definition Error_BatcherSwitched :: "('log, 'abi, 'b) BatchAuthenticatorBatcherSwitchedIterator
  \<Rightarrow> bind_err option" where
  "Error_BatcherSwitched = iterator_error"

definition Close_BatcherSwitched ::
  "('abi, 'b, 'fo, 'wo, 'log, 'w) bind_log_lib \<Rightarrow> ('log, 'abi, 'b)
    BatchAuthenticatorBatcherSwitchedIterator
    \<Rightarrow> bind_err option \<times> ('log, 'abi, 'b) BatchAuthenticatorBatcherSwitchedIterator" where
  "Close_BatcherSwitched = iterator_close"

definition Filter_BatcherSwitched ::
  "('abi, 'b, 'fo, 'wo, 'log, 'w) bind_log_lib \<Rightarrow> ('abi, 'b) batch_authenticator_filterer \<Rightarrow> 'fo
    \<Rightarrow> bool list
    \<Rightarrow> 'w \<Rightarrow> (bind_err + ('log, 'abi, 'b) BatchAuthenticatorBatcherSwitchedIterator) \<times> 'w" where
  "Filter_BatcherSwitched lib f opts activeIsEspresso =
    filter_event lib f opts ''BatcherSwitched'' [map AbiBool activeIsEspresso]"

definition Watch_BatcherSwitched ::
  "('abi, 'b, 'fo, 'wo, 'log, 'w) bind_log_lib \<Rightarrow> ('abi, 'b) batch_authenticator_filterer \<Rightarrow> 'wo
    \<Rightarrow> bool list
    \<Rightarrow> 'w \<Rightarrow> (bind_err + ('log BatchAuthenticatorBatcherSwitched, 'log, 'abi, 'b) watcher) \<times> 'w" where
  "Watch_BatcherSwitched lib f opts activeIsEspresso =
    watch_event lib f opts ''BatcherSwitched'' [map AbiBool activeIsEspresso]"

definition Parse_BatcherSwitched ::
  "('abi, 'b, 'fo, 'wo, 'log, 'w) bind_log_lib \<Rightarrow> ('abi, 'b) batch_authenticator_filterer
    \<Rightarrow> 'log \<Rightarrow> (bind_err + 'log BatchAuthenticatorBatcherSwitched) option" where
  "Parse_BatcherSwitched lib f = parse_event lib BatcherSwitched_type f ''BatcherSwitched''"

interpretation BatcherSwitched: event_struct BatcherSwitched_type BatcherSwitched_args bsw_Raw
  by unfold_locales (auto simp: BatcherSwitched_type_def BatcherSwitched_args_def conversion_iff
    abi_type_of_iff)

section \<open>EspressoBatcherUpdated\<close>

record 'log BatchAuthenticatorEspressoBatcherUpdated =
  ebu_OldEspressoBatcher :: address
  ebu_NewEspressoBatcher :: address
  ebu_FromBlock :: u64
  ebu_Raw :: "'log option"               \<comment> \<open>\<open>None\<close>: the zero log\<close>

type_synonym ('log, 'abi, 'b) BatchAuthenticatorEspressoBatcherUpdatedIterator =
  "('log BatchAuthenticatorEspressoBatcherUpdated, 'log, 'abi, 'b) event_iterator"

definition EspressoBatcherUpdated_type :: "('log BatchAuthenticatorEspressoBatcherUpdated, 'log)
  event_type" where
  "EspressoBatcherUpdated_type =
    \<lparr>ev_new = \<lparr>ebu_OldEspressoBatcher = 0, ebu_NewEspressoBatcher = 0, ebu_FromBlock = 0,
      ebu_Raw = None\<rparr>,
     ev_put = (\<lambda>n v e.
        if n = ''OldEspressoBatcher'' then map_option (\<lambda>x. e\<lparr>ebu_OldEspressoBatcher := x\<rparr>)
        (as_address v)
        else if n = ''NewEspressoBatcher'' then map_option (\<lambda>x. e\<lparr>ebu_NewEspressoBatcher := x\<rparr>)
        (as_address v)
        else if n = ''FromBlock'' then map_option (\<lambda>x. e\<lparr>ebu_FromBlock := x\<rparr>) (as_uint64 v)
        else None),
     ev_raw = (\<lambda>l e. e\<lparr>ebu_Raw := Some l\<rparr>)\<rparr>"

definition EspressoBatcherUpdated_args :: "'log BatchAuthenticatorEspressoBatcherUpdated
  \<Rightarrow> (string \<times> abi_value) list" where
  "EspressoBatcherUpdated_args e =
    [(''OldEspressoBatcher'', AbiAddress (ebu_OldEspressoBatcher e)), (''NewEspressoBatcher'',
      AbiAddress (ebu_NewEspressoBatcher e)), (''FromBlock'', AbiUint64 (ebu_FromBlock e))]"

definition Next_EspressoBatcherUpdated ::
  "('abi, 'b, 'fo, 'wo, 'log, 'w) bind_log_lib \<Rightarrow> bool
    \<Rightarrow> ('log, 'abi, 'b) BatchAuthenticatorEspressoBatcherUpdatedIterator
      \<Rightarrow> (bool \<times> ('log, 'abi, 'b) BatchAuthenticatorEspressoBatcherUpdatedIterator)
      select_result" where
  "Next_EspressoBatcherUpdated lib = next_event lib EspressoBatcherUpdated_type"

definition Error_EspressoBatcherUpdated :: "('log, 'abi, 'b)
  BatchAuthenticatorEspressoBatcherUpdatedIterator \<Rightarrow> bind_err option" where
  "Error_EspressoBatcherUpdated = iterator_error"

definition Close_EspressoBatcherUpdated ::
  "('abi, 'b, 'fo, 'wo, 'log, 'w) bind_log_lib \<Rightarrow> ('log, 'abi, 'b)
    BatchAuthenticatorEspressoBatcherUpdatedIterator
    \<Rightarrow> bind_err option \<times> ('log, 'abi, 'b) BatchAuthenticatorEspressoBatcherUpdatedIterator" where
  "Close_EspressoBatcherUpdated = iterator_close"

definition Filter_EspressoBatcherUpdated ::
  "('abi, 'b, 'fo, 'wo, 'log, 'w) bind_log_lib \<Rightarrow> ('abi, 'b) batch_authenticator_filterer \<Rightarrow> 'fo
    \<Rightarrow> address list \<Rightarrow> address list \<Rightarrow> u64 list
    \<Rightarrow> 'w \<Rightarrow> (bind_err + ('log, 'abi, 'b) BatchAuthenticatorEspressoBatcherUpdatedIterator) \<times> 'w"
      where
  "Filter_EspressoBatcherUpdated lib f opts oldEspressoBatcher newEspressoBatcher fromBlock =
    filter_event lib f opts ''EspressoBatcherUpdated'' [map AbiAddress oldEspressoBatcher, map
      AbiAddress newEspressoBatcher, map AbiUint64 fromBlock]"

definition Watch_EspressoBatcherUpdated ::
  "('abi, 'b, 'fo, 'wo, 'log, 'w) bind_log_lib \<Rightarrow> ('abi, 'b) batch_authenticator_filterer \<Rightarrow> 'wo
    \<Rightarrow> address list \<Rightarrow> address list \<Rightarrow> u64 list
    \<Rightarrow> 'w \<Rightarrow> (bind_err + ('log BatchAuthenticatorEspressoBatcherUpdated, 'log, 'abi, 'b) watcher)
      \<times> 'w" where
  "Watch_EspressoBatcherUpdated lib f opts oldEspressoBatcher newEspressoBatcher fromBlock =
    watch_event lib f opts ''EspressoBatcherUpdated'' [map AbiAddress oldEspressoBatcher, map
      AbiAddress newEspressoBatcher, map AbiUint64 fromBlock]"

definition Parse_EspressoBatcherUpdated ::
  "('abi, 'b, 'fo, 'wo, 'log, 'w) bind_log_lib \<Rightarrow> ('abi, 'b) batch_authenticator_filterer
    \<Rightarrow> 'log \<Rightarrow> (bind_err + 'log BatchAuthenticatorEspressoBatcherUpdated) option" where
  "Parse_EspressoBatcherUpdated lib f =
    parse_event lib EspressoBatcherUpdated_type f ''EspressoBatcherUpdated''"

interpretation EspressoBatcherUpdated: event_struct EspressoBatcherUpdated_type
  EspressoBatcherUpdated_args ebu_Raw
  by unfold_locales (auto simp: EspressoBatcherUpdated_type_def EspressoBatcherUpdated_args_def
    conversion_iff abi_type_of_iff)

section \<open>GuardianAdded\<close>

record 'log BatchAuthenticatorGuardianAdded =
  gad_Guardian :: address
  gad_Raw :: "'log option"               \<comment> \<open>\<open>None\<close>: the zero log\<close>

type_synonym ('log, 'abi, 'b) BatchAuthenticatorGuardianAddedIterator =
  "('log BatchAuthenticatorGuardianAdded, 'log, 'abi, 'b) event_iterator"

definition GuardianAdded_type :: "('log BatchAuthenticatorGuardianAdded, 'log) event_type" where
  "GuardianAdded_type =
    \<lparr>ev_new = \<lparr>gad_Guardian = 0, gad_Raw = None\<rparr>,
     ev_put = (\<lambda>n v e.
        if n = ''Guardian'' then map_option (\<lambda>x. e\<lparr>gad_Guardian := x\<rparr>) (as_address v)
        else None),
     ev_raw = (\<lambda>l e. e\<lparr>gad_Raw := Some l\<rparr>)\<rparr>"

definition GuardianAdded_args :: "'log BatchAuthenticatorGuardianAdded
  \<Rightarrow> (string \<times> abi_value) list" where
  "GuardianAdded_args e = [(''Guardian'', AbiAddress (gad_Guardian e))]"

definition Next_GuardianAdded ::
  "('abi, 'b, 'fo, 'wo, 'log, 'w) bind_log_lib \<Rightarrow> bool
    \<Rightarrow> ('log, 'abi, 'b) BatchAuthenticatorGuardianAddedIterator
      \<Rightarrow> (bool \<times> ('log, 'abi, 'b) BatchAuthenticatorGuardianAddedIterator) select_result" where
  "Next_GuardianAdded lib = next_event lib GuardianAdded_type"

definition Error_GuardianAdded :: "('log, 'abi, 'b) BatchAuthenticatorGuardianAddedIterator
  \<Rightarrow> bind_err option" where
  "Error_GuardianAdded = iterator_error"

definition Close_GuardianAdded ::
  "('abi, 'b, 'fo, 'wo, 'log, 'w) bind_log_lib \<Rightarrow> ('log, 'abi, 'b)
    BatchAuthenticatorGuardianAddedIterator
    \<Rightarrow> bind_err option \<times> ('log, 'abi, 'b) BatchAuthenticatorGuardianAddedIterator" where
  "Close_GuardianAdded = iterator_close"

definition Filter_GuardianAdded ::
  "('abi, 'b, 'fo, 'wo, 'log, 'w) bind_log_lib \<Rightarrow> ('abi, 'b) batch_authenticator_filterer \<Rightarrow> 'fo
    \<Rightarrow> address list
    \<Rightarrow> 'w \<Rightarrow> (bind_err + ('log, 'abi, 'b) BatchAuthenticatorGuardianAddedIterator) \<times> 'w" where
  "Filter_GuardianAdded lib f opts guardian =
    filter_event lib f opts ''GuardianAdded'' [map AbiAddress guardian]"

definition Watch_GuardianAdded ::
  "('abi, 'b, 'fo, 'wo, 'log, 'w) bind_log_lib \<Rightarrow> ('abi, 'b) batch_authenticator_filterer \<Rightarrow> 'wo
    \<Rightarrow> address list
    \<Rightarrow> 'w \<Rightarrow> (bind_err + ('log BatchAuthenticatorGuardianAdded, 'log, 'abi, 'b) watcher) \<times> 'w" where
  "Watch_GuardianAdded lib f opts guardian =
    watch_event lib f opts ''GuardianAdded'' [map AbiAddress guardian]"

definition Parse_GuardianAdded ::
  "('abi, 'b, 'fo, 'wo, 'log, 'w) bind_log_lib \<Rightarrow> ('abi, 'b) batch_authenticator_filterer
    \<Rightarrow> 'log \<Rightarrow> (bind_err + 'log BatchAuthenticatorGuardianAdded) option" where
  "Parse_GuardianAdded lib f = parse_event lib GuardianAdded_type f ''GuardianAdded''"

interpretation GuardianAdded: event_struct GuardianAdded_type GuardianAdded_args gad_Raw
  by unfold_locales (auto simp: GuardianAdded_type_def GuardianAdded_args_def conversion_iff
    abi_type_of_iff)

section \<open>GuardianRemoved\<close>

record 'log BatchAuthenticatorGuardianRemoved =
  grm_Guardian :: address
  grm_Raw :: "'log option"               \<comment> \<open>\<open>None\<close>: the zero log\<close>

type_synonym ('log, 'abi, 'b) BatchAuthenticatorGuardianRemovedIterator =
  "('log BatchAuthenticatorGuardianRemoved, 'log, 'abi, 'b) event_iterator"

definition GuardianRemoved_type :: "('log BatchAuthenticatorGuardianRemoved, 'log) event_type" where
  "GuardianRemoved_type =
    \<lparr>ev_new = \<lparr>grm_Guardian = 0, grm_Raw = None\<rparr>,
     ev_put = (\<lambda>n v e.
        if n = ''Guardian'' then map_option (\<lambda>x. e\<lparr>grm_Guardian := x\<rparr>) (as_address v)
        else None),
     ev_raw = (\<lambda>l e. e\<lparr>grm_Raw := Some l\<rparr>)\<rparr>"

definition GuardianRemoved_args :: "'log BatchAuthenticatorGuardianRemoved
  \<Rightarrow> (string \<times> abi_value) list" where
  "GuardianRemoved_args e = [(''Guardian'', AbiAddress (grm_Guardian e))]"

definition Next_GuardianRemoved ::
  "('abi, 'b, 'fo, 'wo, 'log, 'w) bind_log_lib \<Rightarrow> bool
    \<Rightarrow> ('log, 'abi, 'b) BatchAuthenticatorGuardianRemovedIterator
      \<Rightarrow> (bool \<times> ('log, 'abi, 'b) BatchAuthenticatorGuardianRemovedIterator) select_result" where
  "Next_GuardianRemoved lib = next_event lib GuardianRemoved_type"

definition Error_GuardianRemoved :: "('log, 'abi, 'b) BatchAuthenticatorGuardianRemovedIterator
  \<Rightarrow> bind_err option" where
  "Error_GuardianRemoved = iterator_error"

definition Close_GuardianRemoved ::
  "('abi, 'b, 'fo, 'wo, 'log, 'w) bind_log_lib \<Rightarrow> ('log, 'abi, 'b)
    BatchAuthenticatorGuardianRemovedIterator
    \<Rightarrow> bind_err option \<times> ('log, 'abi, 'b) BatchAuthenticatorGuardianRemovedIterator" where
  "Close_GuardianRemoved = iterator_close"

definition Filter_GuardianRemoved ::
  "('abi, 'b, 'fo, 'wo, 'log, 'w) bind_log_lib \<Rightarrow> ('abi, 'b) batch_authenticator_filterer \<Rightarrow> 'fo
    \<Rightarrow> address list
    \<Rightarrow> 'w \<Rightarrow> (bind_err + ('log, 'abi, 'b) BatchAuthenticatorGuardianRemovedIterator) \<times> 'w" where
  "Filter_GuardianRemoved lib f opts guardian =
    filter_event lib f opts ''GuardianRemoved'' [map AbiAddress guardian]"

definition Watch_GuardianRemoved ::
  "('abi, 'b, 'fo, 'wo, 'log, 'w) bind_log_lib \<Rightarrow> ('abi, 'b) batch_authenticator_filterer \<Rightarrow> 'wo
    \<Rightarrow> address list
    \<Rightarrow> 'w \<Rightarrow> (bind_err + ('log BatchAuthenticatorGuardianRemoved, 'log, 'abi, 'b) watcher) \<times> 'w" where
  "Watch_GuardianRemoved lib f opts guardian =
    watch_event lib f opts ''GuardianRemoved'' [map AbiAddress guardian]"

definition Parse_GuardianRemoved ::
  "('abi, 'b, 'fo, 'wo, 'log, 'w) bind_log_lib \<Rightarrow> ('abi, 'b) batch_authenticator_filterer
    \<Rightarrow> 'log \<Rightarrow> (bind_err + 'log BatchAuthenticatorGuardianRemoved) option" where
  "Parse_GuardianRemoved lib f = parse_event lib GuardianRemoved_type f ''GuardianRemoved''"

interpretation GuardianRemoved: event_struct GuardianRemoved_type GuardianRemoved_args grm_Raw
  by unfold_locales (auto simp: GuardianRemoved_type_def GuardianRemoved_args_def conversion_iff
    abi_type_of_iff)

section \<open>Initialized\<close>

record 'log BatchAuthenticatorInitialized =
  ini_Version :: u64
  ini_Raw :: "'log option"               \<comment> \<open>\<open>None\<close>: the zero log\<close>

type_synonym ('log, 'abi, 'b) BatchAuthenticatorInitializedIterator =
  "('log BatchAuthenticatorInitialized, 'log, 'abi, 'b) event_iterator"

definition Initialized_type :: "('log BatchAuthenticatorInitialized, 'log) event_type" where
  "Initialized_type =
    \<lparr>ev_new = \<lparr>ini_Version = 0, ini_Raw = None\<rparr>,
     ev_put = (\<lambda>n v e.
        if n = ''Version'' then map_option (\<lambda>x. e\<lparr>ini_Version := x\<rparr>) (as_uint64 v)
        else None),
     ev_raw = (\<lambda>l e. e\<lparr>ini_Raw := Some l\<rparr>)\<rparr>"

definition Initialized_args :: "'log BatchAuthenticatorInitialized
  \<Rightarrow> (string \<times> abi_value) list" where
  "Initialized_args e = [(''Version'', AbiUint64 (ini_Version e))]"

definition Next_Initialized ::
  "('abi, 'b, 'fo, 'wo, 'log, 'w) bind_log_lib \<Rightarrow> bool
    \<Rightarrow> ('log, 'abi, 'b) BatchAuthenticatorInitializedIterator
      \<Rightarrow> (bool \<times> ('log, 'abi, 'b) BatchAuthenticatorInitializedIterator) select_result" where
  "Next_Initialized lib = next_event lib Initialized_type"

definition Error_Initialized :: "('log, 'abi, 'b) BatchAuthenticatorInitializedIterator
  \<Rightarrow> bind_err option" where
  "Error_Initialized = iterator_error"

definition Close_Initialized ::
  "('abi, 'b, 'fo, 'wo, 'log, 'w) bind_log_lib \<Rightarrow> ('log, 'abi, 'b)
    BatchAuthenticatorInitializedIterator
    \<Rightarrow> bind_err option \<times> ('log, 'abi, 'b) BatchAuthenticatorInitializedIterator" where
  "Close_Initialized = iterator_close"

definition Filter_Initialized ::
  "('abi, 'b, 'fo, 'wo, 'log, 'w) bind_log_lib \<Rightarrow> ('abi, 'b) batch_authenticator_filterer \<Rightarrow> 'fo
    \<Rightarrow> 'w \<Rightarrow> (bind_err + ('log, 'abi, 'b) BatchAuthenticatorInitializedIterator) \<times> 'w" where
  "Filter_Initialized lib f opts = filter_event lib f opts ''Initialized'' []"

definition Watch_Initialized ::
  "('abi, 'b, 'fo, 'wo, 'log, 'w) bind_log_lib \<Rightarrow> ('abi, 'b) batch_authenticator_filterer \<Rightarrow> 'wo
    \<Rightarrow> 'w \<Rightarrow> (bind_err + ('log BatchAuthenticatorInitialized, 'log, 'abi, 'b) watcher) \<times> 'w" where
  "Watch_Initialized lib f opts = watch_event lib f opts ''Initialized'' []"

definition Parse_Initialized ::
  "('abi, 'b, 'fo, 'wo, 'log, 'w) bind_log_lib \<Rightarrow> ('abi, 'b) batch_authenticator_filterer
    \<Rightarrow> 'log \<Rightarrow> (bind_err + 'log BatchAuthenticatorInitialized) option" where
  "Parse_Initialized lib f = parse_event lib Initialized_type f ''Initialized''"

interpretation Initialized: event_struct Initialized_type Initialized_args ini_Raw
  by unfold_locales (auto simp: Initialized_type_def Initialized_args_def conversion_iff
    abi_type_of_iff)

section \<open>OwnershipTransferStarted\<close>

record 'log BatchAuthenticatorOwnershipTransferStarted =
  ots_PreviousOwner :: address
  ots_NewOwner :: address
  ots_Raw :: "'log option"               \<comment> \<open>\<open>None\<close>: the zero log\<close>

type_synonym ('log, 'abi, 'b) BatchAuthenticatorOwnershipTransferStartedIterator =
  "('log BatchAuthenticatorOwnershipTransferStarted, 'log, 'abi, 'b) event_iterator"

definition OwnershipTransferStarted_type :: "('log BatchAuthenticatorOwnershipTransferStarted,
  'log) event_type" where
  "OwnershipTransferStarted_type =
    \<lparr>ev_new = \<lparr>ots_PreviousOwner = 0, ots_NewOwner = 0, ots_Raw = None\<rparr>,
     ev_put = (\<lambda>n v e.
        if n = ''PreviousOwner'' then map_option (\<lambda>x. e\<lparr>ots_PreviousOwner := x\<rparr>) (as_address v)
        else if n = ''NewOwner'' then map_option (\<lambda>x. e\<lparr>ots_NewOwner := x\<rparr>) (as_address v)
        else None),
     ev_raw = (\<lambda>l e. e\<lparr>ots_Raw := Some l\<rparr>)\<rparr>"

definition OwnershipTransferStarted_args :: "'log BatchAuthenticatorOwnershipTransferStarted
  \<Rightarrow> (string \<times> abi_value) list" where
  "OwnershipTransferStarted_args e =
    [(''PreviousOwner'', AbiAddress (ots_PreviousOwner e)), (''NewOwner'', AbiAddress
      (ots_NewOwner e))]"

definition Next_OwnershipTransferStarted ::
  "('abi, 'b, 'fo, 'wo, 'log, 'w) bind_log_lib \<Rightarrow> bool
    \<Rightarrow> ('log, 'abi, 'b) BatchAuthenticatorOwnershipTransferStartedIterator
      \<Rightarrow> (bool \<times> ('log, 'abi, 'b) BatchAuthenticatorOwnershipTransferStartedIterator)
      select_result" where
  "Next_OwnershipTransferStarted lib = next_event lib OwnershipTransferStarted_type"

definition Error_OwnershipTransferStarted :: "('log, 'abi, 'b)
  BatchAuthenticatorOwnershipTransferStartedIterator \<Rightarrow> bind_err option" where
  "Error_OwnershipTransferStarted = iterator_error"

definition Close_OwnershipTransferStarted ::
  "('abi, 'b, 'fo, 'wo, 'log, 'w) bind_log_lib \<Rightarrow> ('log, 'abi, 'b)
    BatchAuthenticatorOwnershipTransferStartedIterator
    \<Rightarrow> bind_err option \<times> ('log, 'abi, 'b) BatchAuthenticatorOwnershipTransferStartedIterator" where
  "Close_OwnershipTransferStarted = iterator_close"

definition Filter_OwnershipTransferStarted ::
  "('abi, 'b, 'fo, 'wo, 'log, 'w) bind_log_lib \<Rightarrow> ('abi, 'b) batch_authenticator_filterer \<Rightarrow> 'fo
    \<Rightarrow> address list \<Rightarrow> address list
    \<Rightarrow> 'w \<Rightarrow> (bind_err + ('log, 'abi, 'b) BatchAuthenticatorOwnershipTransferStartedIterator) \<times>
      'w" where
  "Filter_OwnershipTransferStarted lib f opts previousOwner newOwner =
    filter_event lib f opts ''OwnershipTransferStarted'' [map AbiAddress previousOwner, map
      AbiAddress newOwner]"

definition Watch_OwnershipTransferStarted ::
  "('abi, 'b, 'fo, 'wo, 'log, 'w) bind_log_lib \<Rightarrow> ('abi, 'b) batch_authenticator_filterer \<Rightarrow> 'wo
    \<Rightarrow> address list \<Rightarrow> address list
    \<Rightarrow> 'w \<Rightarrow> (bind_err + ('log BatchAuthenticatorOwnershipTransferStarted, 'log, 'abi, 'b)
      watcher) \<times> 'w" where
  "Watch_OwnershipTransferStarted lib f opts previousOwner newOwner =
    watch_event lib f opts ''OwnershipTransferStarted'' [map AbiAddress previousOwner, map
      AbiAddress newOwner]"

definition Parse_OwnershipTransferStarted ::
  "('abi, 'b, 'fo, 'wo, 'log, 'w) bind_log_lib \<Rightarrow> ('abi, 'b) batch_authenticator_filterer
    \<Rightarrow> 'log \<Rightarrow> (bind_err + 'log BatchAuthenticatorOwnershipTransferStarted) option" where
  "Parse_OwnershipTransferStarted lib f =
    parse_event lib OwnershipTransferStarted_type f ''OwnershipTransferStarted''"

interpretation OwnershipTransferStarted: event_struct OwnershipTransferStarted_type
  OwnershipTransferStarted_args ots_Raw
  by unfold_locales (auto simp: OwnershipTransferStarted_type_def
    OwnershipTransferStarted_args_def conversion_iff abi_type_of_iff)

section \<open>OwnershipTransferred\<close>

record 'log BatchAuthenticatorOwnershipTransferred =
  otd_PreviousOwner :: address
  otd_NewOwner :: address
  otd_Raw :: "'log option"               \<comment> \<open>\<open>None\<close>: the zero log\<close>

type_synonym ('log, 'abi, 'b) BatchAuthenticatorOwnershipTransferredIterator =
  "('log BatchAuthenticatorOwnershipTransferred, 'log, 'abi, 'b) event_iterator"

definition OwnershipTransferred_type :: "('log BatchAuthenticatorOwnershipTransferred, 'log)
  event_type" where
  "OwnershipTransferred_type =
    \<lparr>ev_new = \<lparr>otd_PreviousOwner = 0, otd_NewOwner = 0, otd_Raw = None\<rparr>,
     ev_put = (\<lambda>n v e.
        if n = ''PreviousOwner'' then map_option (\<lambda>x. e\<lparr>otd_PreviousOwner := x\<rparr>) (as_address v)
        else if n = ''NewOwner'' then map_option (\<lambda>x. e\<lparr>otd_NewOwner := x\<rparr>) (as_address v)
        else None),
     ev_raw = (\<lambda>l e. e\<lparr>otd_Raw := Some l\<rparr>)\<rparr>"

definition OwnershipTransferred_args :: "'log BatchAuthenticatorOwnershipTransferred
  \<Rightarrow> (string \<times> abi_value) list" where
  "OwnershipTransferred_args e =
    [(''PreviousOwner'', AbiAddress (otd_PreviousOwner e)), (''NewOwner'', AbiAddress
      (otd_NewOwner e))]"

definition Next_OwnershipTransferred ::
  "('abi, 'b, 'fo, 'wo, 'log, 'w) bind_log_lib \<Rightarrow> bool
    \<Rightarrow> ('log, 'abi, 'b) BatchAuthenticatorOwnershipTransferredIterator
      \<Rightarrow> (bool \<times> ('log, 'abi, 'b) BatchAuthenticatorOwnershipTransferredIterator) select_result"
      where
  "Next_OwnershipTransferred lib = next_event lib OwnershipTransferred_type"

definition Error_OwnershipTransferred :: "('log, 'abi, 'b)
  BatchAuthenticatorOwnershipTransferredIterator \<Rightarrow> bind_err option" where
  "Error_OwnershipTransferred = iterator_error"

definition Close_OwnershipTransferred ::
  "('abi, 'b, 'fo, 'wo, 'log, 'w) bind_log_lib \<Rightarrow> ('log, 'abi, 'b)
    BatchAuthenticatorOwnershipTransferredIterator
    \<Rightarrow> bind_err option \<times> ('log, 'abi, 'b) BatchAuthenticatorOwnershipTransferredIterator" where
  "Close_OwnershipTransferred = iterator_close"

definition Filter_OwnershipTransferred ::
  "('abi, 'b, 'fo, 'wo, 'log, 'w) bind_log_lib \<Rightarrow> ('abi, 'b) batch_authenticator_filterer \<Rightarrow> 'fo
    \<Rightarrow> address list \<Rightarrow> address list
    \<Rightarrow> 'w \<Rightarrow> (bind_err + ('log, 'abi, 'b) BatchAuthenticatorOwnershipTransferredIterator) \<times> 'w" where
  "Filter_OwnershipTransferred lib f opts previousOwner newOwner =
    filter_event lib f opts ''OwnershipTransferred'' [map AbiAddress previousOwner, map
      AbiAddress newOwner]"

definition Watch_OwnershipTransferred ::
  "('abi, 'b, 'fo, 'wo, 'log, 'w) bind_log_lib \<Rightarrow> ('abi, 'b) batch_authenticator_filterer \<Rightarrow> 'wo
    \<Rightarrow> address list \<Rightarrow> address list
    \<Rightarrow> 'w \<Rightarrow> (bind_err + ('log BatchAuthenticatorOwnershipTransferred, 'log, 'abi, 'b) watcher) \<times>
      'w" where
  "Watch_OwnershipTransferred lib f opts previousOwner newOwner =
    watch_event lib f opts ''OwnershipTransferred'' [map AbiAddress previousOwner, map
      AbiAddress newOwner]"

definition Parse_OwnershipTransferred ::
  "('abi, 'b, 'fo, 'wo, 'log, 'w) bind_log_lib \<Rightarrow> ('abi, 'b) batch_authenticator_filterer
    \<Rightarrow> 'log \<Rightarrow> (bind_err + 'log BatchAuthenticatorOwnershipTransferred) option" where
  "Parse_OwnershipTransferred lib f =
    parse_event lib OwnershipTransferred_type f ''OwnershipTransferred''"

interpretation OwnershipTransferred: event_struct OwnershipTransferred_type
  OwnershipTransferred_args otd_Raw
  by unfold_locales (auto simp: OwnershipTransferred_type_def OwnershipTransferred_args_def
    conversion_iff abi_type_of_iff)

section \<open>SignerRegistrationInitiated\<close>

record 'log BatchAuthenticatorSignerRegistrationInitiated =
  sri_Caller :: address
  sri_Raw :: "'log option"               \<comment> \<open>\<open>None\<close>: the zero log\<close>

type_synonym ('log, 'abi, 'b) BatchAuthenticatorSignerRegistrationInitiatedIterator =
  "('log BatchAuthenticatorSignerRegistrationInitiated, 'log, 'abi, 'b) event_iterator"

definition SignerRegistrationInitiated_type :: "('log
  BatchAuthenticatorSignerRegistrationInitiated, 'log) event_type" where
  "SignerRegistrationInitiated_type =
    \<lparr>ev_new = \<lparr>sri_Caller = 0, sri_Raw = None\<rparr>,
     ev_put = (\<lambda>n v e.
        if n = ''Caller'' then map_option (\<lambda>x. e\<lparr>sri_Caller := x\<rparr>) (as_address v)
        else None),
     ev_raw = (\<lambda>l e. e\<lparr>sri_Raw := Some l\<rparr>)\<rparr>"

definition SignerRegistrationInitiated_args :: "'log
  BatchAuthenticatorSignerRegistrationInitiated \<Rightarrow> (string \<times> abi_value) list" where
  "SignerRegistrationInitiated_args e = [(''Caller'', AbiAddress (sri_Caller e))]"

definition Next_SignerRegistrationInitiated ::
  "('abi, 'b, 'fo, 'wo, 'log, 'w) bind_log_lib \<Rightarrow> bool
    \<Rightarrow> ('log, 'abi, 'b) BatchAuthenticatorSignerRegistrationInitiatedIterator
      \<Rightarrow> (bool \<times> ('log, 'abi, 'b) BatchAuthenticatorSignerRegistrationInitiatedIterator)
      select_result" where
  "Next_SignerRegistrationInitiated lib = next_event lib SignerRegistrationInitiated_type"

definition Error_SignerRegistrationInitiated :: "('log, 'abi, 'b)
  BatchAuthenticatorSignerRegistrationInitiatedIterator \<Rightarrow> bind_err option" where
  "Error_SignerRegistrationInitiated = iterator_error"

definition Close_SignerRegistrationInitiated ::
  "('abi, 'b, 'fo, 'wo, 'log, 'w) bind_log_lib \<Rightarrow> ('log, 'abi, 'b)
    BatchAuthenticatorSignerRegistrationInitiatedIterator
    \<Rightarrow> bind_err option \<times> ('log, 'abi, 'b) BatchAuthenticatorSignerRegistrationInitiatedIterator"
      where
  "Close_SignerRegistrationInitiated = iterator_close"

definition Filter_SignerRegistrationInitiated ::
  "('abi, 'b, 'fo, 'wo, 'log, 'w) bind_log_lib \<Rightarrow> ('abi, 'b) batch_authenticator_filterer \<Rightarrow> 'fo
    \<Rightarrow> address list
    \<Rightarrow> 'w \<Rightarrow> (bind_err + ('log, 'abi, 'b) BatchAuthenticatorSignerRegistrationInitiatedIterator) \<times>
      'w" where
  "Filter_SignerRegistrationInitiated lib f opts caller =
    filter_event lib f opts ''SignerRegistrationInitiated'' [map AbiAddress caller]"

definition Watch_SignerRegistrationInitiated ::
  "('abi, 'b, 'fo, 'wo, 'log, 'w) bind_log_lib \<Rightarrow> ('abi, 'b) batch_authenticator_filterer \<Rightarrow> 'wo
    \<Rightarrow> address list
    \<Rightarrow> 'w \<Rightarrow> (bind_err + ('log BatchAuthenticatorSignerRegistrationInitiated, 'log, 'abi, 'b)
      watcher) \<times> 'w" where
  "Watch_SignerRegistrationInitiated lib f opts caller =
    watch_event lib f opts ''SignerRegistrationInitiated'' [map AbiAddress caller]"

definition Parse_SignerRegistrationInitiated ::
  "('abi, 'b, 'fo, 'wo, 'log, 'w) bind_log_lib \<Rightarrow> ('abi, 'b) batch_authenticator_filterer
    \<Rightarrow> 'log \<Rightarrow> (bind_err + 'log BatchAuthenticatorSignerRegistrationInitiated) option" where
  "Parse_SignerRegistrationInitiated lib f =
    parse_event lib SignerRegistrationInitiated_type f ''SignerRegistrationInitiated''"

interpretation SignerRegistrationInitiated: event_struct SignerRegistrationInitiated_type
  SignerRegistrationInitiated_args sri_Raw
  by unfold_locales (auto simp: SignerRegistrationInitiated_type_def
    SignerRegistrationInitiated_args_def conversion_iff abi_type_of_iff)

section \<open>Properties\<close>

lemma find_event_simps:
  "find_event ''BatchInfoAuthenticated'' =
    Some (event_abi ''BatchInfoAuthenticated'' [(''commitment'', TBytes32, False), (''caller'',
      TAddress, True)])"
  "find_event ''BatcherSwitched'' =
    Some (event_abi ''BatcherSwitched'' [(''activeIsEspresso'', TBool, True)])"
  "find_event ''EspressoBatcherUpdated'' =
    Some (event_abi ''EspressoBatcherUpdated'' [(''oldEspressoBatcher'', TAddress, True),
      (''newEspressoBatcher'', TAddress, True), (''fromBlock'', TUint 64, True)])"
  "find_event ''GuardianAdded'' =
    Some (event_abi ''GuardianAdded'' [(''guardian'', TAddress, True)])"
  "find_event ''GuardianRemoved'' =
    Some (event_abi ''GuardianRemoved'' [(''guardian'', TAddress, True)])"
  "find_event ''Initialized'' = Some (event_abi ''Initialized'' [(''version'', TUint 64, False)])"
  "find_event ''OwnershipTransferStarted'' =
    Some (event_abi ''OwnershipTransferStarted'' [(''previousOwner'', TAddress, True),
      (''newOwner'', TAddress, True)])"
  "find_event ''OwnershipTransferred'' =
    Some (event_abi ''OwnershipTransferred'' [(''previousOwner'', TAddress, True),
      (''newOwner'', TAddress, True)])"
  "find_event ''SignerRegistrationInitiated'' =
    Some (event_abi ''SignerRegistrationInitiated'' [(''caller'', TAddress, True)])"
  by (simp_all add: find_event_def BatchAuthenticatorMetaData_def)

lemmas parse_defs =
  Parse_BatchInfoAuthenticated_def
  Parse_BatcherSwitched_def
  Parse_EspressoBatcherUpdated_def
  Parse_GuardianAdded_def
  Parse_GuardianRemoved_def
  Parse_Initialized_def
  Parse_OwnershipTransferStarted_def
  Parse_OwnershipTransferred_def
  Parse_SignerRegistrationInitiated_def

lemmas struct_defs =
  BatchInfoAuthenticated_type_def BatchInfoAuthenticated_args_def
  BatcherSwitched_type_def BatcherSwitched_args_def
  EspressoBatcherUpdated_type_def EspressoBatcherUpdated_args_def
  GuardianAdded_type_def GuardianAdded_args_def
  GuardianRemoved_type_def GuardianRemoved_args_def
  Initialized_type_def Initialized_args_def
  OwnershipTransferStarted_type_def OwnershipTransferStarted_args_def
  OwnershipTransferred_type_def OwnershipTransferred_args_def
  SignerRegistrationInitiated_type_def SignerRegistrationInitiated_args_def

lemma NewBatchAuthenticatorFilterer_abi:
  "NewBatchAuthenticatorFilterer_binding blib addr b = Inr f \<Longrightarrow>
    GetAbi blib BatchAuthenticatorMetaData = Inr (bc_abi (filterer_contract f))"
  by (auto simp: NewBatchAuthenticatorFilterer_binding_def bindBatchAuthenticator_def
    bind_res_Inr_iff)

text \<open>
  C29. The nine \<open>Parse\<close> functions of the binding read the arguments of their events. With a
    library that
  assigns only the arguments the contract's ABI gives an event, no struct lacks a field or has
  one of another type, so none panics; each fails exactly with the library's error, and else
  returns its struct with every field as assigned, or zero, and the log as \<open>Raw\<close>.
\<close>

theorem binding_events_parse:
  assumes "NewBatchAuthenticatorFilterer_binding blib addr b = Inr f"
    and "GetAbi blib BatchAuthenticatorMetaData = Inr abi" and "logs_typed lib abi"
  shows "parses lib f ''BatchInfoAuthenticated'' BatchInfoAuthenticated_args bia_Raw
    \<lparr>bia_Commitment = 0, bia_Caller = 0, bia_Raw = None\<rparr> (Parse_BatchInfoAuthenticated lib f)
    \<and> parses lib f ''BatcherSwitched'' BatcherSwitched_args bsw_Raw \<lparr>bsw_ActiveIsEspresso =
      False, bsw_Raw = None\<rparr> (Parse_BatcherSwitched lib f)
    \<and> parses lib f ''EspressoBatcherUpdated'' EspressoBatcherUpdated_args ebu_Raw
      \<lparr>ebu_OldEspressoBatcher = 0, ebu_NewEspressoBatcher = 0, ebu_FromBlock = 0, ebu_Raw =
      None\<rparr> (Parse_EspressoBatcherUpdated lib f)
    \<and> parses lib f ''GuardianAdded'' GuardianAdded_args gad_Raw \<lparr>gad_Guardian = 0, gad_Raw =
      None\<rparr> (Parse_GuardianAdded lib f)
    \<and> parses lib f ''GuardianRemoved'' GuardianRemoved_args grm_Raw \<lparr>grm_Guardian = 0, grm_Raw =
      None\<rparr> (Parse_GuardianRemoved lib f)
    \<and> parses lib f ''Initialized'' Initialized_args ini_Raw \<lparr>ini_Version = 0, ini_Raw = None\<rparr>
      (Parse_Initialized lib f)
    \<and> parses lib f ''OwnershipTransferStarted'' OwnershipTransferStarted_args ots_Raw
      \<lparr>ots_PreviousOwner = 0, ots_NewOwner = 0, ots_Raw = None\<rparr> (Parse_OwnershipTransferStarted
      lib f)
    \<and> parses lib f ''OwnershipTransferred'' OwnershipTransferred_args otd_Raw \<lparr>otd_PreviousOwner
      = 0, otd_NewOwner = 0, otd_Raw = None\<rparr> (Parse_OwnershipTransferred lib f)
    \<and> parses lib f ''SignerRegistrationInitiated'' SignerRegistrationInitiated_args sri_Raw
      \<lparr>sri_Caller = 0, sri_Raw = None\<rparr> (Parse_SignerRegistrationInitiated lib f)"
proof -
  from NewBatchAuthenticatorFilterer_abi [OF assms(1)] assms(2) have abi: "bc_abi
    (filterer_contract f) = abi" by simp
  note parses = BatchInfoAuthenticated.parse [OF assms(3) abi find_event_simps(1)]
    BatcherSwitched.parse [OF assms(3) abi find_event_simps(2)]
    EspressoBatcherUpdated.parse [OF assms(3) abi find_event_simps(3)]
    GuardianAdded.parse [OF assms(3) abi find_event_simps(4)]
    GuardianRemoved.parse [OF assms(3) abi find_event_simps(5)]
    Initialized.parse [OF assms(3) abi find_event_simps(6)]
    OwnershipTransferStarted.parse [OF assms(3) abi find_event_simps(7)]
    OwnershipTransferred.parse [OF assms(3) abi find_event_simps(8)]
    SignerRegistrationInitiated.parse [OF assms(3) abi find_event_simps(9)]
  from parses show ?thesis
    by (simp add: parse_defs struct_defs struct_fields_def)
qed

text \<open>A library whose logs are addresses: log 0 does not decode, another is the value of every
  address.\<close>

definition sample_arg :: "address \<Rightarrow> abi_type \<Rightarrow> abi_value" where
  "sample_arg l t = (if t = TAddress then AbiAddress l else sample_abi_value t)"

definition sample_log_lib :: "(unit, unit, unit, unit, address, unit) bind_log_lib" where
  "sample_log_lib =
    \<lparr>BoundContract_FilterLogs = (\<lambda>c opts name rules w. (Inr \<lparr>feed_logs = [3, 4], feed_end = Some
      None\<rparr>, w)),
     BoundContract_WatchLogs = (\<lambda>c opts name rules w. (Inr \<lparr>feed_logs = [], feed_end = None\<rparr>, w)),
     BoundContract_UnpackLog = (\<lambda>c name l.
       if l = 0 then (Some ''no topics'', [])
       else case find_event name of
         None \<Rightarrow> (Some ''no event'', [])
       | Some ev \<Rightarrow> (None, map (\<lambda>(n, t, indexed). (field_name n, sample_arg l t)) (e_inputs ev))),
     Unsubscribe = (\<lambda>feed. feed\<lparr>feed_end := Some None\<rparr>)\<rparr>"

definition sample_filterer :: "(unit, unit) batch_authenticator_filterer" where
  "sample_filterer = \<lparr>filterer_contract = \<lparr>bc_address = 1, bc_abi = (), bc_caller = None,
     bc_transactor = None, bc_filterer = Some ()\<rparr>\<rparr>"

lemma sample_filterer_new: "NewBatchAuthenticatorFilterer_binding sample_bind_lib 1 () = Inr
  sample_filterer"
  by (simp add: NewBatchAuthenticatorFilterer_binding_def bindBatchAuthenticator_def
    sample_bind_lib_def sample_filterer_def)

lemma sample_arg_type: "\<forall>ev \<in> set (abi_events BatchAuthenticatorMetaData).
    \<forall>(n, t, indexed) \<in> set (e_inputs ev). abi_type_of (sample_arg l t) = t"
  by (simp add: BatchAuthenticatorMetaData_def sample_arg_def)

lemma sample_log_lib_typed: "logs_typed sample_log_lib ()"
  unfolding logs_typed_def
proof (intro allI impI)
  fix c :: "(unit, unit) bound_contract" and name ev l err kvs
  assume ev: "find_event name = Some ev"
    and u: "BoundContract_UnpackLog sample_log_lib c name l = (err, kvs)"
  then have "ev \<in> set (abi_events BatchAuthenticatorMetaData)" by (auto simp: find_event_def
    find_Some_iff)
  with sample_arg_type [of l] have ty: "abi_type_of (sample_arg l t) = t" if "(n, t, i) \<in> set
    (e_inputs ev)" for n t i
    using that by fastforce
  from u ev have kvs: "set kvs \<subseteq> (\<lambda>(n, t, i). (field_name n, sample_arg l t)) ` set (e_inputs ev)"
    by (auto simp: sample_log_lib_def split: if_splits)
  show "(\<lambda>(n, v). (n, abi_type_of v)) ` set kvs \<subseteq> set (struct_fields ev)"
  proof clarify
    fix n v
    assume "(n, v) \<in> set kvs"
    with kvs obtain m t i where "(m, t, i) \<in> set (e_inputs ev)" "n = field_name m" "v =
      sample_arg l t" by auto
    with ty show "(n, abi_type_of v) \<in> set (struct_fields ev)" by (force simp: struct_fields_def)
  qed
qed

lemma binding_events_parse_witness:
  "Parse_EspressoBatcherUpdated sample_log_lib sample_filterer 7
    = Some (Inr \<lparr>ebu_OldEspressoBatcher = 7, ebu_NewEspressoBatcher = 7, ebu_FromBlock = 1,
      ebu_Raw = Some 7\<rparr>)"
proof -
  have abi: "GetAbi sample_bind_lib BatchAuthenticatorMetaData = Inr ()" by (simp add:
    sample_bind_lib_def)
  have "parses sample_log_lib sample_filterer ''EspressoBatcherUpdated''
    EspressoBatcherUpdated_args ebu_Raw
      \<lparr>ebu_OldEspressoBatcher = 0, ebu_NewEspressoBatcher = 0, ebu_FromBlock = 0, ebu_Raw = None\<rparr>
      (Parse_EspressoBatcherUpdated sample_log_lib sample_filterer)"
    using binding_events_parse [OF sample_filterer_new abi sample_log_lib_typed] by (elim conjE)
  then obtain e where "Parse_EspressoBatcherUpdated sample_log_lib sample_filterer 7 = Some (Inr e)"
      "EspressoBatcherUpdated_args e = [(''OldEspressoBatcher'', AbiAddress 7),
        (''NewEspressoBatcher'', AbiAddress 7),
         (''FromBlock'', AbiUint64 1)]" "ebu_Raw e = Some 7"
    by (auto simp: parses_def sample_log_lib_def find_event_simps
      EspressoBatcherUpdated_args_def sample_arg_def
        dest!: spec [of _ 7])
  then show ?thesis by (cases e) (simp add: EspressoBatcherUpdated_args_def)
qed

text \<open>
  C28. A filter loses nothing silently. Over what \<open>FilterLogs\<close> found, the loop
  \<open>for it.Next() { ... it.Event ... }\<close> ends, whichever ready case each \<open>select\<close> takes, with the
    events
  of the first logs, in order and each once. When \<open>Error\<close> is nil after it, these are the events of
  all the logs; otherwise it is the subscription's error or that of a log that does not parse.
  (The hypotheses say that the filter was made, that its subscription completes, and that the
  struct has the event's fields.)
\<close>

theorem filter_gives_every_event:
  fixes E :: "('e, 'log) event_type"
  assumes "filter_event lib f opts name rules w = (Inr it, w')"
    and "feed_end (it_feed it) = Some final"
    and "\<forall>l \<in> set (feed_logs (it_feed it)). parse_event lib E f name l \<noteq> None"
  shows "\<exists>es it'. collect_events lib E choice 0 it = Returns (es, it')
    \<and> (\<exists>n. map (parse_event lib E f name) (take n (feed_logs (it_feed it))) = map (\<lambda>e. Some (Inr
      e)) es)
    \<and> (iterator_error it' = None \<longrightarrow>
        map (parse_event lib E f name) (feed_logs (it_feed it)) = map (\<lambda>e. Some (Inr e)) es)
    \<and> (iterator_error it' = final \<or> (\<exists>l \<in> set (feed_logs (it_feed it)). \<exists>err.
        parse_event lib E f name l = Some (Inl err) \<and> iterator_error it' = Some err))"
proof -
  have "iterating f name final it"
    using assms(1,2) by (auto simp: filter_event_def iterating_def bind_res_Inr_iff split:
      prod.splits)
  from collect_events_all [OF this assms(3)] show ?thesis
    unfolding collected_def iterator_error_def by blast
qed

lemma filter_gives_every_event_witness:
  "\<exists>it es it'. Filter_GuardianAdded sample_log_lib sample_filterer () [] () = (Inr it, ())
    \<and> collect_events sample_log_lib GuardianAdded_type (\<lambda>k. k = 1) 0 it = Returns (es, it')
    \<and> Error_GuardianAdded it' = None \<and> map gad_Guardian es = [3, 4]"
proof -
  let ?it = "\<lparr>it_Event = None :: address BatchAuthenticatorGuardianAdded option,
    it_contract = filterer_contract sample_filterer, it_event = ''GuardianAdded'',
    it_feed = \<lparr>feed_logs = [3, 4], feed_end = Some None\<rparr>, it_done = False, it_fail = None\<rparr>"
  have filter: "filter_event sample_log_lib sample_filterer () ''GuardianAdded'' [[]] () = (Inr
    ?it, ())"
    by (simp add: filter_event_def sample_log_lib_def)
  have parse: "parse_event sample_log_lib GuardianAdded_type sample_filterer ''GuardianAdded'' l
      = Some (Inr \<lparr>gad_Guardian = l, gad_Raw = Some l\<rparr>)" if "l \<noteq> 0" for l
    using that by (simp add: parse_event_def unpack_event_def sample_log_lib_def find_event_simps
        GuardianAdded_type_def sample_arg_def)
  let ?parse = "parse_event sample_log_lib GuardianAdded_type sample_filterer ''GuardianAdded''"
  have "\<forall>l \<in> set (feed_logs (it_feed ?it)). ?parse l \<noteq> None" by (simp add: parse)
  moreover have fe: "feed_end (it_feed ?it) = Some None" by simp
  ultimately have parsed: "\<forall>l \<in> set (feed_logs (it_feed ?it)). ?parse l \<noteq> None" by blast
  from filter_gives_every_event [OF filter fe parsed, of "\<lambda>k. k = 1"] obtain es it' where
    run: "collect_events sample_log_lib GuardianAdded_type (\<lambda>k. k = 1) 0 ?it = Returns (es, it')"
    and all: "iterator_error it' = None \<longrightarrow> map ?parse (feed_logs (it_feed ?it)) = map (\<lambda>e. Some
      (Inr e)) es"
    and fail: "iterator_error it' = None \<or> (\<exists>l \<in> set (feed_logs (it_feed ?it)). \<exists>err.
      ?parse l = Some (Inl err) \<and> iterator_error it' = Some err)"
    by (elim exE conjE) (rule that; assumption)
  from fail have err: "iterator_error it' = None" by (auto simp: parse)
  with all have "map (\<lambda>e. Some (Inr e)) es
      = map (\<lambda>e. Some (Inr e :: bind_err + _)) [\<lparr>gad_Guardian = 3, gad_Raw = Some 3\<rparr>,
        \<lparr>gad_Guardian = 4, gad_Raw = Some 4\<rparr>]"
    by (simp add: parse)
  then have "es = [\<lparr>gad_Guardian = 3, gad_Raw = Some 3\<rparr>, \<lparr>gad_Guardian = 4, gad_Raw = Some 4\<rparr>]"
    by (rule map_injective) (simp add: inj_on_def)
  then have "map gad_Guardian es = [3, 4]" by simp
  with run err filter show ?thesis
    unfolding Filter_GuardianAdded_def Error_GuardianAdded_def by (metis list.simps(8))
qed

end
