(* ===== verification/Op_End_To_End.thy ===== *)
theory Op_End_To_End
  imports Op_Authentic Espresso_Batch Batch_Authenticator
begin

text \<open>
  The parts together: a \<open>BatchStreamer\<close> whose \<open>UnmarshalBatch\<close> is
  \<open>CreateEspressoBatchUnmarshaler\<close> and whose contract calls go through the generated binding.
  Every batch the streamer holds is the decoding of a payload that HotShot showed it, so what
  \<open>CheckBatch\<close> checks on a batch is a check on the signed bytes.
\<close>

section \<open>Putting the parts together\<close>

text \<open>
  \<open>wired D lib c e\<close>: the environment \<open>e\<close> of the streamer uses the decoder of \<open>D\<close> and the
  read calls of the binding \<open>c\<close>, at the block \<open>Refresh\<close> and \<open>CheckBatch\<close> name.
\<close>

definition wired ::
  "('h, 'tx, 'k, 'cfg) derivation \<Rightarrow> ('abi, 'b, 'w) bind_lib \<Rightarrow> ('abi, 'b) batch_authenticator_caller
    \<Rightarrow> ('w, 'c, 't) env \<Rightarrow> bool" where
  "wired D lib c e =
    ((\<forall>data. case CreateEspressoBatchUnmarshaler D data of
        None \<Rightarrow> False
      | Some (Inl err) \<Rightarrow> \<exists>x. unmarshalBatch e data = Inl x
      | Some (Inr eb) \<Rightarrow> map_option Inr (as_batch D eb) = Some (unmarshalBatch e data))
     \<and> (\<forall>at w. EspressoBatcher_caller lib c \<lparr>BlockNumber = Some at\<rparr> w
          = map_prod Some id (EspressoBatcher e at w))
     \<and> (\<forall>at n w. EspressoBatcherAtBlock_caller lib c \<lparr>BlockNumber = Some at\<rparr> n w
          = map_prod Some id (EspressoBatcherAtBlock e at n w)))"

lemma wired_unmarshal:
  assumes "wired D lib c e" and "UnmarshalBatch e data = Inr b"
  obtains eb where "UnmarshalEspressoTransaction D data = Some (Inr eb)" and "as_batch D eb = Some b"
proof -
  have *: "case CreateEspressoBatchUnmarshaler D data of
        None \<Rightarrow> False
      | Some (Inl err) \<Rightarrow> \<exists>x. unmarshalBatch e data = Inl x
      | Some (Inr eb) \<Rightarrow> map_option Inr (as_batch D eb) = Some (unmarshalBatch e data)"
    using assms(1) unfolding wired_def by blast
  show ?thesis
    using * assms(2) that
    by (auto simp: UnmarshalBatch_def CreateEspressoBatchUnmarshaler_def
        split: option.splits sum.splits)
qed

lemma wired_unmarshal_Inr:
  assumes "wired D lib c e" and "UnmarshalEspressoTransaction D data = Some (Inr eb)"
  obtains b where "as_batch D eb = Some b" and "UnmarshalBatch e data = Inr b"
proof -
  have "map_option Inr (as_batch D eb) = Some (unmarshalBatch e data)"
    using assms unfolding wired_def by (auto simp: CreateEspressoBatchUnmarshaler_def dest!: spec [of _ data])
  then show ?thesis using that by (auto simp: UnmarshalBatch_def)
qed

text \<open>
  The contract's batcher history \<open>B\<close> and the hashes \<open>H\<close> of the L1 chain, as the L1 node answers
  them: an \<open>eth_call\<close> at block \<open>at\<close> about a block up to \<open>at\<close> reads the append-only history.
\<close>

definition l1_answers ::
  "('abi, 'b, 'w) bind_lib \<Rightarrow> ('abi, 'b) batch_authenticator_caller \<Rightarrow> ('w, 'c, 't) env
    \<Rightarrow> (u64 \<Rightarrow> hash) \<Rightarrow> (u64 \<Rightarrow> address) \<Rightarrow> bool" where
  "l1_answers lib c e H B =
    ((\<forall>n w h w'. HeaderHashByNumber e n w = (Inr h, w') \<longrightarrow> h = H n)
     \<and> (\<forall>at n w a w'. n \<le> at \<longrightarrow>
          BoundContract_Call lib (caller_contract c) \<lparr>BlockNumber = Some at\<rparr>
            ''espressoBatcherAtBlock'' [AbiUint64 n] w = (Inr [AbiAddress a], w') \<longrightarrow> a = B n))"

lemma wired_finalized_view:
  assumes wired: "wired D lib c e" and new: "NewBatchAuthenticatorCaller_binding lib addr l1 = Inr c"
    and lib: "abi_typed lib" and l1: "l1_answers lib c e H B"
  shows "finalized_view e H B"
  unfolding finalized_view_def
proof (intro conjI allI impI)
  show "h = H n" if "HeaderHashByNumber e n w = (Inr h, w')" for n w h w'
    using l1 that unfolding l1_answers_def by blast
  show "a = B n" if "n \<le> at" "EspressoBatcherAtBlock e at n w = (Inr a, w')" for at n w a w'
  proof -
    have "EspressoBatcherAtBlock_caller lib c \<lparr>BlockNumber = Some at\<rparr> n w = (Some (Inr a), w')"
      using wired that(2) by (simp add: wired_def)
    then have "BoundContract_Call lib (caller_contract c) \<lparr>BlockNumber = Some at\<rparr>
        ''espressoBatcherAtBlock'' [AbiUint64 n] w = (Inr [AbiAddress a], w')"
      using EspressoBatcherAtBlock_decodes [OF lib new] unfolding decodes_def decodes_as_def by blast
    then show ?thesis using l1 that(1) unfolding l1_answers_def by blast
  qed
qed

section \<open>The batches held\<close>

definition posted :: "('w, 'c, 't) env \<Rightarrow> u64 \<Rightarrow> bytes \<Rightarrow> bool" where
  "posted e ns data =
    (\<exists>from until w blks w' blk. FetchNamespaceTransactionsInRange e from until ns w = (Inr blks, w')
      \<and> blk \<in> set blks \<and> data \<in> set (Transactions blk))"

definition held :: "('c, 't) streamer \<Rightarrow> batch set" where
  "held s = set_option (headBatch s) \<union> set (batches (BatchBuffer s))"

definition held_posted :: "('w, 'c, 't) env \<Rightarrow> u64 \<Rightarrow> ('c, 't) streamer \<Rightarrow> bool" where
  "held_posted e ns s =
    (Namespace s = ns \<and> (\<forall>b \<in> held s. \<exists>data. posted e ns data \<and> UnmarshalBatch e data = Inr b))"

lemma held_posted_mono:
  "held_posted e ns s \<Longrightarrow> Namespace s' = Namespace s \<Longrightarrow> held s' \<subseteq> held s \<Longrightarrow> held_posted e ns s'"
  by (auto simp: held_posted_def)

lemma held_updates [simp]:
  "held (s\<lparr>finalizedL1StateCache := c\<rparr>) = held s" "held (s\<lparr>skipPos := p\<rparr>) = held s"
  "held (s\<lparr>hotShotPos := p\<rparr>) = held s" "held (s\<lparr>batchTimestamps := t\<rparr>) = held s"
  "held (s\<lparr>fallbackHotShotPos := p\<rparr>) = held s" "held (s\<lparr>fallbackBatchPos := p\<rparr>) = held s"
  "held (s\<lparr>FinalizedL1 := r\<rparr>) = held s" "held (s\<lparr>espressoBatcher := a\<rparr>) = held s"
  "held (Reset s) = {}"
  by (simp_all add: held_def)

lemma held_no_head: "held (s\<lparr>headBatch := None\<rparr>) \<subseteq> held s"
  by (auto simp: held_def)

lemma Pop_subset: "set (batches (snd (Pop b))) \<subseteq> set (batches b)"
  by (auto simp: Pop_def split: list.splits)

lemma Peek_buf_mem: "Peek_buf b = Some x \<Longrightarrow> x \<in> set (batches b)"
  by (auto simp: Peek_buf_def split: list.splits if_splits)

lemma find_candidate_held:
  "find_candidate s = StalePopped s' \<Longrightarrow> held s' \<subseteq> held s"
  "find_candidate s = Candidate b s' \<Longrightarrow> held s' \<subseteq> held s"
  using Pop_subset [of "BatchBuffer s"] Peek_buf_mem [of "BatchBuffer s"]
  by (auto simp: find_candidate_def held_def split: option.splits if_splits)

lemma Insert_mem: "Insert b x = Inr b' \<Longrightarrow> set (batches b') \<subseteq> insert x (set (batches b))"
  by (auto simp: Insert_def dest: in_set_takeD in_set_dropD split: if_splits prod.splits)

lemma store_batch_held:
  assumes "store_batch e b ts s = (err, s')"
  shows "held s' \<subseteq> insert b (held s)" and "Namespace s' = Namespace s"
  using assms
  by (cases rule: store_batch_cases; auto simp: held_def dest!: Insert_mem)+

interpretation held_inv: reading_invariant e "held_posted e ns" "posted e ns"
  for e :: "('w, 'c, 't) env" and ns
proof unfold_locales
  fix s s' :: "('c, 't) streamer" and b v and w w' :: 'w and ts err p txn start finish blks blk t
  assume P: "held_posted e ns s"
  show "CheckBatch e b s w = (v, s', w') \<Longrightarrow> held_posted e ns s'"
    using CheckBatch_frame [of e b s w v s' w'] P by (auto simp: held_posted_def)
  show "store_batch e b ts s = (err, s') \<Longrightarrow> held_posted e ns s'"
    if "posted e ns txn" "UnmarshalBatch e txn = Inr b"
    using store_batch_held [of e b ts s err s'] P that unfolding held_posted_def by blast
  show "find_candidate s = StalePopped s' \<Longrightarrow> held_posted e ns s'"
    using held_posted_mono [OF P _ find_candidate_held(1)] find_candidate_refill(1) [of s s'] by (simp add: refill_def)
  show "find_candidate s = Candidate b s' \<Longrightarrow> held_posted e ns s'"
    using held_posted_mono [OF P _ find_candidate_held(2)] find_candidate_refill(2) [of s b s'] by (simp add: refill_def)
  show "held_posted e ns (s\<lparr>skipPos := p\<rparr>)" "held_posted e ns (s\<lparr>hotShotPos := p\<rparr>)"
    using P by (simp_all add: held_posted_def)
  show "held_posted e ns (s\<lparr>headBatch := None\<rparr>)"
    by (rule held_posted_mono [OF P _ held_no_head]) simp
  show "FetchNamespaceTransactionsInRange e start finish (Namespace s) w = (Inr blks, w') \<Longrightarrow>
      blk \<in> set blks \<Longrightarrow> t \<in> set (Transactions blk) \<Longrightarrow> posted e ns t"
    using P unfolding posted_def held_posted_def by blast
qed


lemma Reset_namespace [simp]: "Namespace (Reset s) = Namespace s"
  by (simp add: Reset_def)

lemma RefreshSafeL1Origin_held:
  "RefreshSafeL1Origin e o1 s w = (s', w') \<Longrightarrow> held s' \<subseteq> held s \<and> Namespace s' = Namespace s"
  by (erule RefreshSafeL1Origin_cases) simp_all

lemma Refresh_held:
  assumes "Refresh e l1 safe o1 s w = (s', w')"
  shows "held s' \<subseteq> held s \<and> Namespace s' = Namespace s"
proof -
  obtain s1 w1 s2 w2 where s1: "refresh_batcher e l1 (s\<lparr>FinalizedL1 := l1\<rparr>) w = (s1, w1)"
    and s2: "RefreshSafeL1Origin e o1 s1 w1 = (s2, w2)" and s': "s' = refresh_positions safe s2"
    using assms by (auto simp: Refresh_def split: prod.splits)
  obtain a where "s1 = s\<lparr>FinalizedL1 := l1, espressoBatcher := a\<rparr>"
    using refresh_batcher_frame [OF s1] by auto
  then show ?thesis
    using RefreshSafeL1Origin_held [OF s2] by (auto simp: s' refresh_positions_def Let_def)
qed

lemma SetProperHead_held: "held (SetProperHead parentHash s) \<subseteq> held s"
  by (auto simp: SetProperHead_def held_def drain_forks_dropWhile dest: set_dropWhileD split: option.splits)

lemma streamer_step_held:
  assumes "streamer_step e (s, w) ev (s', w')" and ok: "streamer_ok s" and hp: "held_posted e ns s"
  shows "held_posted e ns s' \<and> (\<forall>b. ev = Deliver b \<longrightarrow> (\<exists>data. posted e ns data \<and> UnmarshalBatch e data = Inr b))"
  using assms(1)
proof cases
  case (next_some b)
  from next_some(2) ok show ?thesis
  proof (cases rule: Next_cases)
    case (some b' s1 s2 w2)
    have hp2: "held_posted e ns s2" by (rule held_inv.HasNext_keeps [OF some(14) hp])
    have "b \<in> held s2" using some(1,15) by (simp add: held_def)
    moreover have "held s' \<subseteq> held s2" using some(6,7) by (auto simp: held_def)
    moreover have "Namespace s' = Namespace s2"
      using next_some(2) some(14) by (auto simp: Next_def Let_def split: if_splits)
    ultimately show ?thesis
      using held_posted_mono [OF hp2] hp2 next_some(1) by (auto simp: held_posted_def)
  qed simp
next
  case next_none
  from next_none(2) ok show ?thesis
    by (cases rule: Next_cases) (use next_none(1) held_inv.HasNext_keeps [OF _ hp] in auto)
next
  case (peek r)
  from peek(2) ok show ?thesis
    by (cases rule: Peek_cases) (use peek(1) held_inv.HasNext_keeps [OF _ hp] in auto)
next
  case (has_next a)
  then show ?thesis using held_inv.HasNext_keeps [OF _ hp] by simp
next
  case (update err)
  then show ?thesis using held_inv.Update_keeps [OF _ hp] by simp
next
  case (set_proper_head parentHash)
  then show ?thesis
    using held_posted_mono [OF hp _ SetProperHead_held] SetProperHead_refill [of s parentHash]
    by (simp add: refill_def)
next
  case (timestamp h t)
  then show ?thesis using timestamp_frame [OF timestamp(3)] hp by (auto simp: held_posted_def)
next
  case reset
  then show ?thesis using hp by (simp add: held_posted_def)
next
  case (refresh_origin o1)
  then show ?thesis using held_posted_mono [OF hp] RefreshSafeL1Origin_held [OF refresh_origin(2)] by auto
next
  case (refresh l1 safe o1)
  then show ?thesis using held_posted_mono [OF hp] Refresh_held [OF refresh(2)] by auto
next
  case world
  then show ?thesis using hp by simp
qed

lemma streamer_run_held:
  assumes "streamer_run e c evs d" and "streamer_ok (fst c)" and "held_posted e ns (fst c)"
  shows "\<forall>b \<in> set (delivered evs). \<exists>data. posted e ns data \<and> UnmarshalBatch e data = Inr b"
  using assms
proof (induction rule: streamer_run.induct)
  case (run_cons c ev d evs f)
  obtain s w s' w' where cd: "c = (s, w)" "d = (s', w')" by fastforce
  note st = run_cons.hyps(1) [unfolded cd] and hyps = run_cons.prems [unfolded cd, simplified]
  have "streamer_ok s'" using streamer_step_refines [OF st hyps(1)] by simp
  then show ?case
    using streamer_step_held [OF st hyps] run_cons.IH cd by (cases ev) auto
qed simp

lemma NewEspressoStreamer_held:
  "NewEspressoStreamer e ns originHotShot originBatch auth track = Inr s \<Longrightarrow> held_posted e ns s"
  by (auto simp: NewEspressoStreamer_def held_posted_def held_def NewBatchBuffer_def
      split: if_splits option.splits)

lemma as_batch_fields:
  "as_batch D eb = Some b \<Longrightarrow> Signer b = SignerAddress eb \<and> L1Origin b = L1Origin_espresso eb"
  by (auto simp: as_batch_def Signer_espresso_def bind_eq_Some_conv)

text \<open>What an authentic batch says of the posted bytes it was decoded from.\<close>

lemma authentic_bytes:
  assumes wired: "wired D lib c e" and "authentic H B b"
    and data: "posted e ns data" "UnmarshalBatch e data = Inr b"
  shows "\<exists>data eb k.
    posted e ns data \<and> SignatureLength D \<le> length data
    \<and> SigToPub D (Keccak256 D (drop (SignatureLength D) data)) (take (SignatureLength D) data) = Inr k
    \<and> rlp_decode D (drop (SignatureLength D) data) = Inr eb
    \<and> as_batch D (eb\<lparr>SignerAddress := PubkeyToAddress D k\<rparr>) = Some b
    \<and> PubkeyToAddress D k = B (sb_epoch_num (SingularBatch eb)) \<and> B (sb_epoch_num (SingularBatch eb)) \<noteq> 0
    \<and> sb_epoch_hash (SingularBatch eb) = H (sb_epoch_num (SingularBatch eb))"
proof -
  have auth: "B (bid_number (L1Origin b)) \<noteq> 0" "Signer b = B (bid_number (L1Origin b))"
      "bid_hash (L1Origin b) = H (bid_number (L1Origin b))"
    using assms(2) by (simp_all add: authentic_def Let_def)
  obtain eb where eb: "UnmarshalEspressoTransaction D data = Some (Inr eb)" "as_batch D eb = Some b"
    by (rule wired_unmarshal [OF wired data(2)])
  from eb(1) show ?thesis
  proof (cases rule: unmarshal_Inr)
    case (1 k b0)
    have "Signer b = PubkeyToAddress D k"
        "L1Origin b = \<lparr>bid_hash = sb_epoch_hash (SingularBatch b0), bid_number = sb_epoch_num (SingularBatch b0)\<rparr>"
      using as_batch_fields [OF eb(2)] 1(4) by (simp_all add: L1Origin_espresso_def)
    then show ?thesis
      using data(1) eb(2) 1 auth by (intro exI [of _ data] exI [of _ b0] exI [of _ k]) simp
  qed
qed

lemma new_streamer_sound:
  assumes new: "NewEspressoStreamer e ns originHotShot originBatch auth track = Inr s0"
    and parts: "NewBatchAuthenticatorCaller_binding lib auth l1 = Inr c" "wired D lib c e"
      "abi_typed lib" "l1_answers lib c e H B" "lru_lawful (state_lru e)"
  shows "sound_under e H B s0"
proof -
  have "cache_sound e H B s0"
    using parts(5) by (simp add: cache_sound_def NewEspressoStreamer_start(8) [OF new] lru_lawful_def)
  then show ?thesis
    using wired_finalized_view [OF parts(2,1,3,4)] parts(5) by (simp add: sound_under_def)
qed

section \<open>From the signed bytes to the delivered batch\<close>

text \<open>
  C2. Authenticity end to end. A streamer is made for a namespace, decodes with
  \<open>CreateEspressoBatchUnmarshaler\<close> and reads the contract through the binding. In every
  interleaving of its methods with any behaviour of HotShot, of the light client and of failing
  calls, each batch it delivers comes from a payload posted to that namespace, is the RLP
  decoding of exactly the signed bytes of that payload, and the signature over their hash was
  made by the (non-zero) batcher that the contract registers for the batch's L1 origin, whose
  true hash the batch names.
\<close>

theorem end_to_end_authentic:
  assumes "NewEspressoStreamer e ns originHotShot originBatch auth track = Inr s0"
    and "NewBatchAuthenticatorCaller_binding lib auth l1 = Inr c" and "wired D lib c e"
    and "abi_typed lib" and "l1_answers lib c e H B" and "lru_lawful (state_lru e)"
    and "streamer_run e (s0, w0) evs (s, w)"
  shows "\<forall>b \<in> set (delivered evs). \<exists>data eb k.
    posted e ns data \<and> SignatureLength D \<le> length data
    \<and> SigToPub D (Keccak256 D (drop (SignatureLength D) data)) (take (SignatureLength D) data) = Inr k
    \<and> rlp_decode D (drop (SignatureLength D) data) = Inr eb
    \<and> as_batch D (eb\<lparr>SignerAddress := PubkeyToAddress D k\<rparr>) = Some b
    \<and> PubkeyToAddress D k = B (sb_epoch_num (SingularBatch eb)) \<and> B (sb_epoch_num (SingularBatch eb)) \<noteq> 0
    \<and> sb_epoch_hash (SingularBatch eb) = H (sb_epoch_num (SingularBatch eb))"
proof
  fix b
  assume b: "b \<in> set (delivered evs)"
  have "authentic H B b"
    using streamer_run_sound [OF assms(7)] new_streamer_sound [OF assms(1-6)] NewEspressoStreamer_start(1) [OF assms(1)] b
    by simp
  moreover obtain data where "posted e ns data" "UnmarshalBatch e data = Inr b"
    using streamer_run_held [OF assms(7)] NewEspressoStreamer_start(1) [OF assms(1)]
      NewEspressoStreamer_held [OF assms(1)] b by auto
  ultimately show "\<exists>data eb k.
    posted e ns data \<and> SignatureLength D \<le> length data
    \<and> SigToPub D (Keccak256 D (drop (SignatureLength D) data)) (take (SignatureLength D) data) = Inr k
    \<and> rlp_decode D (drop (SignatureLength D) data) = Inr eb
    \<and> as_batch D (eb\<lparr>SignerAddress := PubkeyToAddress D k\<rparr>) = Some b
    \<and> PubkeyToAddress D k = B (sb_epoch_num (SingularBatch eb)) \<and> B (sb_epoch_num (SingularBatch eb)) \<noteq> 0
    \<and> sb_epoch_hash (SingularBatch eb) = H (sb_epoch_num (SingularBatch eb))"
    by (rule authentic_bytes [OF assms(3)])
qed


section \<open>Delivery of a posted batch\<close>

text \<open>With a head that is vouched for, \<open>Next\<close> gives it out in any world, without a remote call.\<close>

lemma vouched_Next:
  assumes "headBatch s = Some b" and "vouched e b s" and "lru_lawful (state_lru e)"
  shows "\<exists>s'. Next e s w = (Some b, s', w)"
proof -
  obtain c where "CheckBatch e b s w = (BatchAccept, s\<lparr>finalizedL1StateCache := c\<rparr>, w)"
    using vouched_CheckBatch [OF assms(2,3)] by blast
  then have "HasNext e s w = (True, s\<lparr>finalizedL1StateCache := c\<rparr>, w)"
    by (simp add: HasNext.simps [of e s w] find_candidate_def assms(1))
  then show ?thesis by (simp add: Next_def Let_def assms(1))
qed

lemma cache_soundD:
  "cache_sound e H B s \<Longrightarrow> lru_get (state_lru e) (finalizedL1StateCache s) n = (Some st, c) \<Longrightarrow>
    st_hash st = H n \<and> authorizedBatchers st = [B n] \<and> B n \<noteq> 0"
  unfolding cache_sound_def by (metis fst_conv)

text \<open>An authentic batch with a final origin is accepted when the L1 node answers.\<close>

lemma CheckBatch_accepts:
  assumes sound: "cache_sound e H B s" and view: "finalized_view e H B"
    and b: "authentic H B b" "\<not> Number b < nextBatchPos s"
    and l1: "FinalizedL1 s \<noteq> zero_ref" "bid_number (L1Origin b) \<le> ref_number (FinalizedL1 s)"
    and hdr: "HeaderHashByNumber e (bid_number (L1Origin b)) w = (Inr h, w1)"
    and bat: "EspressoBatcherAtBlock e (ref_number (FinalizedL1 s)) (bid_number (L1Origin b)) w1 = (Inr a, w2)"
  shows "\<exists>s' w'. CheckBatch e b s w = (BatchAccept, s', w')"
proof -
  have auth: "B (bid_number (L1Origin b)) \<noteq> 0" "Signer b = B (bid_number (L1Origin b))"
      "bid_hash (L1Origin b) = H (bid_number (L1Origin b))"
    using b(1) by (simp_all add: authentic_def Let_def)
  have "a = B (bid_number (L1Origin b))" "h = H (bid_number (L1Origin b))"
    using finalized_viewD(2) [OF view l1(2) bat] finalized_viewD(1) [OF view hdr] .
  obtain v s' w' where run: "CheckBatch e b s w = (v, s', w')" by (cases "CheckBatch e b s w")
  then have "v = BatchAccept"
  proof (cases rule: CheckBatch_cases)
    case (cached st c)
    then show ?thesis using cache_soundD [OF sound cached(4)] auth by (simp add: state_verdict_def)
  qed (use b l1 hdr bat auth \<open>a = _\<close> \<open>h = _\<close> in \<open>auto simp: state_verdict_def not_less\<close>)
  with run show ?thesis by blast
qed

lemma processed_head:
  assumes un: "UnmarshalBatch e txn = Inr b" and chk: "CheckBatch e b s w = (BatchAccept, s1, w1)"
    and head: "headBatch s = None" and num: "Number b = nextBatchPos s"
  shows "\<exists>t. processEspressoTransaction e txn ts s w = (None, s1\<lparr>headBatch := Some b, batchTimestamps := t\<rparr>, w1)"
proof -
  have s1: "headBatch s1 = None" "nextBatchPos s1 = nextBatchPos s"
    using CheckBatch_cache_update [OF chk] head by (simp_all add: cache_update_def refill_def)
  obtain t where "record_timestamp e b ts (s1\<lparr>headBatch := Some b\<rparr>)
      = s1\<lparr>headBatch := Some b, batchTimestamps := t\<rparr>"
    using record_timestamp_eq [of e b ts "s1\<lparr>headBatch := Some b\<rparr>"] by auto
  then show ?thesis
    using s1 num by (intro exI [of _ t]) (simp add: processEspressoTransaction_def un chk store_batch_def)
qed

text \<open>
  C10. What an authorised batcher posts is delivered. The batcher of the L1 origin signs its
  batch with \<open>ToEspressoTransaction\<close>; a streamer that expects this batch number, has no head
  and has seen an L1 block at or after the origin as final reads the payload while the two L1
  calls answer. Then the batch, with the batcher as its signer, becomes the head, and \<open>Next\<close>
  returns it, in every later world and without another remote call.
\<close>

theorem posted_batch_delivered:
  assumes sent: "ToEspressoTransaction D ns sign eb = Inr tx"
    and rlp: "\<And>buf. rlp_encode D eb = Inr buf \<Longrightarrow> rlp_decode D buf = Inr eb"
    and key: "\<And>x sg. sign x = Inr sg \<Longrightarrow> length sg = SignatureLength D \<and> SigToPub D x sg = Inr key"
    and fields: "BatchHeader eb = Some h" "eh_number h = Some n" "IsUint64 n" "L1InfoDeposit eb \<noteq> None"
    and parts: "NewBatchAuthenticatorCaller_binding lib auth l1 = Inr c" "wired D lib c e"
      "abi_typed lib" "l1_answers lib c e H B" "lru_lawful (state_lru e)"
    and batcher: "PubkeyToAddress D key = B (sb_epoch_num (SingularBatch eb))"
      "B (sb_epoch_num (SingularBatch eb)) \<noteq> 0"
      "sb_epoch_hash (SingularBatch eb) = H (sb_epoch_num (SingularBatch eb))"
    and state: "headBatch s = None" "nextBatchPos s = of_int n" "cache_sound e H B s"
      "FinalizedL1 s \<noteq> zero_ref" "sb_epoch_num (SingularBatch eb) \<le> ref_number (FinalizedL1 s)"
    and calls: "HeaderHashByNumber e (sb_epoch_num (SingularBatch eb)) w = (Inr x, w1)"
      "EspressoBatcherAtBlock e (ref_number (FinalizedL1 s)) (sb_epoch_num (SingularBatch eb)) w1 = (Inr a, w2)"
  shows "\<exists>b s' w'. as_batch D (eb\<lparr>SignerAddress := PubkeyToAddress D key\<rparr>) = Some b
    \<and> processEspressoTransaction e (et_payload tx) ts s w = (None, s', w')
    \<and> headBatch s' = Some b
    \<and> (\<forall>u. \<exists>s''. Next e s' u = (Some b, s'', u))"
proof -
  let ?eb = "eb\<lparr>SignerAddress := PubkeyToAddress D key\<rparr>"
  have "UnmarshalEspressoTransaction D (et_payload tx) = Some (Inr ?eb)"
    using transaction_unmarshals [OF sent rlp key fields] by (simp add: CreateEspressoBatchUnmarshaler_def)
  then obtain b where b: "as_batch D ?eb = Some b" "UnmarshalBatch e (et_payload tx) = Inr b"
    by (rule wired_unmarshal_Inr [OF parts(2)])
  have view: "finalized_view e H B" by (rule wired_finalized_view [OF parts(2,1,3,4)])
  obtain d where d: "L1InfoDeposit eb = Some d" using fields(4) by blast
  have num: "Number b = nextBatchPos s"
    using b(1) as_batch_defined [of ?eb h n d D] fields d state(2) by (auto simp: big_Uint64_def IsUint64_def)
  have org: "L1Origin b = \<lparr>bid_hash = sb_epoch_hash (SingularBatch eb), bid_number = sb_epoch_num (SingularBatch eb)\<rparr>"
    and sig: "Signer b = PubkeyToAddress D key"
    using as_batch_fields [OF b(1)] by (simp_all add: L1Origin_espresso_def)
  have "authentic H B b" using batcher by (simp add: authentic_def Let_def org sig)
  then obtain s1 v1 where chk: "CheckBatch e b s w = (BatchAccept, s1, v1)"
    using CheckBatch_accepts [OF state(3) view, of b w x w1 a w2] state(4,5) calls num by (auto simp: org)
  obtain t where run: "processEspressoTransaction e (et_payload tx) ts s w
      = (None, s1\<lparr>headBatch := Some b, batchTimestamps := t\<rparr>, v1)"
    using processed_head [OF b(2) chk state(1) num] by blast
  have "vouched e b (s1\<lparr>headBatch := Some b, batchTimestamps := t\<rparr>)"
    using CheckBatch_accept_vouched [OF chk parts(5)] by (simp add: vouched_def)
  then have "\<exists>s''. Next e (s1\<lparr>headBatch := Some b, batchTimestamps := t\<rparr>) u = (Some b, s'', u)" for u
    by (rule vouched_Next [rotated, OF _ parts(5)]) simp
  with b(1) run show ?thesis by (intro exI conjI) (assumption | simp)+
qed

section \<open>Spam\<close>

text \<open>
  \<open>forged B s b\<close>: the batch is not signed by the batcher registered for its origin, or, when
  the origin is not final yet, by the batcher the streamer knows.
\<close>

definition forged :: "(u64 \<Rightarrow> address) \<Rightarrow> ('c, 't) streamer \<Rightarrow> batch \<Rightarrow> bool" where
  "forged B s b =
    (if bid_number (L1Origin b) \<le> ref_number (FinalizedL1 s)
     then B (bid_number (L1Origin b)) = 0 \<or> Signer b \<noteq> B (bid_number (L1Origin b))
     else espressoBatcher s \<noteq> 0 \<and> Signer b \<noteq> espressoBatcher s)"

text \<open>A payload that does not decode, or decodes to a forged or an already passed batch.\<close>

definition junk :: "('w, 'c, 't) env \<Rightarrow> (u64 \<Rightarrow> address) \<Rightarrow> ('c, 't) streamer \<Rightarrow> bytes \<Rightarrow> bool" where
  "junk e B s data =
    (\<forall>b. UnmarshalBatch e data = Inr b \<longrightarrow> forged B s b \<or> Number b < nextBatchPos s)"

definition calls_answer :: "('w, 'c, 't) env \<Rightarrow> bool" where
  "calls_answer e =
    ((\<forall>n w. \<exists>h w'. HeaderHashByNumber e n w = (Inr h, w'))
     \<and> (\<forall>at n w. \<exists>a w'. EspressoBatcherAtBlock e at n w = (Inr a, w')))"

text \<open>What junk leaves behind: at most another content of the L1 cache.\<close>

definition spam_state :: "('w, 'c, 't) env \<Rightarrow> (u64 \<Rightarrow> hash) \<Rightarrow> (u64 \<Rightarrow> address) \<Rightarrow> ('c, 't) streamer \<Rightarrow> ('c, 't) streamer \<Rightarrow> bool" where
  "spam_state e H B s s' = (cache_sound e H B s' \<and> (\<exists>c. s' = s\<lparr>finalizedL1StateCache := c\<rparr>))"

lemma junk_cache [simp]: "junk e B (s\<lparr>finalizedL1StateCache := c\<rparr>) = junk e B s"
  by (simp add: junk_def forged_def fun_eq_iff)

lemma CheckBatch_rejects:
  assumes run: "CheckBatch e b s w = (v, s', w')" and sound: "cache_sound e H B s"
    and view: "finalized_view e H B" and ans: "calls_answer e" and l1: "FinalizedL1 s \<noteq> zero_ref"
    and bad: "forged B s b \<or> Number b < nextBatchPos s"
  shows "v = BatchDrop \<or> v = BatchPast"
  using run
proof (cases rule: CheckBatch_cases)
  case (cached st c)
  then show ?thesis using cache_soundD [OF sound cached(4)] bad by (auto simp: state_verdict_def forged_def)
next
  case (fetched c h w1 a st)
  then show ?thesis
    using finalized_viewD(2) [OF view fetched(3,6)] bad by (auto simp: state_verdict_def forged_def)
next
  case (no_header c err)
  then show ?thesis using ans unfolding calls_answer_def by (metis Inl_Inr_False prod.inject)
next
  case (no_batcher c h w1 err)
  then show ?thesis using ans unfolding calls_answer_def by (metis Inl_Inr_False prod.inject)
qed (use bad l1 in \<open>auto simp: forged_def\<close>)


lemma junk_process:
  assumes run: "processEspressoTransaction e txn ts s w = (err, s', w')"
    and junk: "junk e B s txn" and sound: "cache_sound e H B s" and view: "finalized_view e H B"
    and lru: "lru_lawful (state_lru e)" and ans: "calls_answer e" and l1: "FinalizedL1 s \<noteq> zero_ref"
  shows "err = None \<and> spam_state e H B s s'"
  using run
proof (cases rule: process_cases)
  case (unreadable x)
  then show ?thesis using sound by (auto simp: spam_state_def intro: exI [of _ "finalizedL1StateCache s"])
next
  case (rejected b v)
  then show ?thesis
    using CheckBatch_frame [OF rejected(2)] CheckBatch_sound [OF rejected(2) sound view lru]
    by (simp add: spam_state_def)
next
  case (kept b v s1)
  have "forged B s b \<or> Number b < nextBatchPos s" using junk kept(1) by (simp add: junk_def)
  from CheckBatch_rejects [OF kept(2) sound view ans l1 this] kept(3) show ?thesis by auto
qed

lemma spam_state_refl: "cache_sound e H B s \<Longrightarrow> spam_state e H B s s"
  by (auto simp: spam_state_def intro: exI [of _ "finalizedL1StateCache s"])

lemma spam_state_trans: "spam_state e H B s s1 \<Longrightarrow> spam_state e H B s1 s2 \<Longrightarrow> spam_state e H B s s2"
  by (auto simp: spam_state_def)

lemma spam_stateD:
  "spam_state e H B s s' \<Longrightarrow> cache_sound e H B s' \<and> FinalizedL1 s' = FinalizedL1 s
    \<and> junk e B s' = junk e B s \<and> header_timestamp stamps i s' = header_timestamp stamps i s"
  by (auto simp: spam_state_def header_timestamp_def)

lemma junk_txns:
  assumes "process_txns e pos ts txns s w = (s', w')" and "\<And>t. t \<in> set txns \<Longrightarrow> junk e B s t"
    and "cache_sound e H B s" and "FinalizedL1 s \<noteq> zero_ref"
    and env: "finalized_view e H B" "lru_lawful (state_lru e)" "calls_answer e"
  shows "spam_state e H B s s'"
  using assms(1-4)
proof (induction txns arbitrary: s w)
  case Nil
  then show ?case by (simp add: spam_state_refl)
next
  case (Cons t txns)
  obtain err s1 w1 where p: "processEspressoTransaction e t ts s w = (err, s1, w1)"
    by (cases "processEspressoTransaction e t ts s w")
  have st: "err = None" "spam_state e H B s s1"
    using junk_process [OF p _ Cons.prems(3) env Cons.prems(4)] Cons.prems(2) by simp_all
  note keep = spam_stateD [OF st(2)]
  have "process_txns e pos ts txns s1 w1 = (s', w')" using Cons.prems(1) by (simp add: p st(1))
  from Cons.IH [OF this] keep Cons.prems have "spam_state e H B s1 s'" by simp
  with st(2) show ?case by (rule spam_state_trans)
qed

text \<open>
  C15. Spam does no harm. Let the streamer know a final L1 block and its L1 calls answer. Then a
  range of blocks full of junk -- payloads that do not decode, that carry an old batch
  number, or that are not signed by the batcher registered for the origin they name (by the
  batcher known from the last refresh when the origin is not final yet) -- changes nothing but
  the cache of L1 states: the head, the buffer, the rewind mark and all positions stay.
\<close>

theorem spam_range_harmless:
  assumes "process_blocks e start stamps i blks s w = (s', w')"
    and "\<And>blk t. blk \<in> set blks \<Longrightarrow> t \<in> set (Transactions blk) \<Longrightarrow> junk e B s t"
    and "cache_sound e H B s" and "FinalizedL1 s \<noteq> zero_ref"
    and env: "finalized_view e H B" "lru_lawful (state_lru e)" "calls_answer e"
  shows "\<exists>c. s' = s\<lparr>finalizedL1StateCache := c\<rparr>"
proof -
  have "spam_state e H B s s'"
    using assms(1-4)
  proof (induction blks arbitrary: i s w)
    case Nil
    then show ?case by (simp add: spam_state_refl)
  next
    case (Cons blk blks)
    obtain s1 w1 where t: "process_txns e (start + of_nat i) (header_timestamp stamps i s) (Transactions blk) s w = (s1, w1)"
      by fastforce
    have st: "spam_state e H B s s1"
      using junk_txns [OF t Cons.prems(2) [OF list.set_intros(1)] Cons.prems(3,4) env] by blast
    note keep = spam_stateD [OF st]
    have "process_blocks e start stamps (Suc i) blks s1 w1 = (s', w')"
      using Cons.prems(1) by (simp add: Let_def t)
    moreover have "junk e B s1 x" if "b \<in> set blks" "x \<in> set (Transactions b)" for b x
      using Cons.prems(2) [of b x] that keep by simp
    ultimately have "spam_state e H B s1 s'" using Cons.IH keep Cons.prems(4) by simp
    with st show ?case by (rule spam_state_trans)
  qed
  then show ?thesis by (simp add: spam_state_def)
qed


section \<open>A closed instance\<close>

lemma unmarshalled_as_batch:
  assumes "UnmarshalEspressoTransaction D data = Some (Inr eb)"
  shows "\<exists>b. as_batch D eb = Some b"
  using assms
proof (cases rule: unmarshal_Inr)
  case (1 k b0)
  then show ?thesis using as_batch_defined [of eb _ _ _ D] by (auto simp: validate_decoded_Inr)
qed

text \<open>
  The streamer of the sample environment, with the sample derivation as its decoder and the
  sample contract, whose batcher is 42; every L1 block has hash 9.
\<close>

definition sample_unmarshaler :: "bytes \<Rightarrow> ext_err + batch" where
  "sample_unmarshaler data =
    (case CreateEspressoBatchUnmarshaler sample_derivation data of
       Some (Inr eb) \<Rightarrow> (case as_batch sample_derivation eb of Some b \<Rightarrow> Inr b | None \<Rightarrow> Inl ''panic'')
     | _ \<Rightarrow> Inl ''undecodable'')"

definition sample_net_env :: "(sample_world, (u64 \<times> l1_state) list, (hash \<times> u64) list) env" where
  "sample_net_env = sample_env
    \<lparr>HeaderHashByNumber := (\<lambda>n w. (Inr 9, w)), EspressoBatcher := (\<lambda>at w. (Inr 42, w)),
     EspressoBatcherAtBlock := (\<lambda>at n w. (Inr 42, w)), unmarshalBatch := sample_unmarshaler\<rparr>"

lemma sample_net_wired: "wired sample_derivation sample_bind_lib sample_caller sample_net_env"
proof -
  have un: "case CreateEspressoBatchUnmarshaler sample_derivation data of
        None \<Rightarrow> False
      | Some (Inl err) \<Rightarrow> \<exists>x. unmarshalBatch sample_net_env data = Inl x
      | Some (Inr eb) \<Rightarrow> map_option Inr (as_batch sample_derivation eb) = Some (unmarshalBatch sample_net_env data)"
    for data
  proof -
    have "UnmarshalEspressoTransaction sample_derivation data \<noteq> None" by (simp add: unmarshal_unfold)
    then show ?thesis
      using unmarshalled_as_batch [of sample_derivation data]
      by (auto simp: sample_net_env_def sample_unmarshaler_def CreateEspressoBatchUnmarshaler_def
          split: sum.splits option.splits)
  qed
  show ?thesis
    unfolding wired_def
    by (intro conjI allI un)
      (simp_all add: sample_net_env_def EspressoBatcher_caller_def EspressoBatcherAtBlock_caller_def
        view_call_def read_out_def sample_bind_lib_def find_method_def BatchAuthenticatorMetaData_def)
qed

lemma sample_net_l1: "l1_answers sample_bind_lib sample_caller sample_net_env (\<lambda>n. 9) (\<lambda>n. 42)"
  by (simp add: l1_answers_def sample_net_env_def sample_bind_lib_def find_method_def BatchAuthenticatorMetaData_def)

lemma sample_net_lru: "lru_lawful (state_lru sample_net_env)"
  by (simp add: sample_net_env_def sample_env_def alist_lru_lawful)

definition sample_payload :: bytes where
  "sample_payload = replicate 65 7 @ [1, 2, 3]"

definition sample_net_batch :: batch where
  "sample_net_batch =
    \<lparr>Number = 5, L1Origin = \<lparr>bid_hash = 9, bid_number = 3\<rparr>, Header = \<lparr>hdr_hash = 9, hdr_parent = 8\<rparr>,
     Hash = 64, Signer = 42\<rparr>"

definition sample_net_l1_block :: l1_block_ref where
  "sample_net_l1_block = \<lparr>ref_hash = 9, ref_number = 4, ref_parent = 9, ref_time = 12\<rparr>"

definition sample_net_start :: "((u64 \<times> l1_state) list, (hash \<times> u64) list) streamer" where
  "sample_net_start = sample_streamer\<lparr>nextBatchPos := 5, fallbackBatchPos := 4, FinalizedL1 := zero_ref, espressoBatcher := 0\<rparr>"

definition sample_net_ready :: "((u64 \<times> l1_state) list, (hash \<times> u64) list) streamer" where
  "sample_net_ready = sample_net_start\<lparr>FinalizedL1 := sample_net_l1_block, espressoBatcher := 42\<rparr>"

lemma sample_net_unmarshal: "UnmarshalBatch sample_net_env sample_payload = Inr sample_net_batch"
proof -
  have "as_batch sample_derivation (sample_espresso_batch\<lparr>SignerAddress := 42\<rparr>) = Some sample_net_batch"
    by (simp add: as_batch_def Number_espresso_def Header_espresso_def Hash_espresso_def L1Origin_espresso_def
        Signer_espresso_def big_Uint64_def sample_net_batch_def sample_derivation_defs)
  then show ?thesis
    by (simp add: UnmarshalBatch_def sample_net_env_def sample_unmarshaler_def sample_payload_def
        CreateEspressoBatchUnmarshaler_def sample_derivation_unmarshal)
qed

lemma sample_net_new: "NewEspressoStreamer sample_net_env 42 0 4 1 False = Inr sample_net_start"
  by (simp add: NewEspressoStreamer_def sample_net_env_def sample_net_start_def sample_defs)

lemma sample_net_refresh: "Refresh sample_net_env sample_net_l1_block 4 o1 sample_net_start w = (sample_net_ready, w)"
  by (simp add: Refresh_def refresh_batcher_def RefreshSafeL1Origin_def confirmEspressoBlockHeight_def
      refresh_positions_def sample_net_env_def sample_net_start_def sample_net_ready_def sample_net_l1_block_def sample_defs)

lemma sample_net_cache: "cache_sound sample_net_env (\<lambda>n. 9) (\<lambda>n. 42) sample_net_ready"
  by (simp add: cache_sound_def sample_net_env_def sample_net_ready_def sample_net_start_def sample_defs)


lemma sample_transaction:
  "ToEspressoTransaction sample_derivation 42 (\<lambda>_. Inr (replicate 65 7)) sample_espresso_batch
    = Inr \<lparr>et_namespace = 42, et_payload = sample_payload\<rparr>"
  by (simp add: ToEspressoTransaction_def sample_derivation_def sample_payload_def)

lemma posted_batch_delivered_witness:
  "\<exists>b s' w'. processEspressoTransaction sample_net_env sample_payload 0 sample_net_ready [] = (None, s', w')
    \<and> headBatch s' = Some b \<and> (\<exists>s''. Next sample_net_env s' [] = (Some b, s'', []))"
proof -
  have calls: "HeaderHashByNumber sample_net_env n w = (Inr 9, w)"
    "EspressoBatcherAtBlock sample_net_env at n w = (Inr 42, w)" for n at w
    by (simp_all add: sample_net_env_def)
  have fields: "BatchHeader sample_espresso_batch = Some \<lparr>eh_number = Some 5, eh_parent = 8, eh_time = 70, eh_rest = ()\<rparr>"
    "L1InfoDeposit sample_espresso_batch \<noteq> None" "sb_epoch_num (SingularBatch sample_espresso_batch) = 3"
    "sb_epoch_hash (SingularBatch sample_espresso_batch) = 9"
    by (simp_all add: sample_espresso_batch_def)
  have key: "length sg = SignatureLength sample_derivation \<and> SigToPub sample_derivation x sg = Inr 42"
    if "(\<lambda>_. Inr (replicate 65 7)) x = (Inr sg :: lib_err + bytes)" for x :: hash and sg
    using that by (auto simp: sample_derivation_def)
  have state: "headBatch sample_net_ready = None" "nextBatchPos sample_net_ready = of_int 5"
    "FinalizedL1 sample_net_ready = sample_net_l1_block" "ref_number sample_net_l1_block = 4"
    "sample_net_l1_block \<noteq> zero_ref"
    by (simp_all add: sample_net_ready_def sample_net_start_def sample_streamer_def sample_net_l1_block_def zero_ref_def)
  have "\<exists>b s' w'. as_batch sample_derivation
        (sample_espresso_batch\<lparr>SignerAddress := PubkeyToAddress sample_derivation 42\<rparr>) = Some b
    \<and> processEspressoTransaction sample_net_env
        (et_payload \<lparr>et_namespace = 42, et_payload = sample_payload\<rparr>) 0 sample_net_ready [] = (None, s', w')
    \<and> headBatch s' = Some b
    \<and> (\<forall>u. \<exists>s''. Next sample_net_env s' u = (Some b, s'', u))"
    by (rule posted_batch_delivered [OF sample_transaction _ key fields(1) _ _ fields(2)
          sample_caller_new sample_net_wired sample_bind_lib_typed sample_net_l1 sample_net_lru _ _ _
          state(1,2) sample_net_cache _ _ calls(1,2)])
      (simp_all add: fields state IsUint64_def sample_derivation_def split: if_splits)
  then show ?thesis by auto
qed

lemma spam_range_harmless_witness:
  "\<exists>s' w' c. process_blocks sample_net_env 7 [] 0 [\<lparr>Transactions = [[0], [1, 2], sample_payload]\<rparr>]
      (sample_net_ready\<lparr>nextBatchPos := 6\<rparr>) [] = (s', w')
    \<and> s' = sample_net_ready\<lparr>nextBatchPos := 6, finalizedL1StateCache := c\<rparr>"
proof -
  let ?s = "sample_net_ready\<lparr>nextBatchPos := 6\<rparr>"
  let ?blks = "[\<lparr>Transactions = [[0], [1, 2], sample_payload]\<rparr>]"
  obtain s' w' where run: "process_blocks sample_net_env 7 [] 0 ?blks ?s [] = (s', w')"
    by (cases "process_blocks sample_net_env 7 [] 0 ?blks ?s []")
  have "junk sample_net_env (\<lambda>n. 42) ?s sample_payload"
    by (simp add: junk_def sample_net_unmarshal) (simp add: sample_net_batch_def)
  moreover have "junk sample_net_env (\<lambda>n. 42) ?s t" if "t \<in> {[0], [1, 2]}" for t
    using that
    by (auto simp: junk_def UnmarshalBatch_def sample_net_env_def sample_unmarshaler_def
        CreateEspressoBatchUnmarshaler_def unmarshal_unfold sample_derivation_def)
  ultimately have "\<exists>c. s' = ?s\<lparr>finalizedL1StateCache := c\<rparr>"
  proof (intro spam_range_harmless [OF run])
    show "cache_sound sample_net_env (\<lambda>n. 9) (\<lambda>n. 42) ?s"
      using sample_net_cache by (simp add: cache_sound_def)
    show "FinalizedL1 ?s \<noteq> zero_ref"
      by (simp add: sample_net_ready_def sample_net_l1_block_def zero_ref_def)
    show "finalized_view sample_net_env (\<lambda>n. 9) (\<lambda>n. 42)" "calls_answer sample_net_env"
      by (simp_all add: finalized_view_def calls_answer_def sample_net_env_def)
  qed (auto intro: sample_net_lru)
  with run show ?thesis by blast
qed

text \<open>One \<open>Update\<close> over two HotShot blocks, the second with the payload and some junk.\<close>

definition sample_net_world :: sample_world where
  "sample_net_world = [\<lparr>Transactions = []\<rparr>, \<lparr>Transactions = [sample_payload, [0]]\<rparr>]"

definition sample_net_cached :: "(u64 \<times> l1_state) list" where
  "sample_net_cached = [(3, \<lparr>st_hash = 9, authorizedBatchers = [42]\<rparr>)]"

definition sample_net_updated :: "((u64 \<times> l1_state) list, (hash \<times> u64) list) streamer" where
  "sample_net_updated = sample_net_ready\<lparr>hotShotPos := 1, headBatch := Some sample_net_batch,
     finalizedL1StateCache := sample_net_cached\<rparr>"

lemmas sample_net_defs = sample_net_env_def sample_env_def alist_lru_def sample_net_ready_def
  sample_net_start_def sample_streamer_def sample_net_l1_block_def sample_net_cached_def sample_net_batch_def

lemma sample_net_check:
  assumes "FinalizedL1 s = sample_net_l1_block" "nextBatchPos s = 5"
    "finalizedL1StateCache s = [] \<or> finalizedL1StateCache s = sample_net_cached"
  shows "CheckBatch sample_net_env sample_net_batch s w
    = (BatchAccept, s\<lparr>finalizedL1StateCache := sample_net_cached\<rparr>, w)"
  using assms by (auto simp: CheckBatch_def sample_net_defs zero_ref_def Let_def)

lemma sample_net_fetch:
  "fetchHotShotRange sample_net_env 0 2 sample_net_ready sample_net_world = (None, sample_net_updated, sample_net_world)"
proof -
  have call: "FetchNamespaceTransactionsInRange sample_net_env 0 2 (Namespace sample_net_ready) sample_net_world
    = (Inr sample_net_world, sample_net_world)"
    by (simp add: sample_net_env_def sample_env_def sample_net_world_def)
  have now: "UnixNow sample_net_env w = (1000, w)" for w by (simp add: sample_net_env_def sample_env_def)
  let ?s1 = "sample_net_ready\<lparr>hotShotPos := 1\<rparr>"
  have s1: "FinalizedL1 ?s1 = sample_net_l1_block" "nextBatchPos ?s1 = 5" "finalizedL1StateCache ?s1 = []"
    "headBatch ?s1 = None" "Number sample_net_batch = 5"
    by (simp_all add: sample_net_ready_def sample_net_start_def sample_streamer_def sample_net_batch_def)
  have p1: "processEspressoTransaction sample_net_env sample_payload 0 ?s1 w = (None, sample_net_updated, w)" for w
    using s1 by (simp add: processEspressoTransaction_def sample_net_unmarshal sample_net_check store_batch_def
        record_timestamp_def sample_net_updated_def)
  have "UnmarshalBatch sample_net_env [0] = Inl ''undecodable''"
    by (simp add: UnmarshalBatch_def sample_net_env_def sample_unmarshaler_def
        CreateEspressoBatchUnmarshaler_def unmarshal_unfold sample_derivation_def)
  then have p2: "processEspressoTransaction sample_net_env [0] 0 sample_net_updated w = (None, sample_net_updated, w)" for w
    by (simp add: processEspressoTransaction_def)
  have [simp]: "trackBatchTimestamp sample_net_ready = False" "trackBatchTimestamp sample_net_updated = False"
    by (simp_all add: sample_net_updated_def sample_net_ready_def sample_net_start_def sample_streamer_def)
  show ?thesis
    by (simp add: fetchHotShotRange_def call now Let_def)
      (simp add: sample_net_world_def header_timestamp_def p1 p2)
qed

lemma sample_net_has_next: "HasNext sample_net_env sample_net_updated w = (True, sample_net_updated, w)"
proof -
  have "CheckBatch sample_net_env sample_net_batch sample_net_updated w = (BatchAccept, sample_net_updated, w)"
    by (subst sample_net_check) (simp_all add: sample_net_updated_def sample_net_ready_def sample_net_start_def)
  moreover have "headBatch sample_net_updated = Some sample_net_batch" by (simp add: sample_net_updated_def)
  ultimately show ?thesis by (subst HasNext.simps) (simp add: find_candidate_def)
qed

lemma sample_net_update:
  "Update sample_net_env sample_net_ready sample_net_world = Some (None, sample_net_updated, sample_net_world)"
proof -
  have latest: "FetchLatestBlockHeight sample_net_env sample_net_world = (Inr 3, sample_net_world)"
    by (simp add: sample_net_env_def sample_env_def sample_net_world_def)
  have rng: "computeEspressoBlockHeightsRange 1 HOTSHOT_BLOCK_FETCH_LIMIT sample_net_ready = (0, 2)"
    by (simp add: computeEspressoBlockHeightsRange_def HOTSHOT_BLOCK_FETCH_LIMIT_def sample_net_ready_def
        sample_net_start_def sample_streamer_def min_def)
  have "update_loop sample_net_env 1 0 sample_net_ready sample_net_world = Some (None, sample_net_updated, sample_net_world)"
    by (subst update_loop.simps) (simp add: rng sample_net_fetch sample_net_has_next)
  then show ?thesis by (simp add: Update_def latest)
qed

lemma sample_net_run:
  "\<exists>s. streamer_run sample_net_env (sample_net_start, sample_net_world)
    [Quiet, Quiet, Deliver sample_net_batch] (s, sample_net_world)"
proof -
  obtain s where nxt: "Next sample_net_env sample_net_updated sample_net_world = (Some sample_net_batch, s, sample_net_world)"
    by (simp add: Next_def Let_def sample_net_has_next) (simp add: sample_net_updated_def)
  have "streamer_step sample_net_env (sample_net_start, sample_net_world) Quiet (sample_net_ready, sample_net_world)"
    using streamer_step.refresh [OF sample_net_refresh] by (simp add: sample_net_ready_def)
  from streamer_run.run_cons [OF this streamer_run.run_cons [OF streamer_step.update [OF sample_net_update]
        streamer_run.run_cons [OF streamer_step.next_some [OF nxt] streamer_run.run_nil]]]
  show ?thesis ..
qed

lemma end_to_end_authentic_witness:
  "\<exists>data eb. posted sample_net_env 42 data \<and> 65 \<le> length data
    \<and> rlp_decode sample_derivation (drop 65 data) = Inr eb
    \<and> as_batch sample_derivation (eb\<lparr>SignerAddress := 42\<rparr>) = Some sample_net_batch"
proof -
  obtain s where run: "streamer_run sample_net_env (sample_net_start, sample_net_world)
    [Quiet, Quiet, Deliver sample_net_batch] (s, sample_net_world)"
    using sample_net_run ..
  obtain data eb k where *: "posted sample_net_env 42 data" "SignatureLength sample_derivation \<le> length data"
    "rlp_decode sample_derivation (drop (SignatureLength sample_derivation) data) = Inr eb"
    "as_batch sample_derivation (eb\<lparr>SignerAddress := PubkeyToAddress sample_derivation k\<rparr>) = Some sample_net_batch"
    "PubkeyToAddress sample_derivation k = 42"
    using end_to_end_authentic [OF sample_net_new sample_caller_new sample_net_wired sample_bind_lib_typed
        sample_net_l1 sample_net_lru run]
    by auto
  moreover have "SignatureLength sample_derivation = 65" by (simp add: sample_derivation_def)
  ultimately show ?thesis by auto
qed

end
