(* ===== verification/Op_Chain_State.thy ===== *)
theory Op_Chain_State
  imports Op_End_To_End Op_Progress
begin

text \<open>
  Reading a HotShot chain that carries the batches of an honest batcher between any noise: what
  the streamer holds and marks after a transaction, a block, a range, and after \<open>HasNext\<close>.
  Nothing but honest batches is held, every batch read is held or its block is marked for a
  rewind, and the next batch is never the one that is refused.
\<close>

section \<open>The chain\<close>

text \<open>
  HotShot answers: the latest height is between \<open>lo\<close> and \<open>hi\<close>, and a range of finalized blocks
  is the one chain's.
\<close>

definition serves :: "('w, 'c, 't) env \<Rightarrow> u64 \<Rightarrow> (nat \<Rightarrow> ns_block) \<Rightarrow> nat \<Rightarrow> nat \<Rightarrow> bool" where
  "serves e ns chain lo hi =
    ((\<forall>w. \<exists>l w'. FetchLatestBlockHeight e w = (Inr l, w') \<and> lo \<le> unat l \<and> unat l \<le> hi)
     \<and> (\<forall>from until w. from < until \<longrightarrow> unat until < hi \<longrightarrow>
          (\<exists>w'. FetchNamespaceTransactionsInRange e from until ns w
            = (Inr (map chain [unat from..<unat until]), w'))))"

text \<open>Payload \<open>t\<close> of block \<open>p\<close> is the batch \<open>b\<close>.\<close>

definition carries :: "('w, 'c, 't) env \<Rightarrow> (nat \<Rightarrow> ns_block) \<Rightarrow> nat \<Rightarrow> batch \<Rightarrow> bool" where
  "carries e chain p b = (\<exists>t \<in> set (Transactions (chain p)). UnmarshalBatch e t = Inr b)"

text \<open>
  The honest batches: one for each number, told apart by their hashes, signed by the batcher of
  their origin, which is final and named by its true hash.
\<close>

definition honest :: "(u64 \<Rightarrow> hash) \<Rightarrow> (u64 \<Rightarrow> address) \<Rightarrow> u64 \<Rightarrow> batch set \<Rightarrow> bool" where
  "honest H B final A =
    (inj_on Number A \<and> inj_on Hash A
     \<and> (\<forall>b \<in> A. authentic H B b \<and> bid_number (L1Origin b) \<le> final))"

text \<open>
  Every other payload is noise: it does not decode, or to a batch with an old number, or with a
  final origin but without the signature of its batcher or with a wrong origin hash, or with an
  origin that is not final and without the signature of the batcher known from the last refresh.
\<close>

definition noise :: "(u64 \<Rightarrow> hash) \<Rightarrow> (u64 \<Rightarrow> address) \<Rightarrow> ('c, 't) streamer \<Rightarrow> batch \<Rightarrow> bool" where
  "noise H B s b =
    (Number b < nextBatchPos s
     \<or> (if bid_number (L1Origin b) \<le> ref_number (FinalizedL1 s) then \<not> authentic H B b
        else espressoBatcher s \<noteq> 0 \<and> Signer b \<noteq> espressoBatcher s))"

definition only_noise_beside ::
  "('w, 'c, 't) env \<Rightarrow> (u64 \<Rightarrow> hash) \<Rightarrow> (u64 \<Rightarrow> address) \<Rightarrow> batch set \<Rightarrow> (nat \<Rightarrow> ns_block) \<Rightarrow> ('c, 't) streamer \<Rightarrow> bool" where
  "only_noise_beside e H B A chain s = (\<forall>p b. carries e chain p b \<longrightarrow> b \<in> A \<or> noise H B s b)"

text \<open>The first block of the next range.\<close>

definition read_pos :: "u64 \<Rightarrow> u64" where
  "read_pos p = (if p > 0 then p + 1 else p)"

lemma computeEspressoBlockHeightsRange_read_pos:
  "computeEspressoBlockHeightsRange fin limit s
    = (read_pos (hotShotPos s), min (read_pos (hotShotPos s) + limit) (fin + 1))"
  by (simp add: computeEspressoBlockHeightsRange_def read_pos_def Let_def)

lemma read_pos_mono:
  assumes "p \<le> q" and "q \<noteq> MaxUint64"
  shows "read_pos p \<le> read_pos q"
proof -
  have "p \<noteq> MaxUint64" using assms word_order.extremum_uniqueI by fastforce
  then have "unat (p + 1) = unat p + 1" "unat (q + 1) = unat q + 1"
    using u_plus_one [of p] u_plus_one [of q] assms(2) by simp_all
  then show ?thesis using assms by (auto simp: read_pos_def word_le_nat_alt word_less_nat_alt)
qed

section \<open>The state while the chain is read\<close>

text \<open>The well-formed streamer that holds nothing but honest batches.\<close>

definition orderly ::
  "('w, 'c, 't) env \<Rightarrow> (u64 \<Rightarrow> hash) \<Rightarrow> (u64 \<Rightarrow> address) \<Rightarrow> batch set \<Rightarrow> ('c, 't) streamer \<Rightarrow> bool" where
  "orderly e H B A s =
    (streamer_ok s \<and> cache_sound e H B s \<and> FinalizedL1 s \<noteq> zero_ref
     \<and> honest H B (ref_number (FinalizedL1 s)) A \<and> held s \<subseteq> A
     \<and> hotShotPos s \<noteq> MaxUint64 \<and> (skipPos s = MaxUint64 \<or> skipPos s \<le> hotShotPos s))"

text \<open>
  What the environment does in this theory: honest L1 answers, no call fails, caches are caches.
\<close>

definition l1_served :: "('w, 'c, 't) env \<Rightarrow> (u64 \<Rightarrow> hash) \<Rightarrow> (u64 \<Rightarrow> address) \<Rightarrow> bool" where
  "l1_served e H B = (finalized_view e H B \<and> calls_answer e \<and> lru_lawful (state_lru e))"

text \<open>Reading only adds to the batches held and only lowers the rewind mark.\<close>

definition grows :: "('c, 't) streamer \<Rightarrow> ('c, 't) streamer \<Rightarrow> bool" where
  "grows s s' =
    (intake s s' \<and> held s \<subseteq> held s' \<and> skipPos s' \<le> skipPos s \<and> hotShotPos s' = hotShotPos s)"

lemma grows_refl [simp]: "grows s s"
  by (simp add: grows_def)

lemma grows_trans: "grows s s1 \<Longrightarrow> grows s1 s2 \<Longrightarrow> grows s s2"
  by (auto simp: grows_def intro: intake_trans)

lemma noise_cong:
  "nextBatchPos s' = nextBatchPos s \<Longrightarrow> FinalizedL1 s' = FinalizedL1 s \<Longrightarrow> espressoBatcher s' = espressoBatcher s
    \<Longrightarrow> noise H B s' b = noise H B s b"
  by (simp add: noise_def)

lemma noise_mono:
  "noise H B s b \<Longrightarrow> nextBatchPos s \<le> nextBatchPos s' \<Longrightarrow> FinalizedL1 s' = FinalizedL1 s
    \<Longrightarrow> espressoBatcher s' = espressoBatcher s \<Longrightarrow> noise H B s' b"
  by (auto simp: noise_def split: if_splits)

lemma intake_noise: "intake s s' \<Longrightarrow> noise H B s' b = noise H B s b"
  by (rule noise_cong) (simp_all add: intake_def)

text \<open>A batch read from block \<open>pos\<close> is held, or it is not the next one and the mark is before the block.\<close>

definition settled :: "u64 \<Rightarrow> batch \<Rightarrow> ('c, 't) streamer \<Rightarrow> bool" where
  "settled pos b s =
    (nextBatchPos s \<le> Number b \<longrightarrow> b \<in> held s \<or> Number b \<noteq> nextBatchPos s \<and> skipPos s \<le> before pos)"

lemma settled_grows: "settled pos b s \<Longrightarrow> grows s s' \<Longrightarrow> settled pos b s'"
  by (auto simp: settled_def grows_def intake_def)

section \<open>One transaction\<close>

lemma CheckBatch_honest:
  assumes o: "orderly e H B A s" and env: "l1_served e H B" and b: "b \<in> A" "\<not> Number b < nextBatchPos s"
  shows "\<exists>s' w'. CheckBatch e b s w = (BatchAccept, s', w')"
proof -
  have hb: "authentic H B b" "bid_number (L1Origin b) \<le> ref_number (FinalizedL1 s)"
    using o b(1) by (auto simp: orderly_def honest_def)
  obtain h w1 where hdr: "HeaderHashByNumber e (bid_number (L1Origin b)) w = (Inr h, w1)"
    using env unfolding l1_served_def calls_answer_def by blast
  obtain a w2 where "EspressoBatcherAtBlock e (ref_number (FinalizedL1 s)) (bid_number (L1Origin b)) w1 = (Inr a, w2)"
    using env unfolding l1_served_def calls_answer_def by blast
  from CheckBatch_accepts [OF _ _ hb(1) b(2) _ hb(2) hdr this] o env show ?thesis
    by (simp add: orderly_def l1_served_def)
qed

lemma CheckBatch_noise:
  assumes run: "CheckBatch e b s w = (v, s', w')" and o: "orderly e H B A s" and env: "l1_served e H B"
    and bad: "noise H B s b"
  shows "v = BatchDrop \<or> v = BatchPast"
proof -
  have sound: "cache_sound e H B s" and l1: "FinalizedL1 s \<noteq> zero_ref" using o by (simp_all add: orderly_def)
  have view: "finalized_view e H B" and ans: "calls_answer e" using env by (simp_all add: l1_served_def)
  from run show ?thesis
  proof (cases rule: CheckBatch_cases)
    case (cached st c)
    then show ?thesis
      using cache_soundD [OF sound cached(4)] bad by (auto simp: state_verdict_def noise_def authentic_def Let_def)
  next
    case (fetched c h w1 a st)
    then show ?thesis
      using finalized_viewD(1) [OF view fetched(5)] finalized_viewD(2) [OF view fetched(3,6)] bad
      by (auto simp: state_verdict_def noise_def authentic_def Let_def)
  next
    case (no_header c err)
    then show ?thesis using ans unfolding calls_answer_def by (metis Inl_Inr_False prod.inject)
  next
    case (no_batcher c h w1 err)
    then show ?thesis using ans unfolding calls_answer_def by (metis Inl_Inr_False prod.inject)
  qed (use bad l1 in \<open>auto simp: noise_def\<close>)
qed

lemma CheckBatch_orderly:
  assumes run: "CheckBatch e b s w = (v, s', w')" and o: "orderly e H B A s" and env: "l1_served e H B"
  shows "orderly e H B A s'" and "grows s s'" and "held s' = held s"
proof -
  obtain c where s': "s' = s\<lparr>finalizedL1StateCache := c\<rparr>" using CheckBatch_frame [OF run] by blast
  have "cache_sound e H B s'" "streamer_ok s'"
    using CheckBatch_sound [OF run] CheckBatch_ok [OF run] o env by (simp_all add: orderly_def l1_served_def)
  with o show "orderly e H B A s'" by (simp add: orderly_def s')
  show "grows s s'" "held s' = held s" by (simp_all add: s' grows_def intake_def)
qed

lemma store_honest:
  assumes run: "store_batch e b ts s = (err, s')" and o: "orderly e H B A s" and b: "b \<in> A"
  shows "orderly e H B A s'" and "grows s s'"
    and "b \<in> held s' \<or> err = Some ErrAtCapacity \<and> Number b \<noteq> nextBatchPos s"
proof -
  have inj: "inj_on Number A" "inj_on Hash A" and sub: "held s \<subseteq> A" and ok: "streamer_ok s"
    using o by (simp_all add: orderly_def honest_def)
  have same: "y = b" if "y \<in> held s" "Hash y = Hash b" for y
    using that sub b inj(2) by (auto dest: inj_onD)
  have frame: "held s' \<subseteq> insert b (held s)" by (rule store_batch_held [OF run])
  have cache: "cache_sound e H B s'"
    by (rule iffD2 [OF cache_sound_cong [OF store_batch_cache [OF run]]]) (use o in \<open>simp add: orderly_def\<close>)
  note ok' = store_batch_ok [OF run ok]
  show "orderly e H B A s'"
    using o frame b ok' cache by (auto simp: orderly_def intake_def)
  from run have "held s \<subseteq> held s' \<and> (b \<in> held s' \<or> err = Some ErrAtCapacity \<and> Number b \<noteq> nextBatchPos s)"
  proof (cases rule: store_batch_cases)
    case (duplicate_head h)
    then show ?thesis using same [of h] by (auto simp: held_def)
  next
    case full
    have "Number b \<noteq> nextBatchPos s"
    proof
      assume num: "Number b = nextBatchPos s"
      show False
      proof (cases "headBatch s")
        case None
        then have "store_batch e b ts s = (None, record_timestamp e b ts (s\<lparr>headBatch := Some b\<rparr>))"
          using num by (simp add: store_batch_def)
        with run full(1) show False by simp
      next
        case (Some h)
        then have "Number h = nextBatchPos s" using ok by (simp add: streamer_ok_def)
        moreover have "h \<in> A" using sub Some by (auto simp: held_def)
        ultimately have "h = b" using num b by (intro inj_onD [OF inj(1)]) simp_all
        then have "store_batch e b ts s = (None, s)" using Some by (simp add: store_batch_def)
        with run full(1) show False by simp
      qed
    qed
    with full show ?thesis by simp
  next
    case (duplicate t)
    then obtain y where "y \<in> set (batches (BatchBuffer s))" "Hash y = Hash b"
      using Insert_duplicate [OF duplicate(3)] by blast
    with same [of y] have "b \<in> held s" by (auto simp: held_def)
    with duplicate show ?thesis by simp
  next
    case (head t)
    then show ?thesis by (auto simp: held_def)
  next
    case (buffered buf t)
    then show ?thesis
      using buf.ins_content_in [OF _ buffered(2)] ok by (auto simp: held_def streamer_ok_def)
  qed
  then show "b \<in> held s' \<or> err = Some ErrAtCapacity \<and> Number b \<noteq> nextBatchPos s"
    and "grows s s'" using ok' by (simp_all add: grows_def)
qed

lemma process_orderly:
  assumes run: "processEspressoTransaction e txn ts s w = (err, s', w')" and o: "orderly e H B A s"
    and env: "l1_served e H B" and fit: "\<And>b. UnmarshalBatch e txn = Inr b \<Longrightarrow> b \<in> A \<or> noise H B s b"
  shows "orderly e H B A s' \<and> grows s s' \<and> (\<forall>b \<in> A. UnmarshalBatch e txn = Inr b \<longrightarrow> nextBatchPos s \<le> Number b \<longrightarrow>
      b \<in> held s' \<or> err = Some ErrAtCapacity \<and> Number b \<noteq> nextBatchPos s)"
  using run
proof (cases rule: process_cases)
  case (unreadable x)
  then show ?thesis using o by simp
next
  case (rejected b v)
  have "Number b < nextBatchPos s" if "b \<in> A"
    using CheckBatch_honest [OF o env that, of w] rejected(2,3) by auto
  then have "\<forall>b' \<in> A. UnmarshalBatch e txn = Inr b' \<longrightarrow> \<not> nextBatchPos s \<le> Number b'"
    by (auto simp: rejected(1))
  then show ?thesis using CheckBatch_orderly(1,2) [OF rejected(2) o env] by blast
next
  case (kept b v s1)
  have "b \<in> A" using fit [OF kept(1)] CheckBatch_noise [OF kept(2) o env] kept(3) by auto
  note c = CheckBatch_orderly [OF kept(2) o env]
  note st = store_honest [OF kept(4) c(1) \<open>b \<in> A\<close>]
  have "nextBatchPos s1 = nextBatchPos s" using c(2) by (simp add: grows_def intake_def)
  then have "b \<in> held s' \<or> err = Some ErrAtCapacity \<and> Number b \<noteq> nextBatchPos s" using st(3) by simp
  then show ?thesis by (intro conjI ballI impI st(1) grows_trans [OF c(2) st(2)]) (simp add: kept(1))
qed

section \<open>A range of blocks\<close>

lemma before_le_self: "before pos \<le> pos"
  by (auto simp: before_def word_le_nat_alt unat_minus_one)

text \<open>The write of the rewind mark after one transaction.\<close>

definition marked :: "buffer_error option \<Rightarrow> u64 \<Rightarrow> ('c, 't) streamer \<Rightarrow> ('c, 't) streamer" where
  "marked err pos s = (if err = Some ErrAtCapacity then s\<lparr>skipPos := min (skipPos s) (before pos)\<rparr> else s)"

lemma process_txns_marked:
  "process_txns e pos ts (txn # txns) s w =
    (case processEspressoTransaction e txn ts s w of (err, s, w) \<Rightarrow> process_txns e pos ts txns (marked err pos s) w)"
  by (simp only: process_txns.simps marked_def before_def)

lemma marked_orderly:
  assumes "orderly e H B A s" and "pos \<le> hotShotPos s"
  shows "orderly e H B A (marked err pos s)" and "grows s (marked err pos s)"
proof -
  have "before pos \<le> hotShotPos s" by (rule order_trans [OF before_le_self assms(2)])
  then have "min (skipPos s) (before pos) = MaxUint64 \<or> min (skipPos s) (before pos) \<le> hotShotPos s"
    by (simp add: min.coboundedI2)
  then show "orderly e H B A (marked err pos s)"
    using assms(1) by (simp add: marked_def orderly_def streamer_ok_def)
  show "grows s (marked err pos s)" by (simp add: marked_def grows_def)
qed

lemma process_txns_orderly:
  assumes "process_txns e pos ts txns s w = (s', w')" and "orderly e H B A s" and "pos \<le> hotShotPos s"
    and "\<And>t b. t \<in> set txns \<Longrightarrow> UnmarshalBatch e t = Inr b \<Longrightarrow> b \<in> A \<or> noise H B s b"
    and env: "l1_served e H B"
  shows "orderly e H B A s' \<and> grows s s'
    \<and> (\<forall>t \<in> set txns. \<forall>b \<in> A. UnmarshalBatch e t = Inr b \<longrightarrow> settled pos b s')"
  using assms(1-4)
proof (induction txns arbitrary: s w)
  case (Cons t txns)
  obtain err s1 w1 where p: "processEspressoTransaction e t ts s w = (err, s1, w1)"
    by (cases "processEspressoTransaction e t ts s w")
  have 1: "orderly e H B A s1 \<and> grows s s1 \<and> (\<forall>b \<in> A. UnmarshalBatch e t = Inr b \<longrightarrow> nextBatchPos s \<le> Number b \<longrightarrow>
      b \<in> held s1 \<or> err = Some ErrAtCapacity \<and> Number b \<noteq> nextBatchPos s)"
    by (rule process_orderly [OF p Cons.prems(2) env]) (rule Cons.prems(4) [OF list.set_intros(1)])
  let ?s2 = "marked err pos s1"
  have "pos \<le> hotShotPos s1" using 1 Cons.prems(3) by (simp add: grows_def)
  note 2 = marked_orderly [OF conjunct1 [OF 1] this, of err]
  have grow: "grows s ?s2" using 1 2(2) grows_trans by blast
  have next_same: "nextBatchPos ?s2 = nextBatchPos s" using grow by (simp add: grows_def intake_def)
  have head: "settled pos b ?s2" if "b \<in> A" "UnmarshalBatch e t = Inr b" for b
    using 1 that 2(2) next_same by (auto simp: settled_def grows_def marked_def)
  have rest: "process_txns e pos ts txns ?s2 w1 = (s', w')"
    using Cons.prems(1) by (simp only: process_txns_marked p prod.case)
  have "b \<in> A \<or> noise H B ?s2 b" if "x \<in> set txns" "UnmarshalBatch e x = Inr b" for x b
    using Cons.prems(4) [of x b] that grow intake_noise [of s ?s2 H B b] by (simp add: grows_def)
  moreover have "pos \<le> hotShotPos ?s2" using grow Cons.prems(3) by (simp add: grows_def)
  ultimately have 3: "orderly e H B A s' \<and> grows ?s2 s'
      \<and> (\<forall>t \<in> set txns. \<forall>b \<in> A. UnmarshalBatch e t = Inr b \<longrightarrow> settled pos b s')"
    using Cons.IH [OF rest 2(1)] by blast
  have "settled pos b s'" if "b \<in> A" "UnmarshalBatch e t = Inr b" for b
    using settled_grows [OF head [OF that]] 3 by blast
  with 3 grows_trans [OF grow] show ?case by simp
qed simp

lemma process_blocks_orderly:
  assumes "process_blocks e start stamps i blks s w = (s', w')" and "orderly e H B A s"
    and "\<And>k. k < length blks \<Longrightarrow> start + of_nat (i + k) \<le> hotShotPos s"
    and "\<And>blk t b. blk \<in> set blks \<Longrightarrow> t \<in> set (Transactions blk) \<Longrightarrow> UnmarshalBatch e t = Inr b \<Longrightarrow> b \<in> A \<or> noise H B s b"
    and env: "l1_served e H B"
  shows "orderly e H B A s' \<and> grows s s'
    \<and> (\<forall>k < length blks. \<forall>t \<in> set (Transactions (blks ! k)). \<forall>b \<in> A.
         UnmarshalBatch e t = Inr b \<longrightarrow> settled (start + of_nat (i + k)) b s')"
  using assms(1-4)
proof (induction blks arbitrary: i s w)
  case (Cons blk blks)
  obtain s1 w1 where t: "process_txns e (start + of_nat i) (header_timestamp stamps i s) (Transactions blk) s w = (s1, w1)"
    by fastforce
  have 1: "orderly e H B A s1 \<and> grows s s1
      \<and> (\<forall>t \<in> set (Transactions blk). \<forall>b \<in> A. UnmarshalBatch e t = Inr b \<longrightarrow> settled (start + of_nat i) b s1)"
  proof (rule process_txns_orderly [OF t Cons.prems(2) _ _ env])
    show "start + of_nat i \<le> hotShotPos s" using Cons.prems(3) [of 0] by simp
    show "b \<in> A \<or> noise H B s b" if "t \<in> set (Transactions blk)" "UnmarshalBatch e t = Inr b" for t b
      by (rule Cons.prems(4) [OF list.set_intros(1) that])
  qed
  have rest: "process_blocks e start stamps (Suc i) blks s1 w1 = (s', w')"
    using Cons.prems(1) by (simp add: Let_def t)
  have 2: "orderly e H B A s' \<and> grows s1 s'
      \<and> (\<forall>k < length blks. \<forall>t \<in> set (Transactions (blks ! k)). \<forall>b \<in> A.
           UnmarshalBatch e t = Inr b \<longrightarrow> settled (start + of_nat (Suc i + k)) b s')"
  proof (rule Cons.IH [OF rest conjunct1 [OF 1]])
    show "start + of_nat (Suc i + k) \<le> hotShotPos s1" if "k < length blks" for k
      using Cons.prems(3) [of "Suc k"] that 1 by (simp add: grows_def add_ac)
    show "b \<in> A \<or> noise H B s1 b"
      if "x \<in> set blks" "t \<in> set (Transactions x)" "UnmarshalBatch e t = Inr b" for x t b
      using Cons.prems(4) [OF list.set_intros(2) [OF that(1)] that(2,3)] 1 intake_noise [of s s1 H B b]
      by (simp add: grows_def)
  qed
  show ?case
  proof (intro conjI allI impI ballI)
    show "orderly e H B A s'" using 2 by simp
    show "grows s s'" using 1 2 grows_trans by blast
    fix k t b
    assume k: "k < length (blk # blks)" and tb: "t \<in> set (Transactions ((blk # blks) ! k))" "b \<in> A" "UnmarshalBatch e t = Inr b"
    show "settled (start + of_nat (i + k)) b s'"
    proof (cases k)
      case 0
      then have "settled (start + of_nat i) b s1" using 1 tb by simp
      then show ?thesis using settled_grows 2 0 by fastforce
    next
      case (Suc j)
      then have "settled (start + of_nat (Suc i + j)) b s'"
        using 2 k tb by (simp only: nth_Cons_Suc list.size Suc_less_eq add_0_right add_Suc_right)
      moreover have "i + k = Suc i + j" using Suc by simp
      ultimately show ?thesis by (simp only:)
    qed
  qed
qed simp

section \<open>HasNext\<close>

text \<open>The states \<open>HasNext\<close> passes through: only outdated batches leave.\<close>

definition refilled ::
  "('w, 'c, 't) env \<Rightarrow> (u64 \<Rightarrow> hash) \<Rightarrow> (u64 \<Rightarrow> address) \<Rightarrow> batch set \<Rightarrow> ('c, 't) streamer \<Rightarrow> ('c, 't) streamer \<Rightarrow> bool" where
  "refilled e H B A s x =
    (orderly e H B A x \<and> refill s x \<and> (\<forall>b \<in> held s. nextBatchPos s \<le> Number b \<longrightarrow> b \<in> held x) \<and> held x \<subseteq> held s)"

lemma refilled_refl: "orderly e H B A s \<Longrightarrow> refilled e H B A s s"
  by (simp add: refilled_def)

lemma stale_refilled:
  assumes P: "refilled e H B A s x" and f: "find_candidate x = StalePopped x1"
  shows "refilled e H B A s x1"
proof -
  have P': "orderly e H B A x" "refill s x" using P by (simp_all add: refilled_def)
  have ok: "streamer_ok x1 \<and> nextBatchPos x1 = nextBatchPos x"
    using find_candidate_ok(1) [OF _ f] P'(1) by (simp add: orderly_def)
  have rf: "refill x x1" by (rule find_candidate_refill(1) [OF f])
  have sub: "held x1 \<subseteq> held x" by (rule find_candidate_held(1) [OF f])
  have kept: "\<forall>b \<in> held x. nextBatchPos x \<le> Number b \<longrightarrow> b \<in> held x1"
    using f by (auto simp: find_candidate_def held_def Peek_buf_def Pop_def not_le [symmetric]
        split: option.splits if_splits list.splits)
  have "cache_sound e H B x1"
    by (rule iffD2 [OF cache_sound_cong [OF find_candidate_cache(1) [OF f]]]) (use P'(1) in \<open>simp add: orderly_def\<close>)
  then have "orderly e H B A x1" using P'(1) ok rf sub by (auto simp: orderly_def refill_def)
  then show ?thesis
    using P P'(2) kept sub rf refill_trans [OF P'(2) rf] by (auto simp: refilled_def refill_def)
qed

lemma candidate_refilled:
  assumes P: "refilled e H B A s x" and f: "find_candidate x = Candidate b x1"
  shows "refilled e H B A s x1 \<and> headBatch x1 = Some b \<and> Number b = nextBatchPos s"
proof -
  have P': "orderly e H B A x" "refill s x" using P by (simp_all add: refilled_def)
  have ok: "streamer_ok x1 \<and> nextBatchPos x1 = nextBatchPos x \<and> headBatch x1 = Some b"
    using find_candidate_ok(2) [OF _ f] P'(1) by (simp add: orderly_def)
  have rf: "refill x x1" by (rule find_candidate_refill(2) [OF f])
  have same: "held x1 = held x"
    using f by (auto simp: find_candidate_def held_def Peek_buf_def Pop_def split: option.splits if_splits list.splits)
  have "cache_sound e H B x1"
    by (rule iffD2 [OF cache_sound_cong [OF find_candidate_cache(2) [OF f]]]) (use P'(1) in \<open>simp add: orderly_def\<close>)
  then have "orderly e H B A x1" using P'(1) ok rf same by (auto simp: orderly_def refill_def)
  moreover have "Number b = nextBatchPos s" using ok P'(2) by (auto simp: streamer_ok_def refill_def)
  ultimately show ?thesis using P ok same refill_trans [OF P'(2) rf] by (simp add: refilled_def)
qed

lemma checked_refilled:
  assumes P: "refilled e H B A s x" and f: "find_candidate x = Candidate b x1"
    and c: "CheckBatch e b x1 u = (v, x2, u2)" and env: "l1_served e H B"
  shows "v = BatchAccept \<and> refilled e H B A s x2 \<and> headBatch x2 = Some b \<and> Number b = nextBatchPos s"
proof -
  note a = candidate_refilled [OF P f]
  have o: "orderly e H B A x1" and rf: "refill s x1" using a by (simp_all add: refilled_def)
  have "b \<in> held x1" using a by (simp add: held_def)
  then have "b \<in> A" using o by (auto simp: orderly_def)
  then have "v = BatchAccept"
    using CheckBatch_honest [OF o env, of b u] a rf c by (auto simp: refill_def)
  then show ?thesis
    using a CheckBatch_orderly [OF c o env] CheckBatch_cache_update [OF c] refill_trans [OF rf CheckBatch_refill [OF c]]
    by (simp add: refilled_def cache_update_def)
qed

text \<open>In a state in order, no candidate means that the next batch is not there.\<close>

lemma no_candidate_no_next:
  assumes none: "find_candidate s = NoCandidate" and ok: "streamer_ok s" and b: "b \<in> held s"
  shows "Number b \<noteq> nextBatchPos s"
proof
  assume num: "Number b = nextBatchPos s"
  have hd: "headBatch s = None" using none by (auto simp: find_candidate_def split: option.splits if_splits)
  with b have "b \<in> set (batches (BatchBuffer s))" by (simp add: held_def)
  then obtain x xs where xs: "batches (BatchBuffer s) = x # xs" "x = b \<or> b \<in> set xs"
    by (cases "batches (BatchBuffer s)") auto
  then have "Number x \<le> nextBatchPos s" using ok num by (auto simp: streamer_ok_def buffer_ok_def)
  then show False using none hd xs by (auto simp: find_candidate_def Peek_buf_def split: if_splits)
qed

lemma HasNext_orderly:
  assumes run: "HasNext e s w = (r, s', w')" and o: "orderly e H B A s" and env: "l1_served e H B"
  shows "orderly e H B A s'" and "refill s s'" and "\<And>b. b \<in> held s \<Longrightarrow> nextBatchPos s \<le> Number b \<Longrightarrow> b \<in> held s'"
    and "r \<longleftrightarrow> (\<exists>b \<in> held s. Number b = nextBatchPos s)"
    and "r \<Longrightarrow> \<exists>b \<in> A. headBatch s' = Some b \<and> Number b = nextBatchPos s"
proof -
  let ?A = "\<lambda>b x _. refilled e H B A s x \<and> headBatch x = Some b \<and> Number b = nextBatchPos s"
  have "if r then \<exists>b. ?A b s' w'
    else refilled e H B A s s' \<and> find_candidate s' = NoCandidate \<or> (\<exists>b :: batch. False)"
  proof (rule HasNext_rule [OF run, where P = "\<lambda>x _. refilled e H B A s x" and A = ?A and U = "\<lambda>_ _ _. False"])
    show "refilled e H B A s s" by (rule refilled_refl [OF o])
    show "refilled e H B A s (x2\<lparr>headBatch := None\<rparr>)"
      if "refilled e H B A s x" "find_candidate x = Candidate b x1" "CheckBatch e b x1 u = (v, x2, u2)"
        "v = BatchDrop \<or> v = BatchPast"
      for x x1 b u v x2 u2
      using checked_refilled [OF that(1-3) env] that(4) by simp
  qed (use stale_refilled checked_refilled [OF _ _ _ env] in \<open>blast+\<close>)
  then have res: "refilled e H B A s s'" "r \<Longrightarrow> \<exists>b. headBatch s' = Some b \<and> Number b = nextBatchPos s"
    "\<not> r \<Longrightarrow> find_candidate s' = NoCandidate"
    by (auto split: if_splits)
  note P = res(1) [unfolded refilled_def]
  show "orderly e H B A s'" "refill s s'" using P by simp_all
  show "b \<in> held s'" if "b \<in> held s" "nextBatchPos s \<le> Number b" for b using P that by simp
  show "\<exists>b \<in> A. headBatch s' = Some b \<and> Number b = nextBatchPos s" if r
    using res(2) [OF that] P by (auto simp: orderly_def held_def)
  show "r \<longleftrightarrow> (\<exists>b \<in> held s. Number b = nextBatchPos s)"
  proof
    assume r
    then show "\<exists>b \<in> held s. Number b = nextBatchPos s" using res(2) P by (auto simp: held_def)
  next
    assume "\<exists>b \<in> held s. Number b = nextBatchPos s"
    then obtain b where "b \<in> held s'" "Number b = nextBatchPos s'" using P by (auto simp: refill_def)
    then show r using no_candidate_no_next [OF res(3), of b] P by (auto simp: orderly_def)
  qed
qed

end
