(* ===== verification/Op_Chain.thy ===== *)
theory Op_Chain
  imports Op_Chain_State
begin

text \<open>
  The streamer against a whole HotShot chain: whatever the order in which the blocks carry the
  batcher's batches, however often, and between whatever junk, a caller that alternates
  \<open>Update\<close> and \<open>Next\<close> gets them in the order of their numbers. A full buffer only delays:
  the refused batch is marked, and the next delivery rewinds to its block.
\<close>

section \<open>What is still to come\<close>

text \<open>
  What is still to come: a batch held, one in a block below \<open>lim\<close> that is yet to be read, or
  a refused one whose block will be read again after the next delivery.
\<close>

definition due :: "('w, 'c, 't) env \<Rightarrow> (nat \<Rightarrow> ns_block) \<Rightarrow> nat \<Rightarrow> batch \<Rightarrow> ('c, 't) streamer \<Rightarrow> bool" where
  "due e chain lim b s =
    (b \<in> held s
     \<or> (\<exists>p < lim. carries e chain p b
          \<and> (unat (read_pos (hotShotPos s)) \<le> p \<or> Number b \<noteq> nextBatchPos s \<and> skipPos s \<le> before (of_nat p))))"

lemma due_refill:
  assumes "refill s s'" and "b \<in> held s \<Longrightarrow> b \<in> held s'" and "due e chain lim b s"
  shows "due e chain lim b s'"
  using assms by (auto simp: due_def refill_def)

lemma Next_orderly:
  assumes o: "orderly e H B A s" and env: "l1_served e H B" and b: "b \<in> held s" "Number b = nextBatchPos s"
    and lim: "lim < 2 ^ 64"
  obtains s' w' where "Next e s w = (Some b, s', w')" "orderly e H B A s'" "nextBatchPos s' = nextBatchPos s + 1"
    "FinalizedL1 s' = FinalizedL1 s" "espressoBatcher s' = espressoBatcher s" "Namespace s' = Namespace s"
    "\<And>c. nextBatchPos s < Number c \<Longrightarrow> due e chain lim c s \<Longrightarrow> due e chain lim c s'"
proof -
  obtain r s2 w2 where run: "HasNext e s w = (r, s2, w2)" by (cases "HasNext e s w")
  note h = HasNext_orderly [OF run o env]
  have r: "r" using h(4) b by blast
  have inj: "inj_on Number A" and "b \<in> A" using o b(1) by (auto simp: orderly_def honest_def)
  obtain x where x: "x \<in> A" "headBatch s2 = Some x" "Number x = nextBatchPos s" using h(5) [OF r] by blast
  then have xb: "x = b" using \<open>b \<in> A\<close> b(2) by (intro inj_onD [OF inj]) simp_all
  have rf: "nextBatchPos s2 = nextBatchPos s" "skipPos s2 = skipPos s" "hotShotPos s2 = hotShotPos s"
    using h(2) by (simp_all add: refill_def)
  define s3 where "s3 = s2\<lparr>nextBatchPos := nextBatchPos s2 + 1, headBatch := None\<rparr>"
  define s' where "s' = (if skipPos s \<noteq> MaxUint64 then s3\<lparr>hotShotPos := skipPos s, skipPos := MaxUint64\<rparr> else s3)"
  have nxt: "Next e s w = (Some b, s', w2)"
    using x xb by (simp add: Next_def run r Let_def s'_def s3_def rf)
  have sub: "held s' \<subseteq> held s2" by (auto simp: s'_def s3_def held_def)
  have frame: "FinalizedL1 s' = FinalizedL1 s" "espressoBatcher s' = espressoBatcher s" "Namespace s' = Namespace s"
    "nextBatchPos s' = nextBatchPos s + 1"
    using h(2) by (simp_all add: s'_def s3_def refill_def)
  have pos: "hotShotPos s' \<noteq> MaxUint64" "skipPos s' = MaxUint64" "hotShotPos s' \<le> hotShotPos s"
    using o rf by (auto simp: s'_def s3_def orderly_def)
  have "streamer_ok s'" using Next_cases [OF nxt] o by (metis (no_types, lifting) orderly_def)
  moreover have "cache_sound e H B s'"
    using h(1) by (simp add: s'_def s3_def orderly_def cache_sound_def)
  ultimately have ord: "orderly e H B A s'"
    using o h(1) sub frame pos by (auto simp: orderly_def)
  have keep: "due e chain lim c s'" if c: "nextBatchPos s < Number c" "due e chain lim c s" for c
  proof (cases "c \<in> held s")
    case True
    then have "c \<in> held s2" using h(3) c(1) by simp
    moreover have "c \<noteq> b" using c(1) b(2) by auto
    ultimately have "c \<in> held s'" using x xb by (auto simp: s'_def s3_def held_def)
    then show ?thesis by (simp add: due_def)
  next
    case False
    then obtain p where p: "p < lim" "carries e chain p c"
      "unat (read_pos (hotShotPos s)) \<le> p \<or> skipPos s \<le> before (of_nat p)"
      using c(2) by (auto simp: due_def)
    have "unat (read_pos (hotShotPos s')) \<le> p"
      using p(3)
    proof
      assume "unat (read_pos (hotShotPos s)) \<le> p"
      moreover have "read_pos (hotShotPos s') \<le> read_pos (hotShotPos s)"
        using pos(3) o by (intro read_pos_mono) (simp_all add: orderly_def)
      ultimately show ?thesis by (simp add: word_le_nat_alt)
    next
      assume m: "skipPos s \<le> before (of_nat p)"
      then have "hotShotPos s' = skipPos s" using before_le [OF m] by (simp add: s'_def)
      moreover have "read_pos (skipPos s) \<le> of_nat p" using before_range [OF m] by (simp add: read_pos_def)
      ultimately show ?thesis using p(1) lim by (simp add: word_le_nat_alt)
    qed
    with p show ?thesis by (auto simp: due_def)
  qed
  show ?thesis by (rule that [OF nxt ord frame(4,1,2,3) keep])
qed

section \<open>Update\<close>

lemma read_pos_le: "p \<noteq> MaxUint64 \<Longrightarrow> p \<le> read_pos p"
  using u64_less_succ [of p] by (auto simp: read_pos_def)

lemma read_pos_pred: "finish \<noteq> 0 \<Longrightarrow> read_pos (finish - 1) \<le> finish"
  using word_neq_0_conv [of "finish - 1"] by (cases "finish = 1") (auto simp: read_pos_def)

lemma only_noise_intake:
  "only_noise_beside e H B A chain s \<Longrightarrow> intake s s' \<Longrightarrow> only_noise_beside e H B A chain s'"
  by (simp add: only_noise_beside_def intake_noise)

text \<open>What one range does, before its effect on the batches to come.\<close>

lemma fetch_settles:
  assumes run: "fetchHotShotRange e start finish s w = (err, s', w')"
    and rng: "computeEspressoBlockHeightsRange fin limit s = (start, finish)" "start < finish" "unat finish < hi"
    and o: "orderly e H B A s" and env: "l1_served e H B" and srv: "serves e (Namespace s) chain lo hi"
    and fit: "only_noise_beside e H B A chain s"
  shows "err = None" and "orderly e H B A s'" and "grows (s\<lparr>hotShotPos := finish - 1\<rparr>) s'"
    and "\<And>p b. unat start \<le> p \<Longrightarrow> p < unat finish \<Longrightarrow> carries e chain p b \<Longrightarrow> b \<in> A \<Longrightarrow> settled (of_nat p) b s'"
proof -
  note f = range_facts [OF rng(1,2)]
  let ?blks = "map chain [unat start..<unat finish]" and ?s0 = "s\<lparr>hotShotPos := finish - 1\<rparr>"
  obtain v where call: "FetchNamespaceTransactionsInRange e start finish (Namespace s) w = (Inr ?blks, v)"
    using srv rng(2,3) unfolding serves_def by blast
  have len: "length ?blks = unat finish - unat start" by simp
  have ne: "?blks \<noteq> []" using rng(2) by (simp add: word_less_nat_alt)
  obtain u stamps where e0: "err = None" and pb: "process_blocks e start stamps 0 ?blks ?s0 u = (s', w')"
    using run by (cases rule: fetch_cases) (use call f(1) ne in auto)
  show "err = None" by (rule e0)
  have "hotShotPos s \<le> start"
    using rng(1) o by (auto simp: computeEspressoBlockHeightsRange_read_pos orderly_def intro: read_pos_le)
  then have fwd: "hotShotPos s \<le> finish - 1" using f(5) by (simp add: word_le_nat_alt)
  have o0: "orderly e H B A ?s0"
    using o f(3) order_trans [OF _ fwd] by (auto simp: orderly_def streamer_ok_def)
  have res: "orderly e H B A s' \<and> grows ?s0 s'
    \<and> (\<forall>k < length ?blks. \<forall>t \<in> set (Transactions (?blks ! k)). \<forall>b \<in> A.
         UnmarshalBatch e t = Inr b \<longrightarrow> settled (start + of_nat (0 + k)) b s')"
  proof (rule process_blocks_orderly [OF pb o0 _ _ env])
    show "start + of_nat (0 + k) \<le> hotShotPos ?s0" if "k < length ?blks" for k
      using unat_add_below [of k finish start] that f(2) by (simp add: word_le_nat_alt)
    show "b \<in> A \<or> noise H B ?s0 b"
      if "blk \<in> set ?blks" "t \<in> set (Transactions blk)" "UnmarshalBatch e t = Inr b" for blk t b
    proof -
      from that(1) obtain p where "blk = chain p" by auto
      then have "b \<in> A \<or> noise H B s b"
        using fit that(2,3) by (auto simp: only_noise_beside_def carries_def)
      then show ?thesis by (auto intro: noise_mono)
    qed
  qed
  then show "orderly e H B A s'" "grows ?s0 s'" by blast+
  fix p b
  assume p: "unat start \<le> p" "p < unat finish" "carries e chain p b" and b: "b \<in> A"
  then obtain t where t: "t \<in> set (Transactions (chain p))" "UnmarshalBatch e t = Inr b"
    by (auto simp: carries_def)
  define k where "k = p - unat start"
  have k: "p = unat start + k" "k < unat finish - unat start" using p(1,2) by (simp_all add: k_def)
  have "?blks ! k = chain p" using k by simp
  then have "settled (start + of_nat (0 + k)) b s'" using res k(2) t b by (simp only: len)
  moreover have "start + of_nat (0 + k) = of_nat p" using k(1) by simp
  ultimately show "settled (of_nat p) b s'" by simp
qed

lemma fetch_orderly:
  assumes run: "fetchHotShotRange e start finish s w = (err, s', w')"
    and rng: "computeEspressoBlockHeightsRange fin limit s = (start, finish)" "start < finish" "unat finish < hi"
    and o: "orderly e H B A s" and env: "l1_served e H B" and srv: "serves e (Namespace s) chain lo hi"
    and fit: "only_noise_beside e H B A chain s" and lim: "lim < 2 ^ 64"
  shows "err = None" and "orderly e H B A s'" and "intake s s'" and "hotShotPos s' = finish - 1"
    and "\<And>b. b \<in> A \<Longrightarrow> nextBatchPos s \<le> Number b \<Longrightarrow> due e chain lim b s \<Longrightarrow> due e chain lim b s'"
proof -
  note fs = fetch_settles [OF run rng o env srv fit]
  have nz: "finish \<noteq> 0" by (rule range_facts(1) [OF rng(1,2)])
  show "err = None" "orderly e H B A s'" by (rule fs)+
  show "intake s s'" and pos: "hotShotPos s' = finish - 1"
    using fs(3) by (simp_all add: grows_def intake_def)
  have same: "nextBatchPos s' = nextBatchPos s" "skipPos s' \<le> skipPos s" "held s \<subseteq> held s'"
    using fs(3) by (simp_all add: grows_def intake_def)
  fix b
  assume b: "b \<in> A" "nextBatchPos s \<le> Number b" "due e chain lim b s"
  consider (held) "b \<in> held s" | (read) p where "p < lim" "carries e chain p b" "unat start \<le> p" "p < unat finish"
    | (later) p where "p < lim" "carries e chain p b" "unat finish \<le> p"
    | (mark) p where "p < lim" "carries e chain p b" "Number b \<noteq> nextBatchPos s" "skipPos s \<le> before (of_nat p)"
    using b(3) rng(1) unfolding due_def computeEspressoBlockHeightsRange_read_pos by (metis not_le prod.inject)
  then show "due e chain lim b s'"
  proof cases
    case held
    then show ?thesis using same(3) by (auto simp: due_def)
  next
    case (read p)
    then show ?thesis using fs(4) [of p b] b(1,2) same(1) by (auto simp: settled_def due_def)
  next
    case (later p)
    have "unat (read_pos (finish - 1)) \<le> p"
      using later(3) read_pos_pred [OF nz] by (simp add: word_le_nat_alt)
    then show ?thesis using later(1,2) pos by (auto simp: due_def)
  next
    case (mark p)
    then have "skipPos s' \<le> before (of_nat p)" using same(2) by simp
    with mark same(1) show ?thesis by (auto simp: due_def)
  qed
qed

lemma exhausted_read:
  assumes ex: "exhausted fin s" and bound: "unat fin + 200 < 2 ^ 64"
  shows "unat fin \<le> unat (read_pos (hotShotPos s))"
proof (rule ccontr)
  let ?p = "read_pos (hotShotPos s)"
  assume "\<not> unat fin \<le> unat ?p"
  then have p: "unat ?p < unat fin" by simp
  have "unat ?p + 100 < 2 ^ 64" using p bound by simp
  then have p100: "unat (?p + 100) = unat ?p + 100" by (simp add: unat_add_lem [THEN iffD1])
  have p1: "unat (?p + 1) = unat ?p + 1"
    using p bound by (intro u_plus_one) (auto simp: unsigned_minus_1_eq_mask mask_eq_exp_minus_1)
  have f1: "unat (fin + 1) = unat fin + 1"
    using bound by (intro u_plus_one) (auto simp: unsigned_minus_1_eq_mask mask_eq_exp_minus_1)
  define finish where "finish = min (?p + 100) (fin + 1)"
  have "unat ?p + 1 < unat finish"
    using p p100 f1 by (simp add: finish_def min_def word_le_nat_alt)
  then have "?p + 1 < finish" "?p < finish"
    using p1 by (simp_all add: word_less_nat_alt)
  moreover have "finish \<le> ?p \<or> ?p + 1 = finish"
    using ex by (simp only: exhausted_def computeEspressoBlockHeightsRange_read_pos HOTSHOT_BLOCK_FETCH_LIMIT_def
        prod.case finish_def)
  ultimately show False by auto
qed

lemma update_loop_orderly:
  assumes env: "l1_served e H B" and lim: "lim < 2 ^ 64" and fin: "unat fin + 1 < hi" "hi < 2 ^ 64"
    and "orderly e H B A s" and "serves e (Namespace s) chain lo hi" and "only_noise_beside e H B A chain s"
  shows "\<exists>s' w'. update_loop e fin i s w = Some (None, s', w') \<and> orderly e H B A s' \<and> intake s s'
    \<and> (\<forall>b \<in> A. nextBatchPos s \<le> Number b \<longrightarrow> due e chain lim b s \<longrightarrow> due e chain lim b s')
    \<and> (exhausted fin s' \<or> (\<exists>b \<in> held s'. Number b = nextBatchPos s))"
  using assms(5-7)
proof (induction "rounds_left fin i s" arbitrary: i s w rule: less_induct)
  case less
  note o = less.prems(1) and srv = less.prems(2) and fit = less.prems(3)
  obtain start finish where rng: "computeEspressoBlockHeightsRange fin HOTSHOT_BLOCK_FETCH_LIMIT s = (start, finish)"
    by fastforce
  have fin_max: "fin \<noteq> MaxUint64"
    using fin by (auto simp: unsigned_minus_1_eq_mask mask_eq_exp_minus_1)
  show ?case
  proof (cases "start \<ge> finish \<or> (start + 1 = finish \<and> i > 0)")
    case True
    then have "exhausted fin s" by (auto simp: exhausted_def rng)
    moreover have "update_loop e fin i s w = Some (None, s, w)"
      using True by (subst update_loop.simps) (auto simp: rng)
    ultimately show ?thesis using o by (intro exI [of _ s] exI [of _ w]) simp
  next
    case False
    then have lt: "start < finish" by auto
    obtain err s1 w1 where f: "fetchHotShotRange e start finish s w = (err, s1, w1)"
      by (cases "fetchHotShotRange e start finish s w")
    have "finish \<le> fin + 1" using rng by (auto simp: computeEspressoBlockHeightsRange_read_pos)
    then have "unat finish < hi" using fin(1) u_plus_one [OF fin_max] by (simp add: word_le_nat_alt)
    note fo = fetch_orderly [OF f rng lt this o env srv fit lim]
    obtain av s2 w2 where h: "HasNext e s1 w1 = (av, s2, w2)" by (cases "HasNext e s1 w1")
    note ho = HasNext_orderly [OF h fo(2) env]
    have step: "update_loop e fin i s w = (if av then Some (None, s2, w2) else update_loop e fin (Suc i) s2 w2)"
      using False by (subst update_loop.simps) (auto simp: rng f fo(1) h)
    have i2: "intake s s2" by (rule intake_trans [OF fo(3) refill_intake [OF ho(2)]])
    have n: "nextBatchPos s1 = nextBatchPos s" "nextBatchPos s2 = nextBatchPos s" "Namespace s2 = Namespace s"
      using fo(3) i2 by (simp_all add: intake_def)
    have keep: "due e chain lim b s2" if "b \<in> A" "nextBatchPos s \<le> Number b" "due e chain lim b s" for b
      by (rule due_refill [OF ho(2) ho(3) fo(5) [OF that]]) (use that(2) n in simp_all)
    show ?thesis
    proof (cases av)
      case True
      then obtain b where "b \<in> held s2" "Number b = nextBatchPos s"
        using ho(5) n by (auto simp: held_def)
      then show ?thesis using True step ho(1) i2 keep by (intro exI [of _ s2] exI [of _ w2]) auto
    next
      case more: False
      have "hotShotPos s2 = finish - 1" using fo(4) ho(2) by (simp add: refill_def)
      then have "rounds_left fin (Suc i) s2 < rounds_left fin i s"
        using False by (intro round_decreases [OF rng lt _ fin_max]) auto
      from less.hyps [OF this ho(1) _ only_noise_intake [OF fit i2], of w2] srv n
      obtain s' w' where IH: "update_loop e fin (Suc i) s2 w2 = Some (None, s', w')" "orderly e H B A s'" "intake s2 s'"
        "\<forall>b \<in> A. nextBatchPos s2 \<le> Number b \<longrightarrow> due e chain lim b s2 \<longrightarrow> due e chain lim b s'"
        "exhausted fin s' \<or> (\<exists>b \<in> held s'. Number b = nextBatchPos s2)"
        by auto
      show ?thesis
      proof (intro exI conjI)
        show "update_loop e fin i s w = Some (None, s', w')" using step IH(1) more by simp
        show "orderly e H B A s'" by (rule IH(2))
        show "intake s s'" by (rule intake_trans [OF i2 IH(3)])
        show "\<forall>b \<in> A. nextBatchPos s \<le> Number b \<longrightarrow> due e chain lim b s \<longrightarrow> due e chain lim b s'"
          using IH(4) keep n(2) by simp
        show "exhausted fin s' \<or> (\<exists>b \<in> held s'. Number b = nextBatchPos s)" using IH(5) n(2) by simp
      qed
    qed
  qed
qed

lemma Update_orderly:
  assumes env: "l1_served e H B" and hi: "hi + 200 < 2 ^ 64" and o: "orderly e H B A s"
    and srv: "serves e (Namespace s) chain lo hi" and fit: "only_noise_beside e H B A chain s"
  obtains s' w' where "Update e s w = Some (None, s', w')" "orderly e H B A s'" "intake s s'"
    "\<And>b. b \<in> A \<Longrightarrow> nextBatchPos s \<le> Number b \<Longrightarrow> due e chain (lo - 2) b s \<Longrightarrow> due e chain (lo - 2) b s'"
    "\<And>b. b \<in> A \<Longrightarrow> Number b = nextBatchPos s \<Longrightarrow> due e chain (lo - 2) b s \<Longrightarrow> b \<in> held s'"
proof -
  obtain l w1 where l: "FetchLatestBlockHeight e w = (Inr l, w1)" "lo \<le> unat l" "unat l \<le> hi"
    using srv unfolding serves_def by blast
  have lmax: "l \<noteq> MaxUint64"
    using l(3) hi by (auto simp: unsigned_minus_1_eq_mask mask_eq_exp_minus_1)
  show ?thesis
  proof (cases "l < 2")
    case True
    then have "lo - 2 = 0" using l(2) by (simp add: word_less_nat_alt)
    then have "b \<in> held s" if "due e chain (lo - 2) b s" for b using that by (auto simp: due_def)
    then show ?thesis
      using True l(1) lmax o by (intro that [of s w1]) (auto simp: Update_def)
  next
    case False
    let ?fin = "l - 2"
    have ufin: "unat ?fin = unat l - 2" "2 \<le> unat l"
      using False by (simp_all add: unat_sub not_less word_le_nat_alt)
    have "lo - 2 < 2 ^ 64" using l(2,3) hi by simp
    moreover have "unat ?fin + 1 < hi" "hi < 2 ^ 64" using ufin l(3) hi by simp_all
    ultimately obtain s' w' where u: "update_loop e ?fin 0 s w1 = Some (None, s', w')" "orderly e H B A s'" "intake s s'"
      "\<forall>b \<in> A. nextBatchPos s \<le> Number b \<longrightarrow> due e chain (lo - 2) b s \<longrightarrow> due e chain (lo - 2) b s'"
      "exhausted ?fin s' \<or> (\<exists>b \<in> held s'. Number b = nextBatchPos s)"
      using update_loop_orderly [OF env _ _ _ o srv fit, of "lo - 2" ?fin 0 w1] by blast
    have "b \<in> held s'" if b: "b \<in> A" "Number b = nextBatchPos s" "due e chain (lo - 2) b s" for b
      using u(5)
    proof
      assume "exhausted ?fin s'"
      then have read: "unat ?fin \<le> unat (read_pos (hotShotPos s'))"
        by (rule exhausted_read) (use ufin l(3) hi in simp)
      have "due e chain (lo - 2) b s'" using u(4) b by simp
      moreover have "nextBatchPos s' = nextBatchPos s" using u(3) by (simp add: intake_def)
      ultimately show ?thesis using read b(2) l(2) ufin by (auto simp: due_def)
    next
      assume "\<exists>b \<in> held s'. Number b = nextBatchPos s"
      then obtain x where x: "x \<in> held s'" "Number x = nextBatchPos s" by blast
      moreover have "inj_on Number A" "x \<in> A" using u(2) x(1) by (auto simp: orderly_def honest_def)
      ultimately have "x = b" using b(1,2) by (intro inj_onD [of Number A]) simp_all
      with x show ?thesis by simp
    qed
    moreover have "Update e s w = Some (None, s', w')" using False l(1) lmax u(1) by (simp add: Update_def)
    ultimately show ?thesis using u by (intro that [of s' w']) auto
  qed
qed

section \<open>Rounds\<close>

text \<open>The caller's loop: \<open>k\<close> times \<open>Update\<close> and then \<open>Next\<close>. \<open>None\<close>: some \<open>Update\<close> does not return.\<close>

fun update_next ::
  "('w, 'c, 't) env \<Rightarrow> nat \<Rightarrow> ('c, 't) streamer \<Rightarrow> 'w \<Rightarrow> (batch option list \<times> ('c, 't) streamer \<times> 'w) option" where
  "update_next e 0 s w = Some ([], s, w)"
| "update_next e (Suc k) s w =
    (case Update e s w of
       None \<Rightarrow> None
     | Some (err, s, w) \<Rightarrow>
         (case Next e s w of (r, s, w) \<Rightarrow>
            map_option (\<lambda>(rs, c). (r # rs, c)) (update_next e k s w)))"

lemma update_next_delivers:
  assumes env: "l1_served e H B" and hi: "hi + 200 < 2 ^ 64" and srv: "serves e (Namespace s) chain lo hi"
    and "orderly e H B A s" and "only_noise_beside e H B A chain s"
    and "\<forall>i < length bs. bs ! i \<in> A \<and> Number (bs ! i) = nextBatchPos s + of_nat i \<and> due e chain (lo - 2) (bs ! i) s"
    and "unat (nextBatchPos s) + length bs < 2 ^ 64"
  shows "\<exists>s' w'. update_next e (length bs) s w = Some (map Some bs, s', w')"
  using assms(3-7)
proof (induction bs arbitrary: s w)
  case (Cons b bs)
  note srv = Cons.prems(1) and o = Cons.prems(2) and fit = Cons.prems(3)
  have b: "b \<in> A" "Number b = nextBatchPos s" "due e chain (lo - 2) b s" using Cons.prems(4) by force+
  obtain s1 w1 where u: "Update e s w = Some (None, s1, w1)" "orderly e H B A s1" "intake s s1"
    "\<And>b. b \<in> A \<Longrightarrow> nextBatchPos s \<le> Number b \<Longrightarrow> due e chain (lo - 2) b s \<Longrightarrow> due e chain (lo - 2) b s1"
    "\<And>b. b \<in> A \<Longrightarrow> Number b = nextBatchPos s \<Longrightarrow> due e chain (lo - 2) b s \<Longrightarrow> b \<in> held s1"
    by (rule Update_orderly [OF env hi o srv fit, where w = w]) (rule that; assumption)
  have n1: "nextBatchPos s1 = nextBatchPos s" "Namespace s1 = Namespace s"
    using u(3) by (simp_all add: intake_def)
  have lim: "lo - 2 < 2 ^ 64" using srv hi unfolding serves_def by fastforce
  obtain s2 w2 where n: "Next e s1 w1 = (Some b, s2, w2)" "orderly e H B A s2" "nextBatchPos s2 = nextBatchPos s1 + 1"
    "FinalizedL1 s2 = FinalizedL1 s1" "espressoBatcher s2 = espressoBatcher s1" "Namespace s2 = Namespace s1"
    "\<And>c. nextBatchPos s1 < Number c \<Longrightarrow> due e chain (lo - 2) c s1 \<Longrightarrow> due e chain (lo - 2) c s2"
    by (rule Next_orderly [OF u(2) env u(5) [OF b] _ lim, where w = w1 and chain = chain]) (use b(2) n1 in simp_all)
  have add: "unat (nextBatchPos s + of_nat j) = unat (nextBatchPos s) + j" if "j \<le> length bs" for j
  proof -
    have "unat (nextBatchPos s) + j < 2 ^ 64" "unat (of_nat j :: u64) = j" using that Cons.prems(5) by simp_all
    then show ?thesis by (simp add: unat_add_lem [THEN iffD1])
  qed
  have later: "bs ! i \<in> A \<and> Number (bs ! i) = nextBatchPos s2 + of_nat i \<and> due e chain (lo - 2) (bs ! i) s2"
    if i: "i < length bs" for i
  proof -
    have c: "bs ! i \<in> A" "Number (bs ! i) = nextBatchPos s + of_nat (Suc i)" "due e chain (lo - 2) (bs ! i) s"
      using Cons.prems(4) i by (auto dest: spec [of _ "Suc i"])
    have "nextBatchPos s < Number (bs ! i)" using add [of "Suc i"] i c(2) by (simp add: word_less_nat_alt)
    then have "due e chain (lo - 2) (bs ! i) s2" using n(7) u(4) c n1 by simp
    with c n(3) n1 show ?thesis by (simp add: add_ac)
  qed
  have mono: "nextBatchPos s1 \<le> nextBatchPos s2"
  proof (cases bs)
    case Nil
    then have "nextBatchPos s \<noteq> MaxUint64"
      using Cons.prems(5) by (auto simp: unsigned_minus_1_eq_mask mask_eq_exp_minus_1)
    then show ?thesis using n(3) n1 u64_less_succ [of "nextBatchPos s"] by (simp add: less_imp_le)
  next
    case (Cons c cs)
    then show ?thesis using add [of 1] n(3) n1 by (simp add: word_le_nat_alt)
  qed
  have fit2: "only_noise_beside e H B A chain s2"
    using only_noise_intake [OF fit u(3)] noise_mono [OF _ mono n(4,5), of H B]
    unfolding only_noise_beside_def by blast
  have "unat (nextBatchPos s2) + length bs < 2 ^ 64"
  proof (cases bs)
    case Nil
    then show ?thesis using unat_u64_bound by simp
  next
    case (Cons c cs)
    then show ?thesis using add [of 1] n(3) n1 Cons.prems(5) by simp
  qed
  from Cons.IH [OF _ n(2) fit2 _ this, of w2] srv n(6) n1 later
  obtain s' w' where "update_next e (length bs) s2 w2 = Some (map Some bs, s', w')" by auto
  then show ?case by (simp add: u(1) n(1))
qed simp

text \<open>The streamer as \<open>NewEspressoStreamer\<close> and \<open>Reset\<close> leave it: nothing held, nothing marked.\<close>

definition at_rest :: "('c, 't) streamer \<Rightarrow> bool" where
  "at_rest s =
    (headBatch s = None \<and> batches (BatchBuffer s) = [] \<and> buf_capacity (BatchBuffer s) = BatchBufferCapacity
     \<and> skipPos s = MaxUint64)"

lemma NewEspressoStreamer_at_rest:
  "NewEspressoStreamer e ns originHotShot originBatch auth track = Inr s \<Longrightarrow> at_rest s"
  by (auto simp: NewEspressoStreamer_def at_rest_def NewBatchBuffer_def split: if_splits option.splits)

lemma Reset_at_rest: "streamer_ok s \<Longrightarrow> at_rest (Reset s)"
  by (simp add: Reset_def at_rest_def streamer_ok_def Clear_def)

lemma at_rest_orderly:
  assumes "at_rest s" and "hotShotPos s \<noteq> MaxUint64" and "FinalizedL1 s \<noteq> zero_ref" and "cache_sound e H B s"
    and "honest H B (ref_number (FinalizedL1 s)) A"
  shows "orderly e H B A s"
  using assms by (simp add: orderly_def at_rest_def streamer_ok_def held_def buffer_ok_def Len_def)

lemma at_rest_delivers:
  assumes "at_rest s" and "hotShotPos s \<noteq> MaxUint64" and "FinalizedL1 s \<noteq> zero_ref" and "cache_sound e H B s"
    and "l1_served e H B" and "serves e (Namespace s) chain lo hi" and "hi + 200 < 2 ^ 64"
    and "honest H B (ref_number (FinalizedL1 s)) A" and "only_noise_beside e H B A chain s"
    and posted: "\<forall>i < length bs. bs ! i \<in> A \<and> Number (bs ! i) = nextBatchPos s + of_nat i
      \<and> (\<exists>p. unat (read_pos (hotShotPos s)) \<le> p \<and> p + 2 < lo \<and> carries e chain p (bs ! i))"
    and "unat (nextBatchPos s) + length bs < 2 ^ 64"
  shows "\<exists>s' w'. update_next e (length bs) s w = Some (map Some bs, s', w')"
proof (rule update_next_delivers [OF assms(5,7,6) at_rest_orderly [OF assms(1-4,8)] assms(9) _ assms(11)])
  have "due e chain (lo - 2) (bs ! i) s" if "i < length bs" for i
    using posted that by (auto simp: due_def dest!: spec [of _ i])
  then show "\<forall>i < length bs. bs ! i \<in> A \<and> Number (bs ! i) = nextBatchPos s + of_nat i
      \<and> due e chain (lo - 2) (bs ! i) s"
    using posted by blast
qed

text \<open>
  C3. The batcher's chain comes out complete and in order, whatever order HotShot has it in.
  Let a streamer without buffered batches know a final L1 block, let the clients answer, with
  HotShot's latest height between \<open>lo\<close> and \<open>hi\<close>, and let every payload of the namespace be a
  batch of the honest batcher with a final origin, or noise (undecodable, outdated, forged,
  or with a wrong origin hash). If the next \<open>k\<close> batches by number are posted anywhere in the
  blocks from the read position up to three below \<open>lo\<close>, in any order and any number of times, then
  \<open>k\<close> rounds of \<open>Update\<close> and \<open>Next\<close> return exactly these batches in the order of their numbers. No bound is put on
  how many batches lie in between: a full buffer is made good by rewinding.
\<close>

theorem chain_delivered:
  assumes "at_rest s" and "hotShotPos s \<noteq> MaxUint64" and "FinalizedL1 s \<noteq> zero_ref" and "cache_sound e H B s"
    and "l1_served e H B" and "serves e (Namespace s) chain lo hi" and "hi + 200 < 2 ^ 64"
    and "honest H B (ref_number (FinalizedL1 s)) A" and "only_noise_beside e H B A chain s"
    and posted: "\<forall>i < length bs. bs ! i \<in> A \<and> Number (bs ! i) = nextBatchPos s + of_nat i
      \<and> (\<exists>p. unat (read_pos (hotShotPos s)) \<le> p \<and> p + 2 < lo \<and> carries e chain p (bs ! i))"
    and "unat (nextBatchPos s) + length bs < 2 ^ 64"
  shows "\<exists>s' w'. update_next e (length bs) s w = Some (map Some bs, s', w')"
  by (rule at_rest_delivers [OF assms])

text \<open>Batch 2 is posted twice, first before batch 1 and next to a payload that does not decode.\<close>

definition sample_chain :: "nat \<Rightarrow> ns_block" where
  "sample_chain p = \<lparr>Transactions = (if p = 1 then [[2, 12], [0]] else if p = 2 then [[1, 11], [2, 12]] else [])\<rparr>"

definition chain_env :: "(sample_world, (u64 \<times> l1_state) list, (hash \<times> u64) list) env" where
  "chain_env = sample_env
    \<lparr>FetchLatestBlockHeight := (\<lambda>w. (Inr 6, w)),
     FetchNamespaceTransactionsInRange := (\<lambda>from until ns w. (Inr (map sample_chain [unat from..<unat until]), w))\<rparr>"

lemma chain_env_carries:
  "carries chain_env sample_chain p b \<longleftrightarrow>
    p = 1 \<and> b = sample_batch 2 12 0 \<or> p = 2 \<and> (b = sample_batch 1 11 0 \<or> b = sample_batch 2 12 0)"
  by (auto simp: carries_def sample_chain_def chain_env_def UnmarshalBatch_def sample_env_def)

definition sample_posts :: "batch list" where
  "sample_posts = [sample_batch 1 11 0, sample_batch 2 12 0]"

text \<open>The hypotheses on the state, the environment and the chain hold of the sample.\<close>

lemma sample_chain_facts:
  "at_rest sample_streamer" "hotShotPos sample_streamer \<noteq> MaxUint64" "FinalizedL1 sample_streamer \<noteq> zero_ref"
  "cache_sound chain_env (\<lambda>_. 7) (\<lambda>_. 5) sample_streamer" "l1_served chain_env (\<lambda>_. 7) (\<lambda>_. 5)"
  "serves chain_env (Namespace sample_streamer) sample_chain 6 6"
  "honest (\<lambda>_. 7) (\<lambda>_. 5) (ref_number (FinalizedL1 sample_streamer)) (set sample_posts)"
  "only_noise_beside chain_env (\<lambda>_. 7) (\<lambda>_. 5) (set sample_posts) sample_chain sample_streamer"
  "\<forall>i < length sample_posts. sample_posts ! i \<in> set sample_posts
    \<and> Number (sample_posts ! i) = nextBatchPos sample_streamer + of_nat i
    \<and> (\<exists>p. unat (read_pos (hotShotPos sample_streamer)) \<le> p \<and> p + 2 < 6 \<and> carries chain_env sample_chain p (sample_posts ! i))"
  "unat (nextBatchPos sample_streamer) + length sample_posts < 2 ^ 64"
proof -
  show "at_rest sample_streamer" "hotShotPos sample_streamer \<noteq> MaxUint64" "FinalizedL1 sample_streamer \<noteq> zero_ref"
    by (simp_all add: at_rest_def sample_defs NewBatchBuffer_def zero_ref_def)
  show "cache_sound chain_env (\<lambda>_. 7) (\<lambda>_. 5) sample_streamer"
    by (simp add: cache_sound_def chain_env_def sample_defs)
  show "l1_served chain_env (\<lambda>_. 7) (\<lambda>_. 5)"
    using alist_lru_lawful by (simp add: l1_served_def finalized_view_def calls_answer_def chain_env_def sample_env_def)
  show "serves chain_env (Namespace sample_streamer) sample_chain 6 6"
    by (simp add: serves_def chain_env_def)
  show "honest (\<lambda>_. 7) (\<lambda>_. 5) (ref_number (FinalizedL1 sample_streamer)) (set sample_posts)"
    by (auto simp: honest_def authentic_def sample_streamer_def sample_l1_def sample_posts_def)
  show "only_noise_beside chain_env (\<lambda>_. 7) (\<lambda>_. 5) (set sample_posts) sample_chain sample_streamer"
    by (auto simp: only_noise_beside_def chain_env_carries sample_posts_def)
  show "\<forall>i < length sample_posts. sample_posts ! i \<in> set sample_posts
    \<and> Number (sample_posts ! i) = nextBatchPos sample_streamer + of_nat i
    \<and> (\<exists>p. unat (read_pos (hotShotPos sample_streamer)) \<le> p \<and> p + 2 < 6 \<and> carries chain_env sample_chain p (sample_posts ! i))"
    by (auto simp: sample_posts_def chain_env_carries sample_streamer_def read_pos_def less_Suc_eq numeral_2_eq_2
        intro: exI [of _ 2])
  show "unat (nextBatchPos sample_streamer) + length sample_posts < 2 ^ 64"
    by (simp add: sample_streamer_def sample_posts_def)
qed

lemma chain_delivered_witness:
  "\<exists>s' w'. update_next chain_env 2 sample_streamer [] = Some ([Some (sample_batch 1 11 0), Some (sample_batch 2 12 0)], s', w')"
proof -
  have "(6 :: nat) + 200 < 2 ^ 64" by simp
  from chain_delivered [OF sample_chain_facts(1-6) this sample_chain_facts(7-10), of "[]"]
  have "\<exists>s' w'. update_next chain_env (length sample_posts) sample_streamer [] = Some (map Some sample_posts, s', w')" .
  moreover have "length sample_posts = 2" by (simp add: sample_posts_def)
  ultimately show ?thesis by (simp only:) (simp only: sample_posts_def list.map)
qed

end
