(* ===== verification/Buffered_End_To_End.thy ===== *)
theory Buffered_End_To_End
  imports Buffered_Replay Op_End_To_End
begin

text \<open>
  The buffered streamer lets nothing past the checks of the streamer below: what it gives out,
  at once or by replay, the inner streamer gave out at some time, so every guarantee about the batches of
  the inner streamer is one about the batches of the wrapper.
\<close>

section \<open>A guarantee on the batches given out\<close>

text \<open>\<open>P\<close> holds below and \<open>Q\<close> of every batch in the window.\<close>

definition gated :: "('s \<Rightarrow> bool) \<Rightarrow> (batch \<Rightarrow> bool) \<Rightarrow> 's buffered \<Rightarrow> bool" where
  "gated P Q b = (P (inner b) \<and> (\<forall>x \<in> set (window b). Q x))"

text \<open>
  The contract: an invariant \<open>P\<close> of the inner streamer, under which it only gives out or shows
  batches with \<open>Q\<close>.
\<close>

locale batch_gate =
  fixes ops :: "('s, 'w) streamer_ops" and P :: "'s \<Rightarrow> bool" and Q :: "batch \<Rightarrow> bool"
  assumes next_gives: "P s \<Longrightarrow> op_Next ops s w = (r, s', w') \<Longrightarrow> P s' \<and> (\<forall>x. r = Some x \<longrightarrow> Q x)"
    and peek_gives: "P s \<Longrightarrow> op_Peek ops s w = (r, s', w') \<Longrightarrow> P s' \<and> (\<forall>x. r = Some x \<longrightarrow> Q x)"
    and has_next_gate: "P s \<Longrightarrow> op_HasNext ops s w = (a, s', w') \<Longrightarrow> P s'"
    and update_gate: "P s \<Longrightarrow> op_Update ops s w = Some (err, s', w') \<Longrightarrow> P s'"
    and refresh_gate: "P s \<Longrightarrow> op_Refresh ops l1 safe o1 s w = (err, s', w') \<Longrightarrow> P s'"
    and refresh_origin_gate: "P s \<Longrightarrow> op_RefreshSafeL1Origin ops o1 s w = (s', w') \<Longrightarrow> P s'"
    and reset_gate: "P s \<Longrightarrow> P (op_Reset ops s)"
    and proper_head_gate: "P s \<Longrightarrow> P (op_SetProperHead ops h s)"
    and timestamp_gate: "P s \<Longrightarrow> op_GetBatchFinalizationTimestamp ops h s = (t, s') \<Longrightarrow> P s'"
begin

lemma next_loop_gated:
  assumes "next_loop ops b w = Some (r, b', w')" and "gated P Q b"
  shows "gated P Q b' \<and> (\<forall>x. r = Some x \<longrightarrow> Q x)"
proof -
  have "ops = ops \<longrightarrow> gated P Q b \<longrightarrow> gated P Q (fst (snd (r, b', w'))) \<and> (\<forall>x. fst (r, b', w') = Some x \<longrightarrow> Q x)"
  proof (rule next_loop.raw_induct [where P = "\<lambda>ops' b w res. ops' = ops \<longrightarrow> gated P Q b \<longrightarrow>
        gated P Q (fst (snd res)) \<and> (\<forall>x. fst res = Some x \<longrightarrow> Q x)", OF _ assms(1)], intro impI)
    fix loop ops' b w res
    assume IH: "\<And>ops' b w res. loop ops' b w = Some res \<Longrightarrow>
        ops' = ops \<longrightarrow> gated P Q b \<longrightarrow> gated P Q (fst (snd res)) \<and> (\<forall>x. fst res = Some x \<longrightarrow> Q x)"
      and step: "(case op_Next ops' (inner b) w of
       (res, s, w) \<Rightarrow>
         (case res of
            None \<Rightarrow> Some (None, b\<lparr>inner := s\<rparr>, w)
          | Some x \<Rightarrow>
              if Number x \<ge> startingBatchPos b
              then Some (Some x, b\<lparr>inner := s, window := window b @ [x], readPos := readPos b + 1\<rparr>, w)
              else loop ops' (b\<lparr>inner := s\<rparr>) w)) = Some res"
      and ops: "ops' = ops" and g: "gated P Q b"
    obtain n s w1 where n: "op_Next ops (inner b) w = (n, s, w1)" by (cases "op_Next ops (inner b) w")
    have s: "P s" "\<forall>x. n = Some x \<longrightarrow> Q x" using next_gives [OF _ n] g by (simp_all add: gated_def)
    then have g1: "gated P Q (b\<lparr>inner := s\<rparr>)" using g by (simp add: gated_def)
    show "gated P Q (fst (snd res)) \<and> (\<forall>x. fst res = Some x \<longrightarrow> Q x)"
    proof (cases n)
      case None
      then show ?thesis using step g1 by (auto simp: ops n)
    next
      case (Some x)
      then show ?thesis
        using step IH [of ops "b\<lparr>inner := s\<rparr>" w1 res] g1 s g by (auto simp: ops n gated_def split: if_splits)
    qed
  qed
  with assms(2) show ?thesis by simp
qed

lemma peek_loop_gated:
  assumes "peek_loop ops b w = Some (r, b', w')" and "gated P Q b"
  shows "gated P Q b' \<and> (\<forall>x. r = Some x \<longrightarrow> Q x)"
proof -
  have "ops = ops \<longrightarrow> gated P Q b \<longrightarrow> gated P Q (fst (snd (r, b', w'))) \<and> (\<forall>x. fst (r, b', w') = Some x \<longrightarrow> Q x)"
  proof (rule peek_loop.raw_induct [where P = "\<lambda>ops' b w res. ops' = ops \<longrightarrow> gated P Q b \<longrightarrow>
        gated P Q (fst (snd res)) \<and> (\<forall>x. fst res = Some x \<longrightarrow> Q x)", OF _ assms(1)], intro impI)
    fix loop ops' b w res
    assume IH: "\<And>ops' b w res. loop ops' b w = Some res \<Longrightarrow>
        ops' = ops \<longrightarrow> gated P Q b \<longrightarrow> gated P Q (fst (snd res)) \<and> (\<forall>x. fst res = Some x \<longrightarrow> Q x)"
      and step: "(case op_Peek ops' (inner b) w of
       (res, s, w) \<Rightarrow>
         (case res of
            None \<Rightarrow> Some (None, b\<lparr>inner := s\<rparr>, w)
          | Some x \<Rightarrow>
              if Number x \<ge> startingBatchPos b then Some (Some x, b\<lparr>inner := s\<rparr>, w)
              else
                (case op_Next ops' s w of
                   (_, s, w) \<Rightarrow> loop ops' (b\<lparr>inner := s\<rparr>) w))) = Some res"
      and ops: "ops' = ops" and g: "gated P Q b"
    obtain n s w1 where n: "op_Peek ops (inner b) w = (n, s, w1)" by (cases "op_Peek ops (inner b) w")
    have s: "P s" "\<forall>x. n = Some x \<longrightarrow> Q x" using peek_gives [OF _ n] g by (simp_all add: gated_def)
    obtain m s2 w2 where m: "op_Next ops s w1 = (m, s2, w2)" by (cases "op_Next ops s w1")
    have g1: "gated P Q (b\<lparr>inner := s\<rparr>)" "gated P Q (b\<lparr>inner := s2\<rparr>)"
      using g s next_gives [OF s(1) m] by (simp_all add: gated_def)
    show "gated P Q (fst (snd res)) \<and> (\<forall>x. fst res = Some x \<longrightarrow> Q x)"
    proof (cases n)
      case None
      then show ?thesis using step g1 by (auto simp: ops n)
    next
      case (Some x)
      then show ?thesis
        using step IH [of ops "b\<lparr>inner := s2\<rparr>" w2 res] g1 s by (auto simp: ops n m split: if_splits)
    qed
  qed
  with assms(2) show ?thesis by simp
qed

lemma window_read_gated:
  assumes "gated P Q b" and "readPos b < u64_len (window b)"
  shows "Q (window b ! unat (readPos b))"
proof -
  have "unat (readPos b) < length (window b)"
    using assms(2) u64_len_le [of "window b"] by (simp add: word_less_nat_alt)
  then show ?thesis using assms(1) by (simp add: gated_def)
qed

lemma Next_buffered_gated:
  "Next_buffered ops b w = Some (r, b', w') \<Longrightarrow> gated P Q b \<Longrightarrow> gated P Q b' \<and> (\<forall>x. r = Some x \<longrightarrow> Q x)"
  using next_loop_gated [of b w r b' w'] window_read_gated [of b]
  by (auto simp: Next_buffered_def gated_def split: if_splits)

lemma Peek_buffered_gated:
  "Peek_buffered ops b w = Some (r, b', w') \<Longrightarrow> gated P Q b \<Longrightarrow> gated P Q b' \<and> (\<forall>x. r = Some x \<longrightarrow> Q x)"
  using peek_loop_gated [of b w r b' w'] window_read_gated [of b]
  by (auto simp: Peek_buffered_def split: if_splits)

lemma handle_gated: "gated P Q b \<Longrightarrow> gated P Q (handleL2PositionUpdate ops n b)"
  by (auto simp: handleL2PositionUpdate_def Let_def gated_def reset_gate dest: in_set_dropD)

lemma RefreshSafeL1Origin_buffered_gated:
  "RefreshSafeL1Origin_buffered ops o1 b w = (b', w') \<Longrightarrow> gated P Q b \<Longrightarrow> gated P Q b'"
  by (auto simp: RefreshSafeL1Origin_buffered_def Let_def gated_def dest: refresh_origin_gate
      split: if_splits prod.splits)

lemma buffered_step_gated:
  assumes "buffered_step ops b b'" and g: "gated P Q b"
  shows "gated P Q b'"
  using assms(1)
proof cases
  case (1 w r w')
  then show ?thesis using Next_buffered_gated g by blast
next
  case (2 w r w')
  then show ?thesis using Peek_buffered_gated g by blast
next
  case (5 l1 safe o1 w err w')
  obtain b1 w1 where r: "RefreshSafeL1Origin_buffered ops o1 (handleL2PositionUpdate ops safe b) w = (b1, w1)"
    by fastforce
  have "gated P Q b1" by (rule RefreshSafeL1Origin_buffered_gated [OF r handle_gated [OF g]])
  then show ?thesis
    using 5 by (auto simp: Refresh_buffered_def Let_def r gated_def dest: refresh_gate split: prod.splits)
next
  case (6 o1 w w')
  then show ?thesis using RefreshSafeL1Origin_buffered_gated g by blast
next
  case (8 h)
  then have "b' = b\<lparr>window := take (unat (readPos b)) (window b), inner := op_SetProperHead ops h (inner b)\<rparr>"
    by (auto simp: SetProperHead_buffered_def go_slice_def split: if_splits)
  moreover have "set (take (unat (readPos b)) (window b)) \<subseteq> set (window b)" by (rule set_take_subset)
  ultimately show ?thesis using g proper_head_gate by (auto simp: gated_def)
qed (use g in \<open>auto simp: gated_def HasNext_buffered_def Update_buffered_def Let_def Reset_buffered_def
      GetBatchFinalizationTimestamp_buffered_def dest: has_next_gate update_gate timestamp_gate
      split: if_splits prod.splits option.splits\<close>)

lemma reachable_gated:
  assumes "(buffered_step ops)\<^sup>*\<^sup>* (NewBufferedEspressoStreamer s) b" and "P s"
  shows "gated P Q b"
  using assms
proof (induction rule: rtranclp_induct)
  case base
  then show ?case by (simp add: gated_def NewBufferedEspressoStreamer_def)
next
  case (step b c)
  then show ?case using buffered_step_gated by blast
qed

lemma reachable_gives:
  assumes "(buffered_step ops)\<^sup>*\<^sup>* (NewBufferedEspressoStreamer s) b" and "P s"
    and "Next_buffered ops b w = Some (Some x, b', w') \<or> Peek_buffered ops b w = Some (Some x, b', w')"
  shows "Q x"
  using assms(3) reachable_gated [OF assms(1,2)] Next_buffered_gated Peek_buffered_gated by blast

end

section \<open>The guarantee of BatchStreamer\<close>

definition gate_ok ::
  "('w, 'c, 't) env \<Rightarrow> u64 \<Rightarrow> (u64 \<Rightarrow> hash) \<Rightarrow> (u64 \<Rightarrow> address) \<Rightarrow> ('c, 't) streamer \<Rightarrow> bool" where
  "gate_ok e ns H B s = (streamer_ok s \<and> sound_under e H B s \<and> held_posted e ns s)"

definition genuine :: "('w, 'c, 't) env \<Rightarrow> u64 \<Rightarrow> (u64 \<Rightarrow> hash) \<Rightarrow> (u64 \<Rightarrow> address) \<Rightarrow> batch \<Rightarrow> bool" where
  "genuine e ns H B b = (authentic H B b \<and> (\<exists>data. posted e ns data \<and> UnmarshalBatch e data = Inr b))"

lemma streamer_step_gate:
  assumes "streamer_step e (s, w) ev (s', w')" and "gate_ok e ns H B s"
  shows "gate_ok e ns H B s'" and "ev = Deliver b \<Longrightarrow> genuine e ns H B b"
  using streamer_step_refines [OF assms(1)] streamer_step_sound [OF assms(1), of H B]
    streamer_step_held [OF assms(1), of ns] assms(2)
  by (simp_all add: gate_ok_def genuine_def)

lemma Peek_genuine:
  assumes run: "Peek e s w = (Some b, s', w')" and g: "gate_ok e ns H B s"
  shows "genuine e ns H B b"
proof -
  have ok: "streamer_ok s" using g by (simp add: gate_ok_def)
  have g': "gate_ok e ns H B s'" by (rule streamer_step_gate(1) [OF streamer_step.peek [OF run] g])
  from run ok show ?thesis
  proof (cases rule: Peek_cases)
    case (some x)
    obtain b1 s1 w1 where c: "headBatch s' = Some b1" "CheckBatch e b1 s1 w1 = (BatchAccept, s', w')"
      using HasNext_True [OF some(6) ok] by metis
    then have "vouched e b s'"
      using CheckBatch_accept_vouched [OF c(2)] g' some(1,3) by (simp add: gate_ok_def sound_under_def)
    then have "authentic H B b" using vouched_authentic g' by (auto simp: gate_ok_def sound_under_def)
    moreover have "b \<in> held s'" using some(1,3) by (simp add: held_def)
    ultimately show ?thesis using g' by (simp add: genuine_def gate_ok_def held_posted_def)
  qed simp
qed

interpretation gate: batch_gate "batch_streamer e" "gate_ok e ns H B" "genuine e ns H B"
  for e :: "('w, 'c, 't) env" and ns H B
proof unfold_locales
  fix s s' :: "('c, 't) streamer" and w w' :: 'w and r a err l1 safe o1 h t
  assume g: "gate_ok e ns H B s"
  note keep = streamer_step_gate [OF _ g]
  show "gate_ok e ns H B s' \<and> (\<forall>x. r = Some x \<longrightarrow> genuine e ns H B x)"
    if "op_Next (batch_streamer e) s w = (r, s', w')"
  proof (cases r)
    case None
    then show ?thesis using that keep(1) [OF streamer_step.next_none] by (simp add: batch_streamer_def)
  next
    case (Some x)
    then have "streamer_step e (s, w) (Deliver x) (s', w')"
      using that streamer_step.next_some by (simp add: batch_streamer_def)
    from keep [OF this] Some show ?thesis by simp
  qed
  show "op_Peek (batch_streamer e) s w = (r, s', w') \<Longrightarrow>
      gate_ok e ns H B s' \<and> (\<forall>x. r = Some x \<longrightarrow> genuine e ns H B x)"
    using keep(1) [OF streamer_step.peek] Peek_genuine [OF _ g] by (auto simp: batch_streamer_def)
  show "op_HasNext (batch_streamer e) s w = (a, s', w') \<Longrightarrow> gate_ok e ns H B s'"
    using keep(1) [OF streamer_step.has_next] by (simp add: batch_streamer_def)
  show "op_Update (batch_streamer e) s w = Some (err, s', w') \<Longrightarrow> gate_ok e ns H B s'"
    using keep(1) [OF streamer_step.update] by (simp add: batch_streamer_def)
  show "op_Refresh (batch_streamer e) l1 safe o1 s w = (err, s', w') \<Longrightarrow> gate_ok e ns H B s'"
    using keep(1) [OF streamer_step.refresh] by (auto simp: batch_streamer_def)
  show "op_RefreshSafeL1Origin (batch_streamer e) o1 s w = (s', w') \<Longrightarrow> gate_ok e ns H B s'"
    using keep(1) [OF streamer_step.refresh_origin] by (simp add: batch_streamer_def)
  show "gate_ok e ns H B (op_Reset (batch_streamer e) s)"
    using keep(1) [OF streamer_step.reset] by (simp add: batch_streamer_def)
  show "gate_ok e ns H B (op_SetProperHead (batch_streamer e) h s)"
    using keep(1) [OF streamer_step.set_proper_head] by (simp add: batch_streamer_def)
  show "op_GetBatchFinalizationTimestamp (batch_streamer e) h s = (t, s') \<Longrightarrow> gate_ok e ns H B s'"
    using keep(1) [OF streamer_step.timestamp] by (simp add: batch_streamer_def)
qed

section \<open>Authenticity through the buffer\<close>

text \<open>
  C4. Authenticity end to end through the buffered streamer. Over a \<open>BatchStreamer\<close> made for a
  namespace, with \<open>CreateEspressoBatchUnmarshaler\<close> as its decoder and the contract read through
  the binding, every batch that \<open>Next\<close> or \<open>Peek\<close> of the wrapper gives out, in any state reached by
  any calls in any worlds, fresh or replayed after resets and refreshes, comes from a payload
  posted to the namespace, is the RLP decoding of exactly its signed bytes, and the signature
  is that of the non-zero batcher registered for its L1 origin, whose true hash it names.
\<close>

theorem buffered_end_to_end_authentic:
  assumes "NewEspressoStreamer e ns originHotShot originBatch auth track = Inr s0"
    and "NewBatchAuthenticatorCaller_binding lib auth l1 = Inr c" and "wired D lib c e"
    and "abi_typed lib" and "l1_answers lib c e H B" and "lru_lawful (state_lru e)"
    and "(buffered_step (batch_streamer e))\<^sup>*\<^sup>* (NewBufferedEspressoStreamer s0) b"
    and "Next_buffered (batch_streamer e) b w = Some (Some x, b', w')
      \<or> Peek_buffered (batch_streamer e) b w = Some (Some x, b', w')"
  shows "\<exists>data eb k.
    posted e ns data \<and> SignatureLength D \<le> length data
    \<and> SigToPub D (Keccak256 D (drop (SignatureLength D) data)) (take (SignatureLength D) data) = Inr k
    \<and> rlp_decode D (drop (SignatureLength D) data) = Inr eb
    \<and> as_batch D (eb\<lparr>SignerAddress := PubkeyToAddress D k\<rparr>) = Some x
    \<and> PubkeyToAddress D k = B (sb_epoch_num (SingularBatch eb)) \<and> B (sb_epoch_num (SingularBatch eb)) \<noteq> 0
    \<and> sb_epoch_hash (SingularBatch eb) = H (sb_epoch_num (SingularBatch eb))"
proof -
  have "gate_ok e ns H B s0"
    using new_streamer_sound [OF assms(1-6)] NewEspressoStreamer_start(1) [OF assms(1)]
      NewEspressoStreamer_held [OF assms(1)] by (simp add: gate_ok_def)
  from gate.reachable_gives [OF assms(7) this assms(8)]
  obtain data where "authentic H B x" "posted e ns data" "UnmarshalBatch e data = Inr x"
    by (auto simp: genuine_def)
  then show ?thesis by (rule authentic_bytes [OF assms(3)])
qed

lemma buffered_end_to_end_authentic_witness:
  "\<exists>b data eb. Next_buffered (batch_streamer sample_net_env) b [] \<noteq> None
    \<and> posted sample_net_env 42 data \<and> rlp_decode sample_derivation (drop 65 data) = Inr eb
    \<and> as_batch sample_derivation (eb\<lparr>SignerAddress := 42\<rparr>) = Some sample_net_batch"
proof -
  let ?ops = "batch_streamer sample_net_env"
  let ?b = "\<lambda>s :: ((u64 \<times> l1_state) list, (hash \<times> u64) list) streamer.
    \<lparr>inner = s, window = [], readPos = 0, startingBatchPos = 4, currentSafeL1Origin = zero_block_id\<rparr>"
  have "Refresh_buffered ?ops sample_net_l1_block 4 zero_block_id (NewBufferedEspressoStreamer sample_net_start) []
      = (None, ?b sample_net_ready, [])"
    by (simp add: Refresh_buffered_def handleL2PositionUpdate_def RefreshSafeL1Origin_buffered_def Let_def
        NewBufferedEspressoStreamer_def batch_streamer_def sample_net_refresh zero_block_id_def)
  then have 1: "buffered_step ?ops (NewBufferedEspressoStreamer sample_net_start) (?b sample_net_ready)"
    by (rule buffered_step.intros(5))
  have "Update_buffered ?ops (?b sample_net_ready) sample_net_world = Some (None, ?b sample_net_updated, sample_net_world)"
    by (simp add: Update_buffered_def batch_streamer_def sample_net_update)
  then have 2: "buffered_step ?ops (?b sample_net_ready) (?b sample_net_updated)"
    by (rule buffered_step.intros(4))
  obtain s where n: "Next sample_net_env sample_net_updated [] = (Some sample_net_batch, s, [])"
    by (simp add: Next_def Let_def sample_net_has_next) (simp add: sample_net_updated_def)
  have reached: "(buffered_step ?ops)\<^sup>*\<^sup>* (NewBufferedEspressoStreamer sample_net_start) (?b sample_net_updated)"
    by (rule rtranclp.rtrancl_into_rtrancl [OF r_into_rtranclp, where b = "?b sample_net_ready"]) (rule 1, rule 2)
  have "Number sample_net_batch = 5" by (simp add: sample_net_batch_def)
  then have nxt: "Next_buffered ?ops (?b sample_net_updated) []
      = Some (Some sample_net_batch, (?b s)\<lparr>window := [sample_net_batch], readPos := 1\<rparr>, [])"
    by (simp add: Next_buffered_def) (subst next_loop.simps, simp add: batch_streamer_def n)
  obtain data eb k where "posted sample_net_env 42 data"
    "rlp_decode sample_derivation (drop (SignatureLength sample_derivation) data) = Inr eb"
    "as_batch sample_derivation (eb\<lparr>SignerAddress := PubkeyToAddress sample_derivation k\<rparr>) = Some sample_net_batch"
    "PubkeyToAddress sample_derivation k = 42"
    using buffered_end_to_end_authentic [OF sample_net_new sample_caller_new sample_net_wired sample_bind_lib_typed
        sample_net_l1 sample_net_lru reached disjI1 [OF nxt]]
    by auto
  moreover have "SignatureLength sample_derivation = 65" by (simp add: sample_derivation_def)
  ultimately show ?thesis using nxt by (intro exI [of _ "?b sample_net_updated"] exI [of _ data] exI [of _ eb]) auto
qed

end
