(* ===== verification/Buffered_Chain.thy ===== *)
theory Buffered_Chain
  imports Op_Chain Buffered_Replay
begin

text \<open>
  The buffered streamer over a \<open>BatchStreamer\<close> that reads a HotShot chain: the consumer gets the
  batches the inner streamer delivers, and can have them again without it.
\<close>

text \<open>The consumer's loop on the wrapper. \<open>None\<close>: a call does not return.\<close>

fun update_next_buffered ::
  "('s, 'w) streamer_ops \<Rightarrow> nat \<Rightarrow> 's buffered \<Rightarrow> 'w \<Rightarrow> (batch option list \<times> 's buffered \<times> 'w) option" where
  "update_next_buffered ops 0 b w = Some ([], b, w)"
| "update_next_buffered ops (Suc k) b w =
    (case Update_buffered ops b w of
       None \<Rightarrow> None
     | Some (err, b, w) \<Rightarrow>
         (case Next_buffered ops b w of
            None \<Rightarrow> None
          | Some (r, b, w) \<Rightarrow> map_option (\<lambda>(rs, c). (r # rs, c)) (update_next_buffered ops k b w)))"

lemma update_next_Cons:
  assumes "update_next e (length (x # xs)) s w = Some (map Some (x # xs), s', w')"
  obtains err s1 w1 s2 w2 where "Update e s w = Some (err, s1, w1)" "Next e s1 w1 = (Some x, s2, w2)"
    "update_next e (length xs) s2 w2 = Some (map Some xs, s', w')"
proof -
  obtain err s1 w1 where u: "Update e s w = Some (err, s1, w1)"
    using assms by (cases "Update e s w") auto
  obtain r s2 w2 where n: "Next e s1 w1 = (r, s2, w2)" by (cases "Next e s1 w1")
  have "r = Some x" "update_next e (length xs) s2 w2 = Some (map Some xs, s', w')"
    using assms by (auto simp: u n)
  with u n show ?thesis by (auto intro: that)
qed

text \<open>With nothing left to replay each round of the wrapper is a round of the inner streamer.\<close>

lemma update_next_buffered_inner:
  assumes "update_next e (length bs) (inner b) w = Some (map Some bs, s', w')"
    and "window_ok b" and "unread b = []" and "length (window b) + length bs < 2 ^ 64"
    and "\<forall>x \<in> set bs. startingBatchPos b \<le> Number x"
  shows "\<exists>b'. update_next_buffered (batch_streamer e) (length bs) b w = Some (map Some bs, b', w')
    \<and> window b' = window b @ bs \<and> inner b' = s' \<and> window_ok b'"
  using assms
proof (induction bs arbitrary: b w)
  case (Cons x xs)
  obtain err s1 w1 s2 w2 where u: "Update e (inner b) w = Some (err, s1, w1)" and n: "Next e s1 w1 = (Some x, s2, w2)"
    and rest: "update_next e (length xs) s2 w2 = Some (map Some xs, s', w')"
    by (rule update_next_Cons [OF Cons.prems(1)])
  let ?b1 = "b\<lparr>inner := s1\<rparr>"
  let ?b2 = "b\<lparr>inner := s2, window := window b @ [x], readPos := readPos b + 1\<rparr>"
  have U: "Update_buffered (batch_streamer e) b w = Some (err, ?b1, w1)"
    by (simp add: Update_buffered_def batch_streamer_def u)
  have "\<not> readPos ?b1 < u64_len (window ?b1)" using reads_window_iff [OF Cons.prems(2)] Cons.prems(3) by simp
  moreover have "next_loop (batch_streamer e) ?b1 w1 = Some (Some x, ?b2, w2)"
    using Cons.prems(5) by (subst next_loop.simps) (simp add: batch_streamer_def n)
  ultimately have N: "Next_buffered (batch_streamer e) ?b1 w1 = Some (Some x, ?b2, w2)"
    by (simp add: Next_buffered_def)
  have rd: "unat (readPos b) = length (window b)"
    using Cons.prems(2,3) by (simp add: window_ok_def unread_def)
  have len: "length (window b) + 1 < 2 ^ 64" using Cons.prems(4) by simp
  have succ: "unat (readPos b + 1) = unat (readPos b) + 1"
    by (rule readPos_succ [OF _ len]) (simp add: rd)
  have "window_ok ?b2" "unread ?b2 = []" using rd succ len by (simp_all add: window_ok_def unread_def)
  moreover have "length (window ?b2) + length xs < 2 ^ 64" using Cons.prems(4) by simp
  moreover have "\<forall>y \<in> set xs. startingBatchPos ?b2 \<le> Number y" using Cons.prems(5) by simp
  moreover have "update_next e (length xs) (inner ?b2) w2 = Some (map Some xs, s', w')" using rest by simp
  ultimately obtain b' where b': "update_next_buffered (batch_streamer e) (length xs) ?b2 w2 = Some (map Some xs, b', w')"
    "window b' = window ?b2 @ xs" "inner b' = s'" "window_ok b'"
    using Cons.IH [of ?b2 w2] by blast
  then show ?case by (simp add: U N)
qed simp

text \<open>
  C5. The consumer of the buffered streamer gets the chain, and can have it again. Under the same
  conditions on HotShot, the L1 and the batcher's payloads as for the \<open>BatchStreamer\<close> below,
  \<open>k\<close> rounds of \<open>Update\<close> and \<open>Next\<close> on the wrapper return the next \<open>k\<close> batches in the order of
  their numbers, whatever order the chain has them in. After a \<open>Reset\<close> the calls of \<open>Next\<close> give
  out the whole window again, these batches included, over any other method set and in any
  world, so no client has to be reachable.
\<close>

theorem buffered_chain_replayed:
  assumes "at_rest (inner b)" and "hotShotPos (inner b) \<noteq> MaxUint64" and "FinalizedL1 (inner b) \<noteq> zero_ref"
    and "cache_sound e H B (inner b)" and "l1_served e H B"
    and "serves e (Namespace (inner b)) chain lo hi" and "hi + 200 < 2 ^ 64"
    and "honest H B (ref_number (FinalizedL1 (inner b))) A" and "only_noise_beside e H B A chain (inner b)"
    and posted: "\<forall>i < length bs. bs ! i \<in> A \<and> Number (bs ! i) = nextBatchPos (inner b) + of_nat i
      \<and> (\<exists>p. unat (read_pos (hotShotPos (inner b))) \<le> p \<and> p + 2 < lo \<and> carries e chain p (bs ! i))"
    and fits: "unat (nextBatchPos (inner b)) + length bs < 2 ^ 64"
    and "window_ok b" and "unread b = []" and "length (window b) + length bs < 2 ^ 64"
    and start: "startingBatchPos b \<le> nextBatchPos (inner b)"
  shows "\<exists>b' w'. update_next_buffered (batch_streamer e) (length bs) b w = Some (map Some bs, b', w')
    \<and> (\<forall>ops u. \<exists>b''. next_many ops (length (window b @ bs)) (Reset_buffered b') u = Some (window b @ bs, b'', u))"
proof -
  obtain s' w' where run: "update_next e (length bs) (inner b) w = Some (map Some bs, s', w')"
    using at_rest_delivers [OF assms(1-11)] by blast
  have "\<forall>x \<in> set bs. startingBatchPos b \<le> Number x"
  proof
    fix x
    assume "x \<in> set bs"
    then obtain i where i: "i < length bs" "x = bs ! i" by (auto simp: in_set_conv_nth)
    have "unat (nextBatchPos (inner b)) + i < 2 ^ 64" "unat (of_nat i :: u64) = i"
      using fits i(1) by simp_all
    then have "unat (nextBatchPos (inner b) + of_nat i) = unat (nextBatchPos (inner b)) + i"
      by (simp add: unat_add_lem [THEN iffD1])
    then show "startingBatchPos b \<le> Number x" using posted i start by (simp add: word_le_nat_alt)
  qed
  from update_next_buffered_inner [OF run assms(12-14) this] obtain b' where
    b': "update_next_buffered (batch_streamer e) (length bs) b w = Some (map Some bs, b', w')"
      "window b' = window b @ bs" "window_ok b'" by blast
  have "\<exists>b''. next_many ops (length (window b @ bs)) (Reset_buffered b') u = Some (window b @ bs, b'', u)" for ops u
    using buffered_reset_replays [OF b'(3), of ops u] b'(2) by auto
  with b'(1) show ?thesis by blast
qed

lemma buffered_chain_replayed_witness:
  "\<exists>b' w' b''. update_next_buffered (batch_streamer chain_env) 2 (NewBufferedEspressoStreamer sample_streamer) []
      = Some ([Some (sample_batch 1 11 0), Some (sample_batch 2 12 0)], b', w')
    \<and> next_many (batch_streamer failing_env) 2 (Reset_buffered b') [] = Some (sample_posts, b'', [])"
proof -
  let ?b = "NewBufferedEspressoStreamer sample_streamer"
  have [simp]: "inner ?b = sample_streamer" by (simp add: NewBufferedEspressoStreamer_def)
  have "\<exists>b' w'. update_next_buffered (batch_streamer chain_env) (length sample_posts) ?b [] = Some (map Some sample_posts, b', w')
    \<and> (\<forall>(ops :: (((u64 \<times> l1_state) list, (hash \<times> u64) list) streamer, sample_world) streamer_ops) u.
        \<exists>b''. next_many ops (length (window ?b @ sample_posts)) (Reset_buffered b') u = Some (window ?b @ sample_posts, b'', u))"
  proof (rule buffered_chain_replayed [where H = "\<lambda>_. 7" and B = "\<lambda>_. 5" and chain = sample_chain and lo = 6
        and hi = 6 and A = "set sample_posts"])
    show "window_ok ?b" "unread ?b = []" "length (window ?b) + length sample_posts < 2 ^ 64"
      "startingBatchPos ?b \<le> nextBatchPos (inner ?b)"
      by (simp_all add: NewBufferedEspressoStreamer_def window_ok_def unread_def sample_posts_def)
  qed (use sample_chain_facts in simp_all)
  then obtain b' w' where 1: "update_next_buffered (batch_streamer chain_env) (length sample_posts) ?b [] = Some (map Some sample_posts, b', w')"
    and 2: "\<exists>b''. next_many (batch_streamer failing_env) (length (window ?b @ sample_posts)) (Reset_buffered b') []
        = Some (window ?b @ sample_posts, b'', [])"
    by blast
  have "length sample_posts = 2" "window ?b = []" by (simp_all add: sample_posts_def NewBufferedEspressoStreamer_def)
  with 1 2 show ?thesis
    by (simp del: update_next_buffered.simps next_many.simps) (simp add: sample_posts_def del: update_next_buffered.simps next_many.simps)
qed

end
