(* ===== verification/Go_Bytes.thy ===== *)
theory Go_Bytes
  imports Prelude
begin

text \<open>
  Byte buffers as the Nitro codecs use them: reading and writing a big-endian \<open>uint64\<close> at an
  offset, \<open>copy\<close> into a buffer, all with the bounds panics of the Go run time as \<open>None\<close>. A Go
  slice has fewer than \<open>2 ^ 63\<close> bytes, so its length is exact as a \<open>uint64\<close>; the offsets and
  the lengths read from the wire are kept as 64-bit words, because they can wrap.
\<close>

text \<open>\<open>binary.BigEndian.Uint64(bs)\<close>: reads the first eight bytes, panics when there are fewer.\<close>

definition get_u64 :: "bytes \<Rightarrow> u64 option" where
  "get_u64 bs = (if 8 \<le> length bs then Some (be_word (take 8 bs)) else None)"

text \<open>\<open>xs[off:]\<close> and \<open>xs[lo:hi]\<close> with \<open>uint64\<close> bounds.\<close>

definition slice_from :: "'a list \<Rightarrow> u64 \<Rightarrow> 'a list option" where
  "slice_from xs off = go_slice xs (unat off) (length xs)"

definition slice_u64 :: "'a list \<Rightarrow> u64 \<Rightarrow> u64 \<Rightarrow> 'a list option" where
  "slice_u64 xs lo hi = go_slice xs (unat lo) (unat hi)"

text \<open>\<open>make([]byte, n)\<close>, \<open>binary.BigEndian.PutUint64(buf[off:], v)\<close> and \<open>copy(buf[off:], src)\<close>.\<close>

definition make_bytes :: "u64 \<Rightarrow> bytes" where
  "make_bytes n = replicate (unat n) 0"

definition put_u64 :: "bytes \<Rightarrow> u64 \<Rightarrow> u64 \<Rightarrow> bytes option" where
  "put_u64 buf off v =
    (if unat off + 8 \<le> length buf
     then Some (take (unat off) buf @ be_bytes 8 v @ drop (unat off + 8) buf) else None)"

definition copy_at :: "bytes \<Rightarrow> u64 \<Rightarrow> bytes \<Rightarrow> (bytes \<times> u64) option" where
  "copy_at buf off src =
    (if unat off \<le> length buf
     then
       let n = min (length buf - unat off) (length src)
       in Some (take (unat off) buf @ take n src @ drop (unat off + n) buf, of_nat n)
     else None)"

lemma be_word_u64 [simp]: "be_word (be_bytes 8 (w :: u64)) = w"
  by (rule be_word_be_bytes) simp

lemma be_bytes_u64 [simp]: "length bs = 8 \<Longrightarrow> be_bytes 8 (be_word bs :: u64) = bs"
  using be_bytes_be_word [of bs, where 'a = 64] by simp

lemma get_u64_be_bytes [simp]: "get_u64 (be_bytes 8 w @ bs) = Some w"
  by (simp add: get_u64_def)

lemma get_u64_Some_iff [result_inv]:
  "get_u64 bs = Some w \<longleftrightarrow> (\<exists>rest. bs = be_bytes 8 w @ rest)"
proof
  assume "get_u64 bs = Some w"
  then have "8 \<le> length bs" and w: "w = be_word (take 8 bs)"
    by (simp_all add: get_u64_def split: if_splits)
  then have "be_bytes 8 w = take 8 bs" by simp
  then have "bs = be_bytes 8 w @ drop 8 bs" by (metis append_take_drop_id)
  then show "\<exists>rest. bs = be_bytes 8 w @ rest" by blast
qed auto

lemma slice_from_eq [simp]:
  "unat off \<le> length xs \<Longrightarrow> slice_from xs off = Some (drop (unat off) xs)"
  by (simp add: slice_from_def go_slice_def)

lemma slice_u64_eq [simp]:
  "unat lo \<le> unat hi \<Longrightarrow> unat hi \<le> length xs
    \<Longrightarrow> slice_u64 xs lo hi = Some (take (unat hi - unat lo) (drop (unat lo) xs))"
  by (simp add: slice_u64_def go_slice_def)

lemma unat_u64_len [simp]: "length xs < 2 ^ 63 \<Longrightarrow> unat (u64_len xs) = length xs"
  by (rule unat_u64_of_nat) simp

lemma unat_add_u64: "unat x + unat y < 2 ^ 64 \<Longrightarrow> unat (x + y :: u64) = unat x + unat y"
  by (simp add: unat_word_ariths)

lemma unat_eqD: "unat (x :: u64) = n \<Longrightarrow> x = of_nat n"
  using unat_u64_bound [of x] by (intro unsigned_word_eqI [where ?'a = nat]) simp

text \<open>
  \<open>CanSafelyReadElements\<close> on words: true means that the read does \emph{not} fit. With the
  position inside the space there is no wrap-around in the test itself, whatever the length
  asked for.
\<close>

definition CanSafelyReadElements :: "u64 \<Rightarrow> u64 \<Rightarrow> u64 \<Rightarrow> bool" where
  "CanSafelyReadElements totalSpaceAvailable readPosition elementsToRead =
    (elementsToRead > totalSpaceAvailable - readPosition)"

lemma CanSafelyReadElements_iff:
  "r \<le> t \<Longrightarrow> CanSafelyReadElements t r n \<longleftrightarrow> unat t < unat r + unat n"
  by (auto simp: CanSafelyReadElements_def word_less_nat_alt unat_sub word_le_nat_alt)

text \<open>Filling a fresh buffer from the left: what is written so far, then zeros.\<close>

lemma copy_at_fill:
  assumes "unat off = length pre"
  shows "copy_at (pre @ replicate n 0) off src
    = Some (pre @ take n src @ replicate (n - length src) 0, of_nat (min n (length src)))"
  using assms by (auto simp: copy_at_def Let_def min_def)

lemma put_u64_fill:
  assumes "unat off = length pre" and "8 \<le> n"
  shows "put_u64 (pre @ replicate n 0) off v = Some (pre @ be_bytes 8 v @ replicate (n - 8) 0)"
  using assms by (simp add: put_u64_def)

end
