(* ===== verification/Nitro_Types.thy ===== *)
theory Nitro_Types
  imports Go_Bytes
begin

text \<open>
  \<open>nitro/nitro_types.go\<close>: the messages of the Nitro integration, as the code has them. A
  pointer that may be nil is an option, a \<open>big.Int\<close> an \<open>int\<close>, a byte slice the list of its
  bytes. Also the library functions of the Nitro code (RLP, JSON, Keccak and the signature
  scheme) as the fields of one record, and its classes of errors.
\<close>

section \<open>Messages\<close>

record batch_data_stats =
  bds_length :: u64
  bds_nonzeros :: u64

record l1_incoming_header =            \<comment> \<open>\<open>L1IncomingMessageHeader\<close>\<close>
  Kind :: byte
  Poster :: address
  BlockNumber :: u64
  Timestamp :: u64
  RequestId :: "hash option"
  L1BaseFee :: "int option"

record l1_incoming =                   \<comment> \<open>\<open>L1IncomingMessage\<close>\<close>
  l1m_header :: "l1_incoming_header option"
  L2msg :: bytes
  LegacyBatchGasCost :: "u64 option"
  BatchDataStats :: "batch_data_stats option"

record message_with_metadata =         \<comment> \<open>\<open>MessageWithMetadata\<close>\<close>
  l1_message :: "l1_incoming option"
  DelayedMessagesRead :: u64

record message_and_pos =               \<comment> \<open>\<open>MessageWithMetadataAndPos\<close>\<close>
  MessageWithMeta :: message_with_metadata
  Pos :: u64
  HotshotHeight :: u64

text \<open>\<open>EmptyTestIncomingMessage\<close>, and the record of a sent payload, whose time is in nanoseconds.\<close>

definition EmptyTestIncomingMessage :: l1_incoming where
  "EmptyTestIncomingMessage =
    \<lparr>l1m_header = Some \<lparr>Kind = 0, Poster = 0, BlockNumber = 0, Timestamp = 0, RequestId = None, L1BaseFee = None\<rparr>,
     L2msg = [], LegacyBatchGasCost = None, BatchDataStats = None\<rparr>"

type_synonym message_index = u64       \<comment> \<open>\<open>MessageIndex\<close>\<close>

record submitted_espresso_tx =         \<comment> \<open>\<open>SubmittedEspressoTx\<close>\<close>
  submitted_hash :: string
  submitted_pos :: "message_index list"
  submitted_payload :: bytes
  submitted_at :: int

record v0_message =                    \<comment> \<open>\<open>V0MessageAndIndex\<close>\<close>
  v0_pos :: u64
  v0_message :: message_with_metadata

record v0_signature_and_messages =     \<comment> \<open>\<open>V0SignatureAndMessages\<close>\<close>
  v0_signature :: bytes
  v0_hash :: hash
  v0_messages :: "v0_message list"

record feed_message =                  \<comment> \<open>\<open>BroadcastFeedMessage\<close>\<close>
  SequenceNumber :: u64
  feed_message :: message_with_metadata
  Signature :: bytes
  SignatureV2 :: bytes
  BlockMetadata :: bytes
  CumulativeSumMsgSize :: u64
  BlockHash :: "hash option"

record v1_feed_messages =              \<comment> \<open>\<open>V1HeaderAndBroadcastFeedMessages\<close>\<close>
  v1_messages :: "feed_message list"

definition V1Header :: string where
  "V1Header = ''V1''"

section \<open>Library functions\<close>

type_synonym nitro_err = string        \<comment> \<open>an error of a library call, opaque\<close>

record 'k nitro_lib =
  rlp_encode_message :: "message_with_metadata \<Rightarrow> nitro_err + bytes"
  rlp_decode_message :: "bytes \<Rightarrow> nitro_err + message_with_metadata"
  rlp_encode_incoming :: "l1_incoming \<Rightarrow> nitro_err + bytes"
  json_marshal_string :: "string \<Rightarrow> nitro_err + bytes"
  json_unmarshal_string :: "bytes \<Rightarrow> nitro_err + string"
  json_marshal_feed :: "feed_message \<Rightarrow> nitro_err + bytes"
  json_unmarshal_feed :: "bytes \<Rightarrow> nitro_err + feed_message"
  Keccak256Hash :: "bytes \<Rightarrow> hash"
  sig_to_pub :: "hash \<Rightarrow> bytes \<Rightarrow> nitro_err + 'k"
  pubkey_to_address :: "'k \<Rightarrow> address"
  HexToAddress :: "string \<Rightarrow> address"

text \<open>
  The error classes. \<open>NotEnoughBytes\<close> and \<open>LengthMismatch\<close> carry \<open>Have\<close> and \<open>Want\<close>; the text that
  \<open>fmt.Errorf\<close> wraps around an error is left out.
\<close>

datatype codec_error =
    NotEnoughBytes u64 u64
  | NoMessageData
  | LengthMismatch u64 u64
  | VersionMismatch string
  | RlpFailed nitro_err
  | JsonFailed nitro_err
  | UnknownMessageFormat

section \<open>RLP coding of a message\<close>

text \<open>\<open>nitro/nitro_types_binary.go\<close>.\<close>

definition MarshalBinary :: "'k nitro_lib \<Rightarrow> message_with_metadata \<Rightarrow> codec_error + bytes" where
  "MarshalBinary L m =
    (case rlp_encode_message L m of Inl err \<Rightarrow> Inl (RlpFailed err) | Inr bs \<Rightarrow> Inr bs)"

definition UnmarshalBinary :: "'k nitro_lib \<Rightarrow> bytes \<Rightarrow> codec_error + message_with_metadata" where
  "UnmarshalBinary L data =
    (case rlp_decode_message L data of Inl err \<Rightarrow> Inl (RlpFailed err) | Inr m \<Rightarrow> Inr m)"

text \<open>What RLP promises for a message: decoding an encoding gives the message back.\<close>

definition rlp_roundtrip :: "'k nitro_lib \<Rightarrow> message_with_metadata \<Rightarrow> bool" where
  "rlp_roundtrip L m = (\<forall>bs. rlp_encode_message L m = Inr bs \<longrightarrow> rlp_decode_message L bs = Inr m)"

end
