(* ===== verification/Nitro_Codec_V0.thy ===== *)
theory Nitro_Codec_V0
  imports Nitro_Types
begin

text \<open>
  \<open>nitro/v0_nitro_types_binary.go\<close>: the version 0 wire format. A payload is a signature with
  its length in front, then frames of a position, a length and an RLP encoded message. The
  encoders fill a buffer the way the code does; the parsers slice the data at 64-bit offsets.
  The outermost option of every result is a panic of the Go run time, and for the loop also
  a run that never ends.
\<close>

abbreviation (input) LEN_SIZE :: u64 where "LEN_SIZE \<equiv> 8"
abbreviation (input) INDEX_SIZE :: u64 where "INDEX_SIZE \<equiv> 8"

section \<open>Encoding\<close>

definition encodeV0MessageAndIndex ::
  "'k nitro_lib \<Rightarrow> v0_message \<Rightarrow> (codec_error + bytes) option" where
  "encodeV0MessageAndIndex L msg =
    (case MarshalBinary L (v0_message msg) of
       Inl err \<Rightarrow> Some (Inl err)
     | Inr encoded \<Rightarrow>
         let encodedLen = u64_len encoded;
             buf = make_bytes (encodedLen + LEN_SIZE + INDEX_SIZE);
             len = u64_len buf;
             offset = 0
         in Option.bind (put_u64 buf offset (v0_pos msg)) (\<lambda>buf.
            let offset = offset + INDEX_SIZE
            in Option.bind (put_u64 buf offset encodedLen) (\<lambda>buf.
            let offset = offset + LEN_SIZE
            in Option.bind (copy_at buf offset encoded) (\<lambda>(buf, n).
            let offset = offset + n
            in Some (if offset \<noteq> len then Inl (LengthMismatch offset len) else Inr buf)))))"

text \<open>The first loop: encode each message, add up the sizes.\<close>

fun encode_v0_frames ::
  "'k nitro_lib \<Rightarrow> v0_message list \<Rightarrow> bytes list \<Rightarrow> u64 \<Rightarrow> (codec_error + bytes list \<times> u64) option" where
  "encode_v0_frames L [] acc sz = Some (Inr (acc, sz))"
| "encode_v0_frames L (msg # msgs) acc sz =
    Option.bind (encodeV0MessageAndIndex L msg) (\<lambda>r.
      case r of
        Inl err \<Rightarrow> Some (Inl err)
      | Inr bs \<Rightarrow> encode_v0_frames L msgs (acc @ [bs]) (sz + u64_len bs))"

text \<open>The second loop, shared by the two versions: copy the parts one after another.\<close>

fun copy_parts :: "bytes \<Rightarrow> u64 \<Rightarrow> bytes list \<Rightarrow> (bytes \<times> u64) option" where
  "copy_parts buf offset [] = Some (buf, offset)"
| "copy_parts buf offset (part # parts) =
    Option.bind (copy_at buf offset part) (\<lambda>(buf, n). copy_parts buf (offset + n) parts)"

definition encodeV0MessageAndIndexes ::
  "'k nitro_lib \<Rightarrow> v0_message list \<Rightarrow> (codec_error + bytes) option" where
  "encodeV0MessageAndIndexes L msgs =
    Option.bind (encode_v0_frames L msgs [] 0) (\<lambda>r.
      case r of
        Inl err \<Rightarrow> Some (Inl err)
      | Inr (parts, sz) \<Rightarrow> map_option (\<lambda>(buf, offset). Inr buf) (copy_parts (make_bytes sz) 0 parts))"

definition encodeV0SignatureAndMessages ::
  "'k nitro_lib \<Rightarrow> v0_signature_and_messages \<Rightarrow> (codec_error + bytes) option" where
  "encodeV0SignatureAndMessages L m =
    Option.bind (encodeV0MessageAndIndexes L (v0_messages m)) (\<lambda>r.
      case r of
        Inl err \<Rightarrow> Some (Inl err)
      | Inr encodedMessages \<Rightarrow>
          let signature = v0_signature m;
              signatureLength = u64_len signature;
              buf = make_bytes (signatureLength + LEN_SIZE + u64_len encodedMessages);
              len = u64_len buf;
              offset = 0
          in Option.bind (put_u64 buf offset signatureLength) (\<lambda>buf.
             let offset = offset + LEN_SIZE
             in Option.bind (copy_at buf offset signature) (\<lambda>(buf, n).
             let offset = offset + n
             in Option.bind (copy_at buf offset encodedMessages) (\<lambda>(buf, n).
             let offset = offset + n
             in Some (if offset \<noteq> len then Inl (LengthMismatch offset len) else Inr buf)))))"

section \<open>Parsing\<close>

text \<open>A parser returns the value and the bytes read; an error carries the bytes read too.\<close>

type_synonym 'a parse_result = "((codec_error \<times> u64) + ('a \<times> u64)) option"

definition parseV0MessageAndIndex :: "'k nitro_lib \<Rightarrow> bytes \<Rightarrow> v0_message parse_result" where
  "parseV0MessageAndIndex L data =
    (let len = u64_len data; offset = 0
     in if CanSafelyReadElements len offset (INDEX_SIZE + LEN_SIZE)
        then Some (Inl (NotEnoughBytes len (offset + INDEX_SIZE + LEN_SIZE), offset))
        else
          Option.bind (Option.bind (slice_from data offset) get_u64) (\<lambda>index.
          let offset = offset + INDEX_SIZE
          in Option.bind (Option.bind (slice_u64 data offset (offset + LEN_SIZE)) get_u64) (\<lambda>messageLength.
          let offset = offset + LEN_SIZE
          in if messageLength = 0 then Some (Inl (NoMessageData, offset))
             else if CanSafelyReadElements len offset messageLength
             then Some (Inl (NotEnoughBytes len (offset + messageLength), offset))
             else
               Option.bind (slice_u64 data offset (offset + messageLength)) (\<lambda>messageData.
               let offset = offset + messageLength
               in Some
                 (case UnmarshalBinary L messageData of
                    Inl err \<Rightarrow> Inl (err, offset)
                  | Inr msg \<Rightarrow> Inr (\<lparr>v0_pos = index, v0_message = msg\<rparr>, offset))))))"

text \<open>The loop of \<open>parseV0MessageAndIndexes\<close>; a frame without message data is skipped.\<close>

partial_function (option) parse_v0_loop ::
  "'k nitro_lib \<Rightarrow> bytes \<Rightarrow> u64 \<Rightarrow> v0_message list \<Rightarrow> v0_message list parse_result" where
  "parse_v0_loop L data offset msgs =
    (if offset < u64_len data then
       Option.bind (slice_from data offset) (\<lambda>rest.
       Option.bind (parseV0MessageAndIndex L rest) (\<lambda>r.
         case r of
           Inl (err, read) \<Rightarrow>
             if err = NoMessageData then parse_v0_loop L data (offset + read) msgs
             else Some (Inl (err, offset))
         | Inr (msg, read) \<Rightarrow> parse_v0_loop L data (offset + read) (msgs @ [msg])))
     else Some (Inr (msgs, offset)))"

definition parseV0MessageAndIndexes :: "'k nitro_lib \<Rightarrow> bytes \<Rightarrow> v0_message list parse_result" where
  "parseV0MessageAndIndexes L data = parse_v0_loop L data 0 []"

definition parseV0SignatureAndMessages ::
  "'k nitro_lib \<Rightarrow> bytes \<Rightarrow> v0_signature_and_messages parse_result" where
  "parseV0SignatureAndMessages L data =
    (let len = u64_len data; offset = 0
     in if CanSafelyReadElements len offset LEN_SIZE
        then Some (Inl (NotEnoughBytes len (offset + LEN_SIZE), offset))
        else
          Option.bind (Option.bind (slice_u64 data offset (offset + LEN_SIZE)) get_u64) (\<lambda>signatureLength.
          let offset = offset + LEN_SIZE
          in if CanSafelyReadElements len offset signatureLength
             then Some (Inl (NotEnoughBytes len (offset + signatureLength), offset))
             else
               Option.bind (slice_u64 data offset (offset + signatureLength)) (\<lambda>signature.
               let offset = offset + signatureLength
               in Option.bind (slice_from data offset) (\<lambda>userData.
                  Option.bind (parseV0MessageAndIndexes L userData) (\<lambda>r.
                    case r of
                      Inl (err, read) \<Rightarrow> Some (Inl (err, offset))
                    | Inr (msgs, read) \<Rightarrow>
                        let offset = offset + read
                        in Some
                          (if offset \<noteq> len then Inl (LengthMismatch offset len, offset)
                           else Inr (\<lparr>v0_signature = signature, v0_hash = Keccak256Hash L userData,
                                      v0_messages = msgs\<rparr>, offset)))))))"

definition Unmarshal_v0 :: "'k nitro_lib \<Rightarrow> bytes \<Rightarrow> (codec_error + v0_signature_and_messages) option" where
  "Unmarshal_v0 L data =
    map_option (\<lambda>r. case r of Inl (err, _) \<Rightarrow> Inl err | Inr (m, _) \<Rightarrow> Inr m)
      (parseV0SignatureAndMessages L data)"

end
