(* ===== verification/Nitro_V0_Frames.thy ===== *)
theory Nitro_V0_Frames
  imports Nitro_Codec_V0
begin

text \<open>
  The version 0 wire format as a reference definition, a signature and a concatenation of
  frames, with the buffer-filling encoders and the offset-driven parsers shown equal to it:
  the encoders write exactly that string, and the parsers accept exactly those strings.
\<close>

section \<open>The format\<close>

definition v0_frame :: "u64 \<times> bytes \<Rightarrow> bytes" where
  "v0_frame f = be_bytes 8 (fst f) @ be_bytes 8 (u64_len (snd f) :: u64) @ snd f"

abbreviation v0_frames :: "(u64 \<times> bytes) list \<Rightarrow> bytes" where
  "v0_frames fs \<equiv> concat (map v0_frame fs)"

definition v0_payload :: "bytes \<Rightarrow> (u64 \<times> bytes) list \<Rightarrow> bytes" where
  "v0_payload sg fs = be_bytes 8 (u64_len sg :: u64) @ sg @ v0_frames fs"

text \<open>The messages of a list of frames; a frame with no content holds none.\<close>

fun decode_v0_frames :: "'k nitro_lib \<Rightarrow> (u64 \<times> bytes) list \<Rightarrow> codec_error + v0_message list" where
  "decode_v0_frames L [] = Inr []"
| "decode_v0_frames L ((p, bs) # fs) =
    (if bs = [] then decode_v0_frames L fs
     else
       bind_res (UnmarshalBinary L bs) (\<lambda>m.
       bind_res (decode_v0_frames L fs) (\<lambda>ms.
       Inr (\<lparr>v0_pos = p, v0_message = m\<rparr> # ms))))"

fun encode_v0_contents :: "'k nitro_lib \<Rightarrow> v0_message list \<Rightarrow> codec_error + (u64 \<times> bytes) list" where
  "encode_v0_contents L [] = Inr []"
| "encode_v0_contents L (m # ms) =
    bind_res (MarshalBinary L (v0_message m)) (\<lambda>bs.
    bind_res (encode_v0_contents L ms) (\<lambda>fs. Inr ((v0_pos m, bs) # fs)))"

lemma length_v0_frame [simp]: "length (v0_frame f) = 16 + length (snd f)"
  by (simp add: v0_frame_def)

lemma v0_frame_append:
  "v0_frame (p, bs) @ rest = be_bytes 8 p @ be_bytes 8 (u64_len bs :: u64) @ bs @ rest"
  by (simp add: v0_frame_def)

section \<open>The encoders write the format\<close>

lemma unat_make [simp]: "length (make_bytes n) = unat n"
  by (simp add: make_bytes_def)

lemma encodeV0MessageAndIndex_eq:
  assumes "MarshalBinary L (v0_message msg) = Inr bs" and "length bs + 16 < 2 ^ 63"
  shows "encodeV0MessageAndIndex L msg = Some (Inr (v0_frame (v0_pos msg, bs)))"
proof -
  let ?n = "length bs"
  have n: "unat (16 + u64_len bs :: u64) = 16 + ?n"
    using assms(2) by (simp add: unat_word_ariths unat_of_nat take_bit_nat_eq_self)
  have 1: "put_u64 (make_bytes (u64_len bs + LEN_SIZE + INDEX_SIZE)) 0 (v0_pos msg)
    = Some (be_bytes 8 (v0_pos msg) @ replicate (8 + ?n) 0)"
    using put_u64_fill [of 0 "[]" "16 + ?n"] by (simp add: make_bytes_def n)
  have 2: "put_u64 (be_bytes 8 (v0_pos msg) @ replicate (8 + ?n) 0) 8 (u64_len bs)
    = Some ((be_bytes 8 (v0_pos msg) @ be_bytes 8 (u64_len bs :: u64)) @ replicate ?n 0)"
    using put_u64_fill [of 8 "be_bytes 8 (v0_pos msg)" "8 + ?n"] by simp
  have 3: "copy_at ((be_bytes 8 (v0_pos msg) @ be_bytes 8 (u64_len bs :: u64)) @ replicate ?n 0) 16 bs
    = Some ((be_bytes 8 (v0_pos msg) @ be_bytes 8 (u64_len bs :: u64)) @ bs, u64_len bs)"
    by (subst copy_at_fill) simp_all
  have "16 + u64_len bs = u64_len (make_bytes (u64_len bs + LEN_SIZE + INDEX_SIZE))"
    by (simp add: n)
  then show ?thesis
    using assms(1) 1 2 3
    by (simp add: encodeV0MessageAndIndex_def Let_def v0_frame_def)
qed

lemma encodeV0MessageAndIndex_error:
  "MarshalBinary L (v0_message msg) = Inl err \<Longrightarrow> encodeV0MessageAndIndex L msg = Some (Inl err)"
  by (simp add: encodeV0MessageAndIndex_def)

text \<open>Copying the parts into a buffer of their total size concatenates them.\<close>

lemma copy_parts_concat:
  assumes "length pre + length (concat parts) < 2 ^ 64" and "unat off = length pre"
  shows "copy_parts (pre @ replicate (length (concat parts)) 0) off parts
    = Some (pre @ concat parts, of_nat (length pre + length (concat parts)))"
  using assms
proof (induction parts arbitrary: pre off)
  case Nil
  show ?case using unat_eqD [OF Nil.prems(2)] by simp
next
  case (Cons part parts)
  have 1: "copy_at (pre @ replicate (length (concat (part # parts))) 0) off part
    = Some ((pre @ part) @ replicate (length (concat parts)) 0, u64_len part)"
    using Cons.prems(2) by (subst copy_at_fill) simp_all
  have "unat (off + u64_len part) = length (pre @ part)"
    using Cons.prems by (subst unat_add_u64) simp_all
  then have IH: "copy_parts ((pre @ part) @ replicate (length (concat parts)) 0) (off + u64_len part) parts
    = Some ((pre @ part) @ concat parts, of_nat (length (pre @ part) + length (concat parts)))"
    using Cons.prems(1) by (intro Cons.IH) simp_all
  show ?case
    unfolding copy_parts.simps 1 bind.simps prod.case IH by (simp add: ac_simps)
qed

lemma encode_v0_frames_eq:
  assumes "encode_v0_contents L msgs = Inr fs" and "length (v0_frames fs) < 2 ^ 63"
  shows "encode_v0_frames L msgs acc sz
    = Some (Inr (acc @ map v0_frame fs, sz + u64_len (v0_frames fs)))"
  using assms
proof (induction msgs arbitrary: fs acc sz)
  case Nil
  then show ?case by simp
next
  case (Cons msg msgs)
  from Cons.prems(1) obtain bs gs where bs: "MarshalBinary L (v0_message msg) = Inr bs"
    and gs: "encode_v0_contents L msgs = Inr gs" and fs: "fs = (v0_pos msg, bs) # gs"
    by (auto simp: bind_res_Inr_iff)
  from bs Cons.prems(2) have "encodeV0MessageAndIndex L msg = Some (Inr (v0_frame (v0_pos msg, bs)))"
    by (intro encodeV0MessageAndIndex_eq) (simp_all add: fs)
  with Cons.IH [OF gs] Cons.prems(2) show ?case
    by (simp add: fs add.assoc)
qed

lemma encode_v0_frames_error:
  assumes "encode_v0_contents L msgs = Inl err"
    and "\<And>m bs. m \<in> set msgs \<Longrightarrow> MarshalBinary L (v0_message m) = Inr bs \<Longrightarrow> length bs + 16 < 2 ^ 63"
  shows "encode_v0_frames L msgs acc sz = Some (Inl err)"
  using assms
proof (induction msgs arbitrary: acc sz)
  case Nil
  then show ?case by simp
next
  case (Cons msg msgs)
  show ?case
  proof (cases "MarshalBinary L (v0_message msg)")
    case (Inl e)
    with Cons.prems(1) show ?thesis by (simp add: encodeV0MessageAndIndex_error)
  next
    case (Inr bs)
    with Cons.prems have "encode_v0_contents L msgs = Inl err" by (simp add: bind_res_Inl_iff)
    moreover have "encodeV0MessageAndIndex L msg = Some (Inr (v0_frame (v0_pos msg, bs)))"
      using Inr Cons.prems(2) [of msg bs] by (intro encodeV0MessageAndIndex_eq) simp_all
    moreover have "encode_v0_frames L msgs acc' sz' = Some (Inl err)" for acc' sz'
      using calculation(1) Cons.prems(2) by (intro Cons.IH) auto
    ultimately show ?thesis by simp
  qed
qed

lemma encodeV0MessageAndIndexes_eq:
  assumes "encode_v0_contents L msgs = Inr fs" and "length (v0_frames fs) < 2 ^ 63"
  shows "encodeV0MessageAndIndexes L msgs = Some (Inr (v0_frames fs))"
proof -
  have "copy_parts (make_bytes (u64_len (v0_frames fs))) 0 (map v0_frame fs)
    = Some (v0_frames fs, u64_len (v0_frames fs))"
    using copy_parts_concat [of "[]" "map v0_frame fs" 0] assms(2)
    by (simp add: make_bytes_def)
  then show ?thesis
    using encode_v0_frames_eq [OF assms, of "[]" 0]
    by (simp add: encodeV0MessageAndIndexes_def)
qed

lemma encodeV0SignatureAndMessages_eq:
  assumes "encode_v0_contents L (v0_messages m) = Inr fs"
    and "length (v0_payload (v0_signature m) fs) < 2 ^ 63"
  shows "encodeV0SignatureAndMessages L m = Some (Inr (v0_payload (v0_signature m) fs))"
proof -
  let ?sg = "v0_signature m" and ?ms = "v0_frames fs"
  let ?k = "length ?sg" and ?n = "length (v0_frames fs)"
  have bound: "8 + ?k + ?n < 2 ^ 63" using assms(2) by (simp add: v0_payload_def)
  have "unat (u64_len ?sg + LEN_SIZE + u64_len ?ms) = 8 + ?k + ?n"
    using bound by (simp add: unat_word_ariths unat_of_nat take_bit_nat_eq_self)
  then have n: "make_bytes (u64_len ?sg + LEN_SIZE + u64_len ?ms) = replicate (8 + ?k + ?n) 0"
    by (simp only: make_bytes_def)
  have 0: "encodeV0MessageAndIndexes L (v0_messages m) = Some (Inr ?ms)"
    using bound by (intro encodeV0MessageAndIndexes_eq assms(1)) simp
  have 1: "put_u64 (replicate (8 + ?k + ?n) 0) 0 (u64_len ?sg)
    = Some (be_bytes 8 (u64_len ?sg :: u64) @ replicate (?k + ?n) 0)"
    using put_u64_fill [of 0 "[]" "8 + ?k + ?n"] by simp
  have 2: "copy_at (be_bytes 8 (u64_len ?sg :: u64) @ replicate (?k + ?n) 0) 8 ?sg
    = Some ((be_bytes 8 (u64_len ?sg :: u64) @ ?sg) @ replicate ?n 0, u64_len ?sg)"
    by (subst copy_at_fill) simp_all
  have "unat (8 + u64_len ?sg) = length (be_bytes 8 (u64_len ?sg :: u64) @ ?sg)"
    using bound by (simp add: unat_word_ariths unat_of_nat take_bit_nat_eq_self)
  then have 3: "copy_at ((be_bytes 8 (u64_len ?sg :: u64) @ ?sg) @ replicate ?n 0) (8 + u64_len ?sg) ?ms
    = Some (v0_payload ?sg fs, u64_len ?ms)"
    by (subst copy_at_fill) (simp_all add: v0_payload_def)
  have 4: "8 + u64_len ?sg + u64_len ?ms = u64_len (replicate (8 + ?k + ?n) (0 :: byte))"
    by simp
  show ?thesis
    by (simp only: encodeV0SignatureAndMessages_def Let_def 0 bind.simps sum.case n 1 add_0 2 prod.case 3 4)
      simp
qed

section \<open>The parsers accept the format and nothing else\<close>

text \<open>One frame: either the data is too short for it, or it starts with one.\<close>

lemma parse_v0_frame:
  assumes "length (v0_frame (p, bs) @ rest) < 2 ^ 63"
  shows "parseV0MessageAndIndex L (v0_frame (p, bs) @ rest) = Some
    (if bs = [] then Inl (NoMessageData, 16)
     else case UnmarshalBinary L bs of
         Inl err \<Rightarrow> Inl (err, 16 + u64_len bs)
       | Inr m \<Rightarrow> Inr (\<lparr>v0_pos = p, v0_message = m\<rparr>, 16 + u64_len bs))"
proof -
  define data where "data = v0_frame (p, bs) @ rest"
  have data: "data = be_bytes 8 p @ be_bytes 8 (u64_len bs :: u64) @ bs @ rest"
    by (simp add: data_def v0_frame_append)
  then have len: "16 + length bs \<le> length data" by simp
  have lt: "length data < 2 ^ 63" using assms by (simp add: data_def)
  have ubs: "unat (u64_len bs :: u64) = length bs" using lt len by (intro unat_u64_len) simp
  have bs0: "u64_len bs = (0 :: u64) \<longleftrightarrow> bs = []"
  proof
    assume "u64_len bs = (0 :: u64)"
    from ubs [unfolded this] show "bs = []" by simp
  qed simp
  have off: "unat (16 + u64_len bs) = 16 + length bs"
    using lt len by (subst unat_add_u64) (simp_all add: ubs)
  have room: "\<not> CanSafelyReadElements (u64_len data) 0 16"
    "\<not> CanSafelyReadElements (u64_len data) 16 (u64_len bs)"
    using lt len by (simp_all add: CanSafelyReadElements_iff word_le_nat_alt ubs)
  have reads: "slice_from data 0 = Some data" "get_u64 data = Some p"
    "slice_u64 data 8 16 = Some (be_bytes 8 (u64_len bs :: u64))"
    "get_u64 (be_bytes 8 (u64_len bs :: u64)) = Some (u64_len bs)"
    using get_u64_be_bytes [of "u64_len bs" "[]"] by (simp_all add: data)
  have body: "slice_u64 data 16 (16 + u64_len bs) = Some bs"
    using off len by (simp add: data)
  have "parseV0MessageAndIndex L data = Some
    (if bs = [] then Inl (NoMessageData, 16)
     else case UnmarshalBinary L bs of
         Inl err \<Rightarrow> Inl (err, 16 + u64_len bs)
       | Inr m \<Rightarrow> Inr (\<lparr>v0_pos = p, v0_message = m\<rparr>, 16 + u64_len bs))"
    by (simp add: parseV0MessageAndIndex_def Let_def room reads body bs0 del: slice_from_eq slice_u64_eq)
  then show ?thesis by (simp only: data_def)
qed

lemma parse_v0_frame_short:
  assumes "length data < 2 ^ 63"
  shows "(\<exists>p bs rest. data = v0_frame (p, bs) @ rest)
    \<or> (\<exists>have want off. parseV0MessageAndIndex L data = Some (Inl (NotEnoughBytes have want, off)))"
proof (cases "length data < 16")
  case True
  then have "CanSafelyReadElements (u64_len data) 0 16"
    by (simp add: CanSafelyReadElements_iff)
  then show ?thesis by (simp add: parseV0MessageAndIndex_def Let_def)
next
  case False
  let ?n = "be_word (take 8 (drop 8 data)) :: u64"
  define body where "body = drop 16 data"
  have data: "data = be_bytes 8 (be_word (take 8 data) :: u64) @ be_bytes 8 ?n @ body"
    using False by (simp add: body_def) (metis append_take_drop_id drop_drop numeral_Bit0)
  have reads: "get_u64 data = Some (be_word (take 8 data))"
    "slice_u64 data 8 16 = Some (take 8 (drop 8 data))" "get_u64 (take 8 (drop 8 data)) = Some ?n"
    using False by (simp_all add: get_u64_def)
  show ?thesis
  proof (cases "unat ?n \<le> length body")
    case True
    let ?bs = "take (unat ?n) body"
    have "u64_len ?bs = ?n" using True by simp
    then have "data = v0_frame (be_word (take 8 data), ?bs) @ drop (unat ?n) body"
      using data by (simp add: v0_frame_append)
    then show ?thesis by blast
  next
    case nofit: False
    then have "?n \<noteq> 0" by (intro notI) simp
    moreover have "CanSafelyReadElements (u64_len data) 16 ?n"
      using nofit False assms by (subst CanSafelyReadElements_iff) (auto simp: word_le_nat_alt body_def)
    moreover have "\<not> CanSafelyReadElements (u64_len data) 0 16"
      using False assms by (simp add: CanSafelyReadElements_iff)
    ultimately show ?thesis
      using reads by (simp add: parseV0MessageAndIndex_def Let_def)
  qed
qed

text \<open>The loop: at every offset it does what the reference does with the rest of the data.\<close>

lemma parse_v0_loop_end:
  "length data < 2 ^ 63 \<Longrightarrow> unat off = length data
    \<Longrightarrow> parse_v0_loop L data off msgs = Some (Inr (msgs, off))"
  by (subst parse_v0_loop.simps) (simp add: word_less_nat_alt)

lemma parse_v0_loop_step:
  assumes "length data < 2 ^ 63" and "unat off < length data"
  shows "parse_v0_loop L data off msgs =
    Option.bind (parseV0MessageAndIndex L (drop (unat off) data)) (\<lambda>r.
         case r of
           Inl (err, read) \<Rightarrow>
             if err = NoMessageData then parse_v0_loop L data (off + read) msgs
             else Some (Inl (err, off))
         | Inr (msg, read) \<Rightarrow> parse_v0_loop L data (off + read) (msgs @ [msg]))"
  using assms by (subst parse_v0_loop.simps) (simp add: word_less_nat_alt)

lemma parse_v0_loop_frame:
  assumes "length data < 2 ^ 63" and "drop (unat off) data = v0_frame (p, bs) @ rest"
    and "unat off \<le> length data"
  shows "parse_v0_loop L data off msgs =
      (if bs = [] then parse_v0_loop L data (off + (16 + u64_len bs)) msgs
       else case UnmarshalBinary L bs of
           Inl err \<Rightarrow> Some (Inl (err, off))
         | Inr m \<Rightarrow> parse_v0_loop L data (off + (16 + u64_len bs)) (msgs @ [\<lparr>v0_pos = p, v0_message = m\<rparr>]))"
    and "unat (off + (16 + u64_len bs)) = unat off + (16 + length bs)"
    and "unat off + (16 + length bs) \<le> length data"
    and "drop (unat (off + (16 + u64_len bs))) data = rest"
proof -
  have len: "length data - unat off = 16 + length bs + length rest"
    using arg_cong [OF assms(2), of length] by simp
  then show le: "unat off + (16 + length bs) \<le> length data" by simp
  have "unat (16 + u64_len bs :: u64) = 16 + length bs"
    using le assms(1) by (subst unat_add_u64) simp_all
  then show off: "unat (off + (16 + u64_len bs)) = unat off + (16 + length bs)"
    using le assms(1) by (subst unat_add_u64) simp_all
  have "drop (unat off + (16 + length bs)) data = drop (16 + length bs) (drop (unat off) data)"
    by (simp add: add.commute)
  then show "drop (unat (off + (16 + u64_len bs))) data = rest"
    unfolding off assms(2) by (simp add: v0_frame_def)
  have "length (v0_frame (p, bs) @ rest) < 2 ^ 63"
    unfolding assms(2) [symmetric] using assms(1) by simp
  from parse_v0_frame [OF this, of L] show "parse_v0_loop L data off msgs =
      (if bs = [] then parse_v0_loop L data (off + (16 + u64_len bs)) msgs
       else case UnmarshalBinary L bs of
           Inl err \<Rightarrow> Some (Inl (err, off))
         | Inr m \<Rightarrow> parse_v0_loop L data (off + (16 + u64_len bs)) (msgs @ [\<lparr>v0_pos = p, v0_message = m\<rparr>]))"
    using le assms(1,2)
    by (subst parse_v0_loop_step) (auto simp: UnmarshalBinary_def split: sum.splits)
qed

lemma parse_v0_loop_accepts:
  assumes "length data < 2 ^ 63" and "drop (unat off) data = v0_frames fs"
    and "unat off \<le> length data"
  shows "case decode_v0_frames L fs of
      Inr ms \<Rightarrow> parse_v0_loop L data off msgs = Some (Inr (msgs @ ms, u64_len data))
    | Inl err \<Rightarrow> \<exists>n. parse_v0_loop L data off msgs = Some (Inl (err, n))"
  using assms(2,3)
proof (induction fs arbitrary: off msgs)
  case Nil
  then have "unat off = length data" by simp
  then show ?case using parse_v0_loop_end [OF assms(1)] unat_eqD by fastforce
next
  case (Cons f fs)
  obtain p bs where f: "f = (p, bs)" by (cases f)
  have fr: "drop (unat off) data = v0_frame (p, bs) @ v0_frames fs"
    using Cons.prems(1) by (simp add: f)
  define off' where "off' = off + (16 + u64_len bs)"
  note run = parse_v0_loop_frame(1) [OF assms(1) fr Cons.prems(2), of L msgs, folded off'_def]
  note off = parse_v0_loop_frame(2-) [OF assms(1) fr Cons.prems(2), folded off'_def]
  have IH: "case decode_v0_frames L fs of
      Inr ms \<Rightarrow> parse_v0_loop L data off' msgs' = Some (Inr (msgs' @ ms, u64_len data))
    | Inl err \<Rightarrow> \<exists>n. parse_v0_loop L data off' msgs' = Some (Inl (err, n))" for msgs'
    using off(1,2) by (intro Cons.IH [OF off(3)]) simp
  show ?case
  proof (cases "bs = []")
    case True
    with IH [of msgs] run show ?thesis by (cases "decode_v0_frames L fs") (simp_all add: f)
  next
    case False
    show ?thesis
    proof (cases "UnmarshalBinary L bs")
      case (Inl err)
      with False run show ?thesis by (simp add: f)
    next
      case (Inr m)
      with False run IH [of "msgs @ [\<lparr>v0_pos = p, v0_message = m\<rparr>]"] show ?thesis
        by (cases "decode_v0_frames L fs") (simp_all add: f)
    qed
  qed
qed

text \<open>Every run of the loop ends: with messages when the rest is a list of frames, else with an error.\<close>

lemma parse_v0_loop_total:
  assumes "length data < 2 ^ 63" and "unat off \<le> length data"
  shows "(\<exists>fs. drop (unat off) data = v0_frames fs)
    \<or> (\<exists>err n. parse_v0_loop L data off msgs = Some (Inl (err, n)))"
  using assms(2)
proof (induction "length data - unat off" arbitrary: off msgs rule: less_induct)
  case less
  show ?case
  proof (cases "unat off = length data")
    case True
    then have "drop (unat off) data = v0_frames []" by simp
    then show ?thesis by blast
  next
    case False
    with less.prems have lt: "unat off < length data" by simp
    have "length (drop (unat off) data) < 2 ^ 63" using assms(1) by simp
    from parse_v0_frame_short [OF this, of L] show ?thesis
    proof (elim disjE exE)
      fix p bs rest
      assume fr: "drop (unat off) data = v0_frame (p, bs) @ rest"
      note run = parse_v0_loop_frame(1) [OF assms(1) fr less.prems, of L msgs]
  note off = parse_v0_loop_frame(2-) [OF assms(1) fr less.prems]
      have IH: "(\<exists>fs. drop (unat (off + (16 + u64_len bs))) data = v0_frames fs)
        \<or> (\<exists>err n. parse_v0_loop L data (off + (16 + u64_len bs)) msgs' = Some (Inl (err, n)))" for msgs'
        using off(1,2) lt by (intro less.hyps) simp_all
      have "\<exists>fs. drop (unat off) data = v0_frames fs" if "rest = v0_frames fs" for fs
        using that fr by (intro exI [of _ "(p, bs) # fs"]) simp
      with IH [of msgs] IH [of "msgs @ [\<lparr>v0_pos = p, v0_message = m\<rparr>]" for m] show ?thesis
        unfolding run off(3) by (cases "UnmarshalBinary L bs") (auto split: if_splits)
    next
      fix h w n
      assume "parseV0MessageAndIndex L (drop (unat off) data) = Some (Inl (NotEnoughBytes h w, n))"
      then show ?thesis
        using parse_v0_loop_step [OF assms(1) lt, of L msgs] by simp
    qed
  qed
qed

lemma parseV0MessageAndIndexes_accepts:
  assumes "length data < 2 ^ 63" and "data = v0_frames fs"
  shows "decode_v0_frames L fs = Inr ms
      \<Longrightarrow> parseV0MessageAndIndexes L data = Some (Inr (ms, u64_len data))"
    and "decode_v0_frames L fs = Inl err
      \<Longrightarrow> \<exists>n. parseV0MessageAndIndexes L data = Some (Inl (err, n))"
proof -
  have "drop (unat 0) data = v0_frames fs" using assms(2) by simp
  from parse_v0_loop_accepts [OF assms(1) this, of L "[]"]
  show "decode_v0_frames L fs = Inr ms
      \<Longrightarrow> parseV0MessageAndIndexes L data = Some (Inr (ms, u64_len data))"
    and "decode_v0_frames L fs = Inl err
      \<Longrightarrow> \<exists>n. parseV0MessageAndIndexes L data = Some (Inl (err, n))"
    unfolding parseV0MessageAndIndexes_def append_Nil by simp_all
qed

lemma parseV0MessageAndIndexes_Inr:
  assumes "length data < 2 ^ 63" and "parseV0MessageAndIndexes L data = Some (Inr (ms, n))"
  shows "n = u64_len data \<and> (\<exists>fs. data = v0_frames fs \<and> decode_v0_frames L fs = Inr ms)"
proof -
  from parse_v0_loop_total [OF assms(1), of 0 L "[]"] assms(2)
  obtain fs where fs: "data = v0_frames fs" by (auto simp: parseV0MessageAndIndexes_def)
  note acc = parseV0MessageAndIndexes_accepts [OF assms(1) fs]
  show ?thesis
  proof (cases "decode_v0_frames L fs")
    case (Inl err)
    with acc(2) assms(2) show ?thesis by fastforce
  next
    case (Inr ms')
    with acc(1) assms(2) fs show ?thesis by fastforce
  qed
qed

text \<open>
  The version 0 message parser always returns, without a panic, on any data Go can hold;
  and it returns messages exactly when the data is a concatenation of frames (position,
  length, content) whose non-empty contents are RLP encoded messages. The messages are those
  contents in order, the frames without content are skipped, and all bytes are read.
\<close>

lemma v0_parse_exact:
  assumes "length data < 2 ^ 63"
  shows "\<exists>r. parseV0MessageAndIndexes L data = Some r
    \<and> (\<forall>ms n. r = Inr (ms, n) \<longleftrightarrow>
          n = u64_len data \<and> (\<exists>fs. data = v0_frames fs \<and> decode_v0_frames L fs = Inr ms))"
proof -
  have "parseV0MessageAndIndexes L data \<noteq> None"
  proof (cases "\<exists>fs. data = v0_frames fs")
    case True
    then obtain fs where fs: "data = v0_frames fs" by blast
    show ?thesis
      using parseV0MessageAndIndexes_accepts [OF assms fs, of L]
      by (cases "decode_v0_frames L fs") auto
  next
    case False
    with parse_v0_loop_total [OF assms, of 0 L "[]"] show ?thesis
      by (auto simp: parseV0MessageAndIndexes_def)
  qed
  then obtain r where r: "parseV0MessageAndIndexes L data = Some r" by blast
  show ?thesis
  proof (rule exI, rule conjI, rule r, rule allI, rule allI, rule iffI)
    fix ms n
    assume "r = Inr (ms, n)"
    with r show "n = u64_len data \<and> (\<exists>fs. data = v0_frames fs \<and> decode_v0_frames L fs = Inr ms)"
      by (intro parseV0MessageAndIndexes_Inr [OF assms]) simp
  next
    fix ms n
    assume "n = u64_len data \<and> (\<exists>fs. data = v0_frames fs \<and> decode_v0_frames L fs = Inr ms)"
    then obtain fs where "n = u64_len data" "data = v0_frames fs" "decode_v0_frames L fs = Inr ms" by blast
    with parseV0MessageAndIndexes_accepts(1) [OF assms, of fs L ms] r show "r = Inr (ms, n)"
      by simp
  qed
qed

section \<open>The whole payload\<close>

lemma split_chunk:
  fixes data :: bytes
  assumes "8 \<le> length data" and "unat (be_word (take 8 data) :: u64) \<le> length data - 8"
  obtains chunk rest where "data = be_bytes 8 (u64_len chunk :: u64) @ chunk @ rest"
proof -
  let ?n = "be_word (take 8 data) :: u64" and ?body = "drop 8 data"
  have "u64_len (take (unat ?n) ?body) = ?n" using assms(2) by simp
  moreover have "be_bytes 8 ?n = take 8 data" using assms(1) by simp
  ultimately have "data = be_bytes 8 (u64_len (take (unat ?n) ?body) :: u64)
      @ take (unat ?n) ?body @ drop (unat ?n) ?body"
    by (simp only: append_take_drop_id)
  then show ?thesis by (rule that)
qed

text \<open>What reading a length and then that many bytes computes, for both versions.\<close>

lemma chunk_reads:
  assumes "length data < 2 ^ 63" and "data = be_bytes 8 (u64_len chunk :: u64) @ chunk @ rest"
  shows "\<not> CanSafelyReadElements (u64_len data) 0 8"
    and "slice_u64 data 0 8 = Some (be_bytes 8 (u64_len chunk :: u64))"
    and "get_u64 (be_bytes 8 (u64_len chunk :: u64)) = Some (u64_len chunk)"
    and "get_u64 data = Some (u64_len chunk)"
    and "\<not> CanSafelyReadElements (u64_len data) 8 (u64_len chunk)"
    and "slice_u64 data 8 (8 + u64_len chunk) = Some chunk"
    and "unat (8 + u64_len chunk :: u64) = 8 + length chunk"
    and "slice_from data (8 + u64_len chunk) = Some rest"
proof -
  have len: "8 + length chunk \<le> length data" using arg_cong [OF assms(2), of length] by simp
  have uc: "unat (u64_len chunk :: u64) = length chunk" using assms(1) len by (intro unat_u64_len) simp
  show "\<not> CanSafelyReadElements (u64_len data) 0 8"
    and "\<not> CanSafelyReadElements (u64_len data) 8 (u64_len chunk)"
    using assms(1) len by (simp_all add: CanSafelyReadElements_iff word_le_nat_alt uc)
  show "slice_u64 data 0 8 = Some (be_bytes 8 (u64_len chunk :: u64))"
    using len by (simp add: assms(2))
  show "get_u64 (be_bytes 8 (u64_len chunk :: u64)) = Some (u64_len chunk)"
    using get_u64_be_bytes [of "u64_len chunk" "[]"] by simp
  show "get_u64 data = Some (u64_len chunk)" by (simp add: assms(2))
  show off: "unat (8 + u64_len chunk :: u64) = 8 + length chunk"
    using assms(1) len by (subst unat_add_u64) (simp_all add: uc)
  show "slice_u64 data 8 (8 + u64_len chunk) = Some chunk"
    using off len by (simp add: assms(2))
  show "slice_from data (8 + u64_len chunk) = Some rest"
    using off len by (simp add: assms(2))
qed

text \<open>Otherwise one of the two size tests fails.\<close>

lemma no_chunk:
  assumes "length data < 2 ^ 63" and "\<nexists>chunk rest. data = be_bytes 8 (u64_len chunk :: u64) @ chunk @ rest"
  shows "CanSafelyReadElements (u64_len data) 0 8 \<or>
    (\<not> CanSafelyReadElements (u64_len data) 0 8
      \<and> slice_u64 data 0 8 = Some (take 8 data) \<and> get_u64 (take 8 data) = Some (be_word (take 8 data))
      \<and> get_u64 data = Some (be_word (take 8 data))
      \<and> CanSafelyReadElements (u64_len data) 8 (be_word (take 8 data)))"
proof (cases "length data < 8")
  case True
  then show ?thesis by (simp add: CanSafelyReadElements_iff)
next
  case False
  with assms(2) split_chunk [of data False]
  have "length data - 8 < unat (be_word (take 8 data) :: u64)" by force
  with False assms(1) show ?thesis
    by (simp add: CanSafelyReadElements_iff word_le_nat_alt get_u64_def)
qed

lemma chunk_inj:
  assumes "length chunk < 2 ^ 63" "length chunk' < 2 ^ 63"
    and "be_bytes 8 (u64_len chunk :: u64) @ chunk @ rest = be_bytes 8 (u64_len chunk' :: u64) @ chunk' @ rest'"
  shows "chunk = chunk' \<and> rest = rest'"
proof -
  from assms(3) have "be_bytes 8 (u64_len chunk :: u64) = be_bytes 8 (u64_len chunk' :: u64)"
    and app: "chunk @ rest = chunk' @ rest'" by simp_all
  then have "(u64_len chunk :: u64) = u64_len chunk'"
    by (intro be_bytes_inj [where n = 8]) simp_all
  then have "length chunk = length chunk'"
    using unat_u64_len [OF assms(1)] unat_u64_len [OF assms(2)] by metis
  with app show ?thesis by simp
qed

lemma parseV0SignatureAndMessages_chunk:
  assumes "length data < 2 ^ 63" and "data = be_bytes 8 (u64_len sg :: u64) @ sg @ user"
  shows "parseV0SignatureAndMessages L data =
    Option.bind (parseV0MessageAndIndexes L user) (\<lambda>r.
      case r of
        Inl (err, read) \<Rightarrow> Some (Inl (err, 8 + u64_len sg))
      | Inr (msgs, read) \<Rightarrow> Some
          (if 8 + u64_len sg + read \<noteq> u64_len data
           then Inl (LengthMismatch (8 + u64_len sg + read) (u64_len data), 8 + u64_len sg + read)
           else Inr (\<lparr>v0_signature = sg, v0_hash = Keccak256Hash L user, v0_messages = msgs\<rparr>,
                     8 + u64_len sg + read)))"
  by (simp add: parseV0SignatureAndMessages_def Let_def chunk_reads [OF assms]
      del: slice_from_eq slice_u64_eq cong: if_cong sum.case_cong)

text \<open>
  The whole version 0 parser is total and exact: it returns a message exactly for a signature
  with its length in front followed by frames, and the hash it stores is the Keccak hash of all
  the bytes behind the signature. The final length check of the code never fails.
\<close>

lemma v0_unmarshal_exact_lemma:
  assumes "length data < 2 ^ 63"
  shows "\<exists>r. Unmarshal_v0 L data = Some r
    \<and> (\<forall>m. r = Inr m \<longleftrightarrow>
        (\<exists>fs. data = v0_payload (v0_signature m) fs \<and> decode_v0_frames L fs = Inr (v0_messages m)
          \<and> v0_hash m = Keccak256Hash L (v0_frames fs)))"
proof (cases "\<exists>sg user. data = be_bytes 8 (u64_len sg :: u64) @ sg @ user")
  case False
  then have "data \<noteq> v0_payload sg fs" for sg fs by (simp add: v0_payload_def)
  moreover have "\<exists>h w n. parseV0SignatureAndMessages L data = Some (Inl (NotEnoughBytes h w, n))"
    using no_chunk [OF assms] False
    by (auto simp: parseV0SignatureAndMessages_def Let_def simp del: slice_u64_eq)
  ultimately show ?thesis by (auto simp: Unmarshal_v0_def)
next
  case True
  then obtain sg user where data: "data = be_bytes 8 (u64_len sg :: u64) @ sg @ user" by blast
  have len: "length data = 8 + length sg + length user" using arg_cong [OF data, of length] by simp
  with assms have "length user < 2 ^ 63" by simp
  from v0_parse_exact [OF this, of L] obtain r where r: "parseV0MessageAndIndexes L user = Some r"
    and ex: "\<And>ms n. r = Inr (ms, n) \<longleftrightarrow>
          n = u64_len user \<and> (\<exists>fs. user = v0_frames fs \<and> decode_v0_frames L fs = Inr ms)" by blast
  have split: "data = v0_payload sg' fs \<longleftrightarrow> sg' = sg \<and> user = v0_frames fs" for sg' fs
  proof
    assume eq: "data = v0_payload sg' fs"
    have "length sg < 2 ^ 63" "length sg' < 2 ^ 63"
      using assms len arg_cong [OF eq, of length] by (simp_all add: v0_payload_def)
    moreover have "be_bytes 8 (u64_len sg :: u64) @ sg @ user
        = be_bytes 8 (u64_len sg' :: u64) @ sg' @ v0_frames fs"
      using data eq by (simp only: v0_payload_def)
    ultimately show "sg' = sg \<and> user = v0_frames fs"
      using chunk_inj by blast
  qed (simp add: data v0_payload_def)
  have read: "8 + u64_len sg + u64_len user = (u64_len data :: u64)"
    by (simp add: len)
  show ?thesis
  proof (cases r)
    case (Inl e)
    then have "decode_v0_frames L fs \<noteq> Inr ms" if "user = v0_frames fs" for fs ms
      using ex [of ms "u64_len user"] that by auto
    then show ?thesis
      using Inl r unfolding Unmarshal_v0_def parseV0SignatureAndMessages_chunk [OF assms data] split
      by (cases e) auto
  next
    case (Inr v)
    obtain ms n where v: "v = (ms, n)" by (cases v)
    with Inr ex [of ms n] obtain fs where n: "n = u64_len user"
      and fs: "user = v0_frames fs" "decode_v0_frames L fs = Inr ms" by auto
    have uniq: "ms' = ms" if "user = v0_frames fs'" "decode_v0_frames L fs' = Inr ms'" for fs' ms'
      using ex [of ms' "u64_len user"] that Inr v by auto
    have "Unmarshal_v0 L data
        = Some (Inr \<lparr>v0_signature = sg, v0_hash = Keccak256Hash L user, v0_messages = ms\<rparr>)"
      unfolding Unmarshal_v0_def parseV0SignatureAndMessages_chunk [OF assms data] r Inr v
      by (simp add: n read)
    moreover have "Inr \<lparr>v0_signature = sg, v0_hash = Keccak256Hash L user, v0_messages = ms\<rparr>
        = (Inr m :: codec_error + _) \<longleftrightarrow>
      (\<exists>fs. data = v0_payload (v0_signature m) fs \<and> decode_v0_frames L fs = Inr (v0_messages m)
          \<and> v0_hash m = Keccak256Hash L (v0_frames fs))" for m
    proof
      assume "Inr \<lparr>v0_signature = sg, v0_hash = Keccak256Hash L user, v0_messages = ms\<rparr>
        = (Inr m :: codec_error + _)"
      then have "v0_signature m = sg" "v0_hash m = Keccak256Hash L user" "v0_messages m = ms" by auto
      with fs show "\<exists>fs. data = v0_payload (v0_signature m) fs
          \<and> decode_v0_frames L fs = Inr (v0_messages m) \<and> v0_hash m = Keccak256Hash L (v0_frames fs)"
        unfolding split by metis
    next
      assume "\<exists>fs. data = v0_payload (v0_signature m) fs
          \<and> decode_v0_frames L fs = Inr (v0_messages m) \<and> v0_hash m = Keccak256Hash L (v0_frames fs)"
      then have "v0_signature m = sg" "v0_hash m = Keccak256Hash L user" "v0_messages m = ms"
        unfolding split using uniq by (blast, metis, metis)
      then show "Inr \<lparr>v0_signature = sg, v0_hash = Keccak256Hash L user, v0_messages = ms\<rparr>
        = (Inr m :: codec_error + _)"
        by (cases m) simp
    qed
    ultimately show ?thesis by blast
  qed
qed

end
