(* ===== verification/Nitro_Sample.thy ===== *)
theory Nitro_Sample
  imports Nitro_Types
begin

text \<open>
  One concrete instance of the library functions, on which the theorems about the Nitro code
  are evaluated: RLP and JSON of messages of one shape, a small polynomial hash, and a
  signature that carries the hash it signs and the address of its signer.
\<close>

definition sample_incoming :: "bytes \<Rightarrow> l1_incoming" where
  "sample_incoming l2 =
    \<lparr>l1m_header = Some \<lparr>Kind = 3, Poster = 5, BlockNumber = 9, Timestamp = 70,
                       RequestId = None, L1BaseFee = Some 258\<rparr>,
     L2msg = l2, LegacyBatchGasCost = None, BatchDataStats = None\<rparr>"

definition sample_msg :: "u64 \<Rightarrow> bytes \<Rightarrow> message_with_metadata" where
  "sample_msg d l2 = \<lparr>l1_message = Some (sample_incoming l2), DelayedMessagesRead = d\<rparr>"

definition sample_feed :: "u64 \<Rightarrow> bytes \<Rightarrow> bytes \<Rightarrow> feed_message" where
  "sample_feed n sg l2 =
    \<lparr>SequenceNumber = n, feed_message = sample_msg 1 l2, Signature = sg, SignatureV2 = [],
     BlockMetadata = [], CumulativeSumMsgSize = 0, BlockHash = None\<rparr>"

definition sample_hash :: "bytes \<Rightarrow> hash" where
  "sample_hash bs = foldl (\<lambda>acc b. 31 * acc + ucast b + 1) 7 bs"

definition sample_sign :: "address \<Rightarrow> hash \<Rightarrow> bytes" where
  "sample_sign a h = be_bytes 32 h @ be_bytes 20 a @ replicate 13 0"

definition sample_nitro :: "address nitro_lib" where
  "sample_nitro =
    \<lparr>rlp_encode_message = (\<lambda>m. case l1_message m of
         None \<Rightarrow> Inl ''nil message''
       | Some i \<Rightarrow> Inr (be_bytes 8 (DelayedMessagesRead m) @ L2msg i)),
     rlp_decode_message = (\<lambda>bs. if length bs < 8 then Inl ''rlp: too few elements''
                               else Inr (sample_msg (be_word (take 8 bs)) (drop 8 bs))),
     rlp_encode_incoming = (\<lambda>i. Inr (L2msg i)),
     json_marshal_string = (\<lambda>s. if s = ''V1'' then Inr [34, 86, 49, 34] else Inl ''json''),
     json_unmarshal_string = (\<lambda>bs. if bs = [34, 86, 49, 34] then Inr ''V1'' else Inl ''json''),
     json_marshal_feed = (\<lambda>m. case l1_message (feed_message m) of
         None \<Rightarrow> Inl ''nil message''
       | Some i \<Rightarrow> Inr (be_bytes 8 (SequenceNumber m) @ be_bytes 8 (u64_len (Signature m) :: u64)
                        @ Signature m @ L2msg i)),
     json_unmarshal_feed = (\<lambda>bs.
         if length bs < 16 then Inl ''json''
         else let k = unat (be_word (take 8 (drop 8 bs)) :: u64)
              in Inr (sample_feed (be_word (take 8 bs)) (take k (drop 16 bs)) (drop (16 + k) bs))),
     Keccak256Hash = sample_hash,
     sig_to_pub = (\<lambda>h sg. if length sg = 65 \<and> take 32 sg = be_bytes 32 h
                          then Inr (be_word (take 20 (drop 32 sg))) else Inl ''invalid signature''),
     pubkey_to_address = (\<lambda>a. a),
     HexToAddress = (\<lambda>s. of_nat (length s))\<rparr>"

lemma sample_rlp [simp]:
  "rlp_encode_message sample_nitro (sample_msg d l2) = Inr (be_bytes 8 d @ l2)"
  "rlp_decode_message sample_nitro (be_bytes 8 d @ l2) = Inr (sample_msg d l2)"
  by (simp_all add: sample_nitro_def sample_msg_def sample_incoming_def)

lemma sample_json [simp]:
  "json_marshal_string sample_nitro ''V1'' = Inr [34, 86, 49, 34]"
  "json_unmarshal_string sample_nitro [34, 86, 49, 34] = Inr ''V1''"
  "json_marshal_feed sample_nitro (sample_feed n sg l2)
    = Inr (be_bytes 8 n @ be_bytes 8 (u64_len sg :: u64) @ sg @ l2)"
  by (simp_all add: sample_nitro_def sample_feed_def sample_msg_def sample_incoming_def)

lemma sample_json_feed [simp]:
  "length sg < 2 ^ 63 \<Longrightarrow>
    json_unmarshal_feed sample_nitro (be_bytes 8 n @ be_bytes 8 (u64_len sg :: u64) @ sg @ l2)
      = Inr (sample_feed n sg l2)"
  by (simp add: sample_nitro_def)

lemma length_sample_sign [simp]: "length (sample_sign a h) = 65"
  by (simp add: sample_sign_def)

lemma sample_sign_nonempty [simp]: "sample_sign a h \<noteq> []"
  by (simp add: sample_sign_def)

lemma sample_recover [simp]:
  "sig_to_pub sample_nitro h (sample_sign a h) = Inr a"
  "pubkey_to_address sample_nitro a = a"
  by (simp_all add: sample_nitro_def sample_sign_def)

end
