(* ===== verification/Nitro_Payload.thy ===== *)
theory Nitro_Payload
  imports Nitro_V0_Frames Nitro_Sample
begin

text \<open>
  \<open>BuildRawHotShotPayload\<close> and \<open>SignHotShotPayload\<close> of \<open>nitro/utils.go\<close>, the writers of the
  version 0 payload, and the round trips between them, the version 0 encoder and the parser.
\<close>

definition MAX_ATTESTATION_QUOTE_SIZE :: int where
  "MAX_ATTESTATION_QUOTE_SIZE = 4 * 1024"

section \<open>Building and signing\<close>

text \<open>The loop over the positions; a fetch that fails or a message that does not fit ends it.\<close>

fun build_loop ::
  "(u64 \<Rightarrow> nitro_err + bytes) \<Rightarrow> int \<Rightarrow> u64 list \<Rightarrow> bytes \<Rightarrow> nat \<Rightarrow> bytes \<times> nat" where
  "build_loop msgFetcher maxSize [] payload msgCnt = (payload, msgCnt)"
| "build_loop msgFetcher maxSize (p # ps) payload msgCnt =
    (case msgFetcher p of
       Inl err \<Rightarrow> (payload, msgCnt)
     | Inr msgBytes \<Rightarrow>
         if int (length payload) + 8 + int (length msgBytes) + 8 + MAX_ATTESTATION_QUOTE_SIZE > maxSize
         then (payload, msgCnt)
         else
           build_loop msgFetcher maxSize ps
             (((payload @ be_bytes 8 p) @ be_bytes 8 (u64_len msgBytes :: u64)) @ msgBytes)
             (msgCnt + 1))"

definition BuildRawHotShotPayload ::
  "u64 list \<Rightarrow> (u64 \<Rightarrow> nitro_err + bytes) \<Rightarrow> int \<Rightarrow> bytes \<times> nat" where
  "BuildRawHotShotPayload msgPositions msgFetcher maxSize = build_loop msgFetcher maxSize msgPositions [] 0"

definition SignHotShotPayload ::
  "bytes \<Rightarrow> (bytes \<Rightarrow> nitro_err + bytes) \<Rightarrow> nitro_err + bytes" where
  "SignHotShotPayload payload signer =
    (case signer payload of
       Inl err \<Rightarrow> Inl err
     | Inr quote \<Rightarrow> Inr ((be_bytes 8 (u64_len quote :: u64) @ quote) @ payload))"

section \<open>What is built\<close>

text \<open>The frame of a position whose message was fetched.\<close>

definition fetched :: "(u64 \<Rightarrow> nitro_err + bytes) \<Rightarrow> u64 \<Rightarrow> u64 \<times> bytes" where
  "fetched f p = (p, case f p of Inl _ \<Rightarrow> [] | Inr bs \<Rightarrow> bs)"

lemma fetched_Inr: "f p = Inr bs \<Longrightarrow> fetched f p = (p, bs)"
  by (simp add: fetched_def)

lemma build_loop_spec:
  assumes "build_loop f maxSize ps payload cnt = (payload', cnt')"
  shows "\<exists>k. k \<le> length ps \<and> cnt' = cnt + k
    \<and> payload' = payload @ v0_frames (map (fetched f) (take k ps))
    \<and> (\<forall>p \<in> set (take k ps). \<exists>bs. f p = Inr bs)
    \<and> (0 < k \<longrightarrow> int (length payload') + MAX_ATTESTATION_QUOTE_SIZE \<le> maxSize)
    \<and> (k < length ps \<longrightarrow> (case f (ps ! k) of
          Inl _ \<Rightarrow> True
        | Inr bs \<Rightarrow> int (length (payload' @ v0_frame (ps ! k, bs))) + MAX_ATTESTATION_QUOTE_SIZE > maxSize))"
  using assms
proof (induction ps arbitrary: payload cnt)
  case Nil
  then show ?case by simp
next
  case (Cons p ps)
  show ?case
  proof (cases "f p")
    case (Inl err)
    with Cons.prems show ?thesis by (intro exI [of _ 0]) simp
  next
    case (Inr bs)
    let ?next = "payload @ v0_frame (p, bs)"
    show ?thesis
    proof (cases "int (length payload) + 8 + int (length bs) + 8 + MAX_ATTESTATION_QUOTE_SIZE > maxSize")
      case True
      with Inr Cons.prems show ?thesis by (intro exI [of _ 0]) simp
    next
      case False
      with Inr Cons.prems have "build_loop f maxSize ps ?next (cnt + 1) = (payload', cnt')"
        by (simp add: v0_frame_def)
      from Cons.IH [OF this] obtain k where k: "k \<le> length ps" "cnt' = cnt + 1 + k"
        "payload' = ?next @ v0_frames (map (fetched f) (take k ps))"
        "\<forall>p \<in> set (take k ps). \<exists>bs. f p = Inr bs"
        "0 < k \<longrightarrow> int (length payload') + MAX_ATTESTATION_QUOTE_SIZE \<le> maxSize"
        "k < length ps \<longrightarrow> (case f (ps ! k) of
          Inl _ \<Rightarrow> True
        | Inr bs \<Rightarrow> int (length (payload' @ v0_frame (ps ! k, bs))) + MAX_ATTESTATION_QUOTE_SIZE > maxSize)"
        by blast
      have "int (length payload') + MAX_ATTESTATION_QUOTE_SIZE \<le> maxSize"
        using k(3,5) False by (cases "k = 0") simp_all
      with k Inr show ?thesis
        by (intro exI [of _ "Suc k"]) (simp add: fetched_Inr cong: sum.case_cong)
    qed
  qed
qed

text \<open>
  C31. The payload that is built holds the frames of the longest prefix of the positions that
  can be fetched and that leaves room for the largest attestation quote within the size limit:
  the count is the length of the prefix, the payload and the quote fit the limit whenever
  something was added, and the position after the prefix failed to fetch or would have
  exceeded the limit.
\<close>

theorem build_payload_bounds:
  "\<exists>k \<le> length ps. BuildRawHotShotPayload ps f maxSize = (v0_frames (map (fetched f) (take k ps)), k)
    \<and> (\<forall>p \<in> set (take k ps). \<exists>bs. f p = Inr bs)
    \<and> (0 < k \<longrightarrow> int (length (v0_frames (map (fetched f) (take k ps)))) + MAX_ATTESTATION_QUOTE_SIZE \<le> maxSize)
    \<and> (k < length ps \<longrightarrow> (case f (ps ! k) of
          Inl _ \<Rightarrow> True
        | Inr bs \<Rightarrow> int (length (v0_frames (map (fetched f) (take k ps)) @ v0_frame (ps ! k, bs)))
            + MAX_ATTESTATION_QUOTE_SIZE > maxSize))"
proof -
  obtain payload cnt where built: "build_loop f maxSize ps [] 0 = (payload, cnt)" by fastforce
  from build_loop_spec [OF this] obtain k where "k \<le> length ps" "cnt = k"
    "payload = v0_frames (map (fetched f) (take k ps))"
    "\<forall>p \<in> set (take k ps). \<exists>bs. f p = Inr bs"
    "0 < k \<longrightarrow> int (length payload) + MAX_ATTESTATION_QUOTE_SIZE \<le> maxSize"
    "k < length ps \<longrightarrow> (case f (ps ! k) of
          Inl _ \<Rightarrow> True
        | Inr bs \<Rightarrow> int (length (payload @ v0_frame (ps ! k, bs))) + MAX_ATTESTATION_QUOTE_SIZE > maxSize)"
    by auto
  with built show ?thesis
    unfolding BuildRawHotShotPayload_def by blast
qed

theorem build_payload_bounds_witness:
  "BuildRawHotShotPayload [7, 8, 9] (\<lambda>p. Inr (replicate (unat p) 1)) 4143
    = (v0_frame (7, replicate 7 1) @ v0_frame (8, replicate 8 1), 2)"
proof -
  let ?f = "\<lambda>p :: u64. Inr (replicate (unat p) 1) :: nitro_err + bytes"
  let ?fs = "\<lambda>k. v0_frames (map (fetched ?f) (take k [7, 8, 9]))"
  obtain k where k: "k \<le> length [7, 8, 9 :: u64]" "BuildRawHotShotPayload [7, 8, 9] ?f 4143 = (?fs k, k)"
    and fit: "0 < k \<longrightarrow> int (length (?fs k)) + MAX_ATTESTATION_QUOTE_SIZE \<le> 4143"
    and more: "k < length [7, 8, 9 :: u64] \<longrightarrow> (case ?f ([7, 8, 9] ! k) of
          Inl _ \<Rightarrow> True
        | Inr bs \<Rightarrow> int (length (?fs k @ v0_frame ([7, 8, 9] ! k, bs))) + MAX_ATTESTATION_QUOTE_SIZE > 4143)"
    using build_payload_bounds [of "[7, 8, 9]" ?f 4143] by (elim exE conjE) (rule that; assumption)
  from k(1) consider "k = 0" | "k = 1" | "k = 2" | "k = 3" by fastforce
  then have "k = 2"
    by cases (use fit more in \<open>simp_all add: fetched_def MAX_ATTESTATION_QUOTE_SIZE_def\<close>)
  with k(2) show ?thesis by (simp add: fetched_def)
qed

section \<open>Round trips\<close>

lemma decode_v0_frames_fetched:
  assumes "\<And>p. p \<in> set ps \<Longrightarrow> \<exists>bs. f p = Inr bs \<and> bs \<noteq> [] \<and> UnmarshalBinary L bs = Inr (msg p)"
  shows "decode_v0_frames L (map (fetched f) ps) = Inr (map (\<lambda>p. \<lparr>v0_pos = p, v0_message = msg p\<rparr>) ps)"
  using assms
proof (induction ps)
  case Nil
  show ?case by simp
next
  case (Cons p ps)
  from Cons.prems [of p] obtain bs where "f p = Inr bs" "bs \<noteq> []" "UnmarshalBinary L bs = Inr (msg p)"
    by auto
  with Cons.IH Cons.prems show ?case by (simp add: fetched_Inr)
qed

text \<open>What the exact parser says of a payload in the format.\<close>

lemma Unmarshal_v0_payload:
  assumes "length (v0_payload sg fs) < 2 ^ 63" and "decode_v0_frames L fs = Inr ms"
  shows "Unmarshal_v0 L (v0_payload sg fs)
    = Some (Inr \<lparr>v0_signature = sg, v0_hash = Keccak256Hash L (v0_frames fs), v0_messages = ms\<rparr>)"
proof -
  from v0_unmarshal_exact_lemma [OF assms(1), of L] obtain r where "Unmarshal_v0 L (v0_payload sg fs) = Some r"
    and r: "\<And>m. r = Inr m \<longleftrightarrow> (\<exists>fs'. v0_payload sg fs = v0_payload (v0_signature m) fs'
      \<and> decode_v0_frames L fs' = Inr (v0_messages m) \<and> v0_hash m = Keccak256Hash L (v0_frames fs'))"
    by blast
  moreover have "r = Inr \<lparr>v0_signature = sg, v0_hash = Keccak256Hash L (v0_frames fs), v0_messages = ms\<rparr>"
    unfolding r using assms(2) by auto
  ultimately show ?thesis by simp
qed

lemma build_sign_frames:
  assumes "BuildRawHotShotPayload ps f maxSize = (payload, cnt)"
    and "SignHotShotPayload payload signer = Inr data" and "signer payload = Inr quote"
    and "\<And>p bs. p \<in> set ps \<Longrightarrow> f p = Inr bs \<Longrightarrow> bs \<noteq> [] \<and> rlp_decode_message L bs = Inr (msg p)"
  obtains fs where "cnt \<le> length ps" and "payload = v0_frames fs" and "data = v0_payload quote fs"
    and "decode_v0_frames L fs = Inr (map (\<lambda>p. \<lparr>v0_pos = p, v0_message = msg p\<rparr>) (take cnt ps))"
proof -
  from build_loop_spec [OF assms(1) [unfolded BuildRawHotShotPayload_def]]
  have k: "cnt \<le> length ps" "payload = v0_frames (map (fetched f) (take cnt ps))"
    "\<forall>p \<in> set (take cnt ps). \<exists>bs. f p = Inr bs" by auto
  have data: "data = v0_payload quote (map (fetched f) (take cnt ps))"
    using assms(2,3) by (simp add: SignHotShotPayload_def v0_payload_def k(2))
  have "decode_v0_frames L (map (fetched f) (take cnt ps))
      = Inr (map (\<lambda>p. \<lparr>v0_pos = p, v0_message = msg p\<rparr>) (take cnt ps))"
  proof (rule decode_v0_frames_fetched)
    fix p
    assume p: "p \<in> set (take cnt ps)"
    with k(3) obtain bs where "f p = Inr bs" by blast
    with assms(4) [OF in_set_takeD [OF p]]
    show "\<exists>bs. f p = Inr bs \<and> bs \<noteq> [] \<and> UnmarshalBinary L bs = Inr (msg p)"
      by (auto simp: UnmarshalBinary_def)
  qed
  with k data show ?thesis using that by blast
qed

text \<open>
  C17. A payload built from fetched messages and then signed parses back to those messages at
  those positions, in order, with the signature that was made, and with the hash of exactly
  the bytes the signer was given.
\<close>

theorem build_sign_parse:
  assumes "BuildRawHotShotPayload ps f maxSize = (payload, cnt)"
    and "SignHotShotPayload payload signer = Inr data" and "signer payload = Inr quote"
    and "length data < 2 ^ 63"
    and "\<And>p bs. p \<in> set ps \<Longrightarrow> f p = Inr bs \<Longrightarrow> bs \<noteq> [] \<and> rlp_decode_message L bs = Inr (msg p)"
  shows "cnt \<le> length ps \<and> Unmarshal_v0 L data = Some (Inr
    \<lparr>v0_signature = quote, v0_hash = Keccak256Hash L payload,
     v0_messages = map (\<lambda>p. \<lparr>v0_pos = p, v0_message = msg p\<rparr>) (take cnt ps)\<rparr>)"
proof -
  obtain fs where "cnt \<le> length ps" "payload = v0_frames fs" "data = v0_payload quote fs"
    "decode_v0_frames L fs = Inr (map (\<lambda>p. \<lparr>v0_pos = p, v0_message = msg p\<rparr>) (take cnt ps))"
    by (rule build_sign_frames [OF assms(1-3,5)])
  with Unmarshal_v0_payload assms(4) show ?thesis by blast
qed

theorem build_sign_parse_witness:
  "Unmarshal_v0 sample_nitro (v0_payload [1, 2] [(4, be_bytes 8 (1 :: u64) @ [4]), (5, be_bytes 8 (1 :: u64) @ [5])])
    = Some (Inr
      \<lparr>v0_signature = [1, 2],
       v0_hash = sample_hash (v0_frames [(4, be_bytes 8 (1 :: u64) @ [4]), (5, be_bytes 8 (1 :: u64) @ [5])]),
       v0_messages = [\<lparr>v0_pos = 4, v0_message = sample_msg 1 [4]\<rparr>,
                      \<lparr>v0_pos = 5, v0_message = sample_msg 1 [5]\<rparr>]\<rparr>)"
proof -
  let ?f = "\<lambda>p. Inr (be_bytes 8 (1 :: u64) @ [ucast p]) :: nitro_err + bytes"
  let ?fs = "[(4, be_bytes 8 (1 :: u64) @ [4]), (5, be_bytes 8 (1 :: u64) @ [5])] :: (u64 \<times> bytes) list"
  have built: "BuildRawHotShotPayload [4, 5] ?f 5000 = (v0_frames ?fs, 2)"
    by (simp add: BuildRawHotShotPayload_def MAX_ATTESTATION_QUOTE_SIZE_def v0_frame_def
        del: be_bytes.simps)
  have signed: "SignHotShotPayload (v0_frames ?fs) (\<lambda>_. Inr [1, 2]) = Inr (v0_payload [1, 2] ?fs)"
    by (simp add: SignHotShotPayload_def v0_payload_def)
  have small: "length (v0_payload [1, 2] ?fs) < 2 ^ 63" by (simp add: v0_payload_def)
  have rlp: "bs \<noteq> [] \<and> rlp_decode_message sample_nitro bs = Inr (sample_msg 1 [ucast p])"
    if "?f p = Inr bs" for p bs
    using that by (auto simp del: be_bytes.simps)
  have keccak: "Keccak256Hash sample_nitro = sample_hash" by (simp add: sample_nitro_def)
  from build_sign_parse [where msg = "\<lambda>p. sample_msg 1 [ucast p]", OF built signed refl small rlp] show ?thesis
    unfolding keccak by simp
qed

text \<open>
  The encoder of the whole message, against the format. The sizes are those of real messages,
  so that no total comes near \<open>2 ^ 63\<close>.
\<close>

definition v0_small :: "'k nitro_lib \<Rightarrow> v0_signature_and_messages \<Rightarrow> bool" where
  "v0_small L m = (length (v0_signature m) < 2 ^ 30 \<and> length (v0_messages m) < 2 ^ 30
    \<and> (\<forall>msg \<in> set (v0_messages m). case rlp_encode_message L (v0_message msg) of
          Inl _ \<Rightarrow> True | Inr bs \<Rightarrow> length bs < 2 ^ 30))"

lemma v0_frames_length:
  assumes "\<And>p bs. (p, bs) \<in> set fs \<Longrightarrow> length bs < 2 ^ 30"
  shows "length (v0_frames fs) \<le> length fs * 2 ^ 31"
  using assms
proof (induction fs)
  case Nil
  show ?case by simp
next
  case (Cons f fs)
  from Cons.prems have "length (snd f) < 2 ^ 30" by (cases f) auto
  moreover have "length (v0_frames fs) \<le> length fs * 2 ^ 31"
    by (rule Cons.IH) (use Cons.prems in auto)
  ultimately show ?case by simp
qed

lemma encode_v0_contents_sizes:
  assumes "encode_v0_contents L msgs = Inr fs"
  shows "length fs = length msgs
    \<and> (\<forall>(p, bs) \<in> set fs. \<exists>m \<in> set msgs. rlp_encode_message L (v0_message m) = Inr bs)"
  using assms
proof (induction msgs arbitrary: fs)
  case Nil
  then show ?case by simp
next
  case (Cons m msgs)
  from Cons.prems obtain bs gs where "rlp_encode_message L (v0_message m) = Inr bs"
    "encode_v0_contents L msgs = Inr gs" "fs = (v0_pos m, bs) # gs"
    by (auto simp: bind_res_Inr_iff MarshalBinary_def split: sum.splits)
  with Cons.IH [of gs] show ?case by auto
qed

lemma v0_small_payload:
  assumes "v0_small L m" and "encode_v0_contents L (v0_messages m) = Inr fs"
  shows "length (v0_payload (v0_signature m) fs) < 2 ^ 63"
proof -
  from encode_v0_contents_sizes [OF assms(2)]
  have len: "length fs = length (v0_messages m)"
    and src: "\<And>p bs. (p, bs) \<in> set fs \<Longrightarrow> \<exists>msg \<in> set (v0_messages m). rlp_encode_message L (v0_message msg) = Inr bs"
    by auto
  have "length bs < 2 ^ 30" if "(p, bs) \<in> set fs" for p bs
  proof -
    from src [OF that] obtain msg where msg: "msg \<in> set (v0_messages m)"
      "rlp_encode_message L (v0_message msg) = Inr bs" by blast
    have "case rlp_encode_message L (v0_message msg) of Inl _ \<Rightarrow> True | Inr bs \<Rightarrow> length bs < 2 ^ 30"
      using assms(1) msg(1) unfolding v0_small_def by blast
    with msg(2) show ?thesis by simp
  qed
  then have "length (v0_frames fs) \<le> length fs * 2 ^ 31" by (rule v0_frames_length)
  moreover have "length fs < 2 ^ 30" "length (v0_signature m) < 2 ^ 30"
    using assms(1) len by (simp_all add: v0_small_def)
  ultimately show ?thesis by (simp add: v0_payload_def)
qed

lemma v0_encoder_format:
  assumes "v0_small L m"
  shows "encodeV0SignatureAndMessages L m
    = Some (bind_res (encode_v0_contents L (v0_messages m)) (\<lambda>fs. Inr (v0_payload (v0_signature m) fs)))"
proof (cases "encode_v0_contents L (v0_messages m)")
  case (Inl err)
  have "length bs + 16 < 2 ^ 63"
    if "msg \<in> set (v0_messages m)" "MarshalBinary L (v0_message msg) = Inr bs" for msg bs
  proof -
    have "case rlp_encode_message L (v0_message msg) of Inl _ \<Rightarrow> True | Inr bs \<Rightarrow> length bs < 2 ^ 30"
      using assms that(1) unfolding v0_small_def by blast
    with that(2) show ?thesis by (auto simp: MarshalBinary_def split: sum.splits)
  qed
  with Inl have "encode_v0_frames L (v0_messages m) [] 0 = Some (Inl err)"
    by (rule encode_v0_frames_error)
  with Inl show ?thesis
    by (simp add: encodeV0SignatureAndMessages_def encodeV0MessageAndIndexes_def)
next
  case (Inr fs)
  with encodeV0SignatureAndMessages_eq v0_small_payload [OF assms] show ?thesis by simp
qed

text \<open>
  C30. The version 0 encoder equals the format: it writes the signature with its length in front
  and then one frame per message, or fails with the first RLP error. Filling the buffers never
  writes out of bounds, and the length check at its end never fails.
\<close>

theorem v0_encoder_exact:
  assumes "v0_small L m"
  shows "encodeV0SignatureAndMessages L m
    = Some (bind_res (encode_v0_contents L (v0_messages m)) (\<lambda>fs. Inr (v0_payload (v0_signature m) fs)))"
  using assms by (rule v0_encoder_format)

definition sample_v0 :: v0_signature_and_messages where
  "sample_v0 = \<lparr>v0_signature = replicate 65 1, v0_hash = 0,
     v0_messages = [\<lparr>v0_pos = 4, v0_message = sample_msg 1 [4]\<rparr>, \<lparr>v0_pos = 5, v0_message = sample_msg 1 [5]\<rparr>]\<rparr>"

lemma sample_v0_small: "v0_small sample_nitro sample_v0"
  by (simp add: v0_small_def sample_v0_def)

theorem v0_encoder_exact_witness:
  "encodeV0SignatureAndMessages sample_nitro sample_v0 = Some (Inr
    (v0_payload (replicate 65 1) [(4, be_bytes 8 (1 :: u64) @ [4]), (5, be_bytes 8 (1 :: u64) @ [5])]))"
  using v0_encoder_exact [OF sample_v0_small]
  by (simp add: sample_v0_def MarshalBinary_def del: be_bytes.simps)

text \<open>Encoding then parsing, when RLP decodes its own encodings.\<close>

lemma decode_encoded_contents:
  assumes "encode_v0_contents L msgs = Inr fs"
    and "\<And>m. m \<in> set msgs \<Longrightarrow> rlp_roundtrip L (v0_message m) \<and> rlp_encode_message L (v0_message m) \<noteq> Inr []"
  shows "decode_v0_frames L fs = Inr msgs"
  using assms
proof (induction msgs arbitrary: fs)
  case Nil
  then show ?case by simp
next
  case (Cons m msgs)
  from Cons.prems(1) obtain bs gs where bs: "rlp_encode_message L (v0_message m) = Inr bs"
    and gs: "encode_v0_contents L msgs = Inr gs" and fs: "fs = (v0_pos m, bs) # gs"
    by (auto simp: bind_res_Inr_iff MarshalBinary_def split: sum.splits)
  from Cons.prems(2) [of m] bs have "bs \<noteq> []" "UnmarshalBinary L bs = Inr (v0_message m)"
    by (auto simp: rlp_roundtrip_def UnmarshalBinary_def)
  with Cons.IH [OF gs] Cons.prems(2) show ?case by (simp add: fs)
qed

theorem v0_encode_parse:
  assumes "v0_small L m" and "encodeV0SignatureAndMessages L m = Some (Inr data)"
    and "\<And>msg. msg \<in> set (v0_messages m) \<Longrightarrow>
      rlp_roundtrip L (v0_message msg) \<and> rlp_encode_message L (v0_message msg) \<noteq> Inr []"
  shows "\<exists>fs. data = v0_payload (v0_signature m) fs
    \<and> Unmarshal_v0 L data = Some (Inr (m\<lparr>v0_hash := Keccak256Hash L (v0_frames fs)\<rparr>))"
proof -
  from assms(2) obtain fs where fs: "encode_v0_contents L (v0_messages m) = Inr fs"
    and data: "data = v0_payload (v0_signature m) fs"
    unfolding v0_encoder_format [OF assms(1)] by (auto simp: bind_res_Inr_iff)
  from Unmarshal_v0_payload [OF v0_small_payload [OF assms(1) fs] decode_encoded_contents [OF fs assms(3)]]
  have "Unmarshal_v0 L data = Some (Inr (m\<lparr>v0_hash := Keccak256Hash L (v0_frames fs)\<rparr>))"
    by (cases m) (simp add: data)
  with data show ?thesis by blast
qed

end
