(* ===== verification/Nitro_V1_Frames.thy ===== *)
theory Nitro_V1_Frames
  imports Nitro_Codec_V1
begin

text \<open>
  The version 1 wire format as a reference definition, with the encoders and the parsers of
  \<open>Nitro_Codec_V1\<close> shown equal to it.
\<close>

section \<open>The format\<close>

definition v1_frame :: "bytes \<Rightarrow> bytes" where
  "v1_frame bs = be_bytes 8 (u64_len bs :: u64) @ bs"

abbreviation v1_frames :: "bytes list \<Rightarrow> bytes" where
  "v1_frames fs \<equiv> concat (map v1_frame fs)"

fun decode_v1_frames :: "'k nitro_lib \<Rightarrow> bytes list \<Rightarrow> codec_error + feed_message list" where
  "decode_v1_frames L [] = Inr []"
| "decode_v1_frames L (bs # fs) =
    (case json_unmarshal_feed L bs of
       Inl err \<Rightarrow> Inl (JsonFailed err)
     | Inr m \<Rightarrow> bind_res (decode_v1_frames L fs) (\<lambda>ms. Inr (m # ms)))"

fun encode_v1_contents :: "'k nitro_lib \<Rightarrow> feed_message list \<Rightarrow> codec_error + bytes list" where
  "encode_v1_contents L [] = Inr []"
| "encode_v1_contents L (m # ms) =
    (case json_marshal_feed L m of
       Inl err \<Rightarrow> Inl (JsonFailed err)
     | Inr bs \<Rightarrow> bind_res (encode_v1_contents L ms) (\<lambda>fs. Inr (bs # fs)))"

lemma length_v1_frame [simp]: "length (v1_frame bs) = 8 + length bs"
  by (simp add: v1_frame_def)

section \<open>Encoding\<close>

lemma encodeEmbeddedJSON_eq:
  assumes "marshal v = Inr bs" and "length bs + 8 < 2 ^ 63"
  shows "encodeEmbeddedJSON marshal v = Some (Inr (v1_frame bs))"
proof -
  have n: "unat (u64_len bs + 8 :: u64) = 8 + length bs"
    using assms(2) by (simp add: unat_word_ariths unat_of_nat take_bit_nat_eq_self)
  then have buf: "make_bytes (u64_len bs + LEN_SIZE) = replicate (8 + length bs) 0"
    by (simp only: make_bytes_def)
  have 1: "put_u64 (replicate (8 + length bs) 0) 0 (u64_len bs)
    = Some (be_bytes 8 (u64_len bs :: u64) @ replicate (length bs) 0)"
    using put_u64_fill [of 0 "[]" "8 + length bs"] by simp
  have 2: "copy_at (be_bytes 8 (u64_len bs :: u64) @ replicate (length bs) 0) 8 bs
    = Some (v1_frame bs, u64_len bs)"
    by (subst copy_at_fill) (simp_all add: v1_frame_def)
  have 3: "8 + u64_len bs = u64_len (replicate (8 + length bs) (0 :: byte))" by simp
  show ?thesis
    by (simp only: encodeEmbeddedJSON_def Let_def assms(1) bind.simps sum.case buf 1 add_0 2 prod.case 3) simp
qed

lemma encode_v1_parts_eq:
  assumes "encode_v1_contents L ms = Inr fs" and "length (v1_frames fs) < 2 ^ 63"
  shows "encode_v1_parts L ms acc sz = Some (Inr (acc @ map v1_frame fs, sz + u64_len (v1_frames fs)))"
  using assms
proof (induction ms arbitrary: fs acc sz)
  case Nil
  then show ?case by simp
next
  case (Cons m ms)
  from Cons.prems(1) obtain bs gs where bs: "json_marshal_feed L m = Inr bs"
    and gs: "encode_v1_contents L ms = Inr gs" and fs: "fs = bs # gs"
    by (auto simp: bind_res_Inr_iff split: sum.splits)
  have "encodeV1BroadcastFeedMessage L m = Some (Inr (v1_frame bs))"
    using Cons.prems(2) bs unfolding encodeV1BroadcastFeedMessage_def
    by (intro encodeEmbeddedJSON_eq) (simp_all add: fs)
  with Cons.IH [OF gs] Cons.prems(2) show ?case by (simp add: fs add.assoc)
qed

lemma encodeV1BroadcastFeedMessages_eq:
  assumes "encode_v1_contents L ms = Inr fs" and "length (v1_frames fs) < 2 ^ 63"
  shows "encodeV1BroadcastFeedMessages L ms = Some (Inr (v1_frames fs))"
proof -
  have "copy_parts (make_bytes (u64_len (v1_frames fs))) 0 (map v1_frame fs)
    = Some (v1_frames fs, u64_len (v1_frames fs))"
    using copy_parts_concat [of "[]" "map v1_frame fs" 0] assms(2) by (simp add: make_bytes_def)
  then show ?thesis
    using encode_v1_parts_eq [OF assms, of "[]" 0] assms(2)
    by (simp add: encodeV1BroadcastFeedMessages_def Let_def)
qed

lemma encodeV1_eq:
  assumes "json_marshal_string L V1Header = Inr hdr" and "encode_v1_contents L (v1_messages m) = Inr fs"
    and "length (v1_frames (hdr # fs)) < 2 ^ 63"
  shows "encodeV1HeaderAndBroadcastMessages L m = Some (Inr (v1_frames (hdr # fs)))"
proof -
  let ?h = "v1_frame hdr" and ?ms = "v1_frames fs"
  have h: "encodeV1Header L = Some (Inr ?h)"
    unfolding encodeV1Header_def using assms(1,3) by (intro encodeEmbeddedJSON_eq) simp_all
  have ms: "encodeV1BroadcastFeedMessages L (v1_messages m) = Some (Inr ?ms)"
    using assms(3) by (intro encodeV1BroadcastFeedMessages_eq assms(2)) simp
  have "unat (u64_len ?h + u64_len ?ms :: u64) = length ?h + length ?ms"
    using assms(3) by (subst unat_add_u64) (simp_all add: unat_word_ariths unat_of_nat take_bit_nat_eq_self)
  then have buf: "make_bytes (u64_len ?h + u64_len ?ms) = replicate (length ?h + length ?ms) 0"
    by (simp only: make_bytes_def)
  have 1: "copy_at (replicate (length ?h + length ?ms) 0) 0 ?h
    = Some (?h @ replicate (length ?ms) 0, u64_len ?h)"
    using copy_at_fill [of 0 "[]" "length ?h + length ?ms" ?h] by simp
  have "length ?h < 2 ^ 63" using assms(3) by simp
  then have "unat (u64_len ?h :: u64) = length ?h" by (rule unat_u64_len)
  then have 2: "copy_at (?h @ replicate (length ?ms) 0) (u64_len ?h) ?ms = Some (?h @ ?ms, u64_len ?ms)"
    by (subst copy_at_fill) simp_all
  have 3: "u64_len (replicate (length ?h + length ?ms) (0 :: byte)) = u64_len ?h + u64_len ?ms"
    by (simp only: length_replicate of_nat_add)
  show ?thesis
    by (simp only: encodeV1HeaderAndBroadcastMessages_def Let_def h ms bind.simps sum.case buf 1 add_0 2 prod.case 3)
      simp
qed

section \<open>Parsing\<close>

lemma parseEmbeddedJSON_frame:
  assumes "length data < 2 ^ 63" and "data = v1_frame bs @ rest"
  shows "parseEmbeddedJSON U data = Some
    (case U bs of Inl err \<Rightarrow> Inl (JsonFailed err, 8 + u64_len bs) | Inr v \<Rightarrow> Inr (v, 8 + u64_len bs))"
proof -
  have data: "data = be_bytes 8 (u64_len bs :: u64) @ bs @ rest"
    using assms(2) by (simp add: v1_frame_def)
  have "slice_from data 0 = Some data" by simp
  then show ?thesis
    by (simp add: parseEmbeddedJSON_def Let_def chunk_reads [OF assms(1) data]
        del: slice_from_eq slice_u64_eq)
qed

lemma parseEmbeddedJSON_short:
  assumes "length data < 2 ^ 63"
  shows "(\<exists>bs rest. data = v1_frame bs @ rest)
    \<or> (\<exists>h w off. parseEmbeddedJSON U data = Some (Inl (NotEnoughBytes h w, off)))"
proof (cases "\<exists>bs rest. data = v1_frame bs @ rest")
  case False
  then have "\<nexists>chunk rest. data = be_bytes 8 (u64_len chunk :: u64) @ chunk @ rest"
    by (simp add: v1_frame_def)
  from no_chunk [OF assms this] show ?thesis
    by (auto simp: parseEmbeddedJSON_def Let_def)
qed simp

lemma parse_v1_loop_end:
  "length data < 2 ^ 63 \<Longrightarrow> unat off = length data \<Longrightarrow> parse_v1_loop L data off ms = Some (Inr (ms, off))"
  by (subst parse_v1_loop.simps) (simp add: word_less_nat_alt)

lemma parse_v1_loop_step:
  assumes "length data < 2 ^ 63" and "unat off < length data"
  shows "parse_v1_loop L data off ms =
    Option.bind (parseV1BroadcastFeedMessage L (drop (unat off) data)) (\<lambda>r.
         case r of
           Inl (err, read) \<Rightarrow> Some (Inl (err, off + read))
         | Inr (m, read) \<Rightarrow> parse_v1_loop L data (off + read) (ms @ [m]))"
  using assms by (subst parse_v1_loop.simps) (simp add: word_less_nat_alt)

lemma parse_v1_loop_frame:
  assumes "length data < 2 ^ 63" and "drop (unat off) data = v1_frame bs @ rest"
    and "unat off \<le> length data"
  shows "parse_v1_loop L data off ms =
      (case json_unmarshal_feed L bs of
         Inl err \<Rightarrow> Some (Inl (JsonFailed err, off + (8 + u64_len bs)))
       | Inr m \<Rightarrow> parse_v1_loop L data (off + (8 + u64_len bs)) (ms @ [m]))"
    and "unat (off + (8 + u64_len bs)) = unat off + (8 + length bs)"
    and "unat off + (8 + length bs) \<le> length data"
    and "drop (unat (off + (8 + u64_len bs))) data = rest"
proof -
  have len: "length data - unat off = 8 + length bs + length rest"
    using arg_cong [OF assms(2), of length] by simp
  then show le: "unat off + (8 + length bs) \<le> length data" by simp
  have "unat (8 + u64_len bs :: u64) = 8 + length bs"
    using le assms(1) by (subst unat_add_u64) simp_all
  then show off: "unat (off + (8 + u64_len bs)) = unat off + (8 + length bs)"
    using le assms(1) by (subst unat_add_u64) simp_all
  have "drop (unat off + (8 + length bs)) data = drop (8 + length bs) (drop (unat off) data)"
    by (simp add: add.commute)
  then show "drop (unat (off + (8 + u64_len bs))) data = rest"
    unfolding off assms(2) by (simp add: v1_frame_def)
  have "length (drop (unat off) data) < 2 ^ 63" using assms(1) by simp
  from parseEmbeddedJSON_frame [OF this assms(2), of "json_unmarshal_feed L"] show "parse_v1_loop L data off ms =
      (case json_unmarshal_feed L bs of
         Inl err \<Rightarrow> Some (Inl (JsonFailed err, off + (8 + u64_len bs)))
       | Inr m \<Rightarrow> parse_v1_loop L data (off + (8 + u64_len bs)) (ms @ [m]))"
    using le assms(1)
    by (subst parse_v1_loop_step) (simp_all add: parseV1BroadcastFeedMessage_def split: sum.split)
qed

lemma parse_v1_loop_accepts:
  assumes "length data < 2 ^ 63" and "drop (unat off) data = v1_frames fs" and "unat off \<le> length data"
  shows "case decode_v1_frames L fs of
      Inr ms' \<Rightarrow> parse_v1_loop L data off ms = Some (Inr (ms @ ms', u64_len data))
    | Inl err \<Rightarrow> \<exists>n. parse_v1_loop L data off ms = Some (Inl (err, n))"
  using assms(2,3)
proof (induction fs arbitrary: off ms)
  case Nil
  then have "unat off = length data" by simp
  then show ?case using parse_v1_loop_end [OF assms(1)] unat_eqD by fastforce
next
  case (Cons bs fs)
  have fr: "drop (unat off) data = v1_frame bs @ v1_frames fs" using Cons.prems(1) by simp
  define off' where "off' = off + (8 + u64_len bs)"
  note run = parse_v1_loop_frame(1) [OF assms(1) fr Cons.prems(2), of L ms, folded off'_def]
  note off = parse_v1_loop_frame(2-) [OF assms(1) fr Cons.prems(2), folded off'_def]
  have IH: "case decode_v1_frames L fs of
      Inr ms'' \<Rightarrow> parse_v1_loop L data off' ms' = Some (Inr (ms' @ ms'', u64_len data))
    | Inl err \<Rightarrow> \<exists>n. parse_v1_loop L data off' ms' = Some (Inl (err, n))" for ms'
    using off(1,2) by (intro Cons.IH [OF off(3)]) simp
  show ?case
  proof (cases "json_unmarshal_feed L bs")
    case (Inl err)
    with run show ?thesis by simp
  next
    case (Inr m)
    with run IH [of "ms @ [m]"] show ?thesis by (cases "decode_v1_frames L fs") simp_all
  qed
qed

lemma parse_v1_loop_total:
  assumes "length data < 2 ^ 63" and "unat off \<le> length data"
  shows "(\<exists>fs. drop (unat off) data = v1_frames fs)
    \<or> (\<exists>err n. parse_v1_loop L data off ms = Some (Inl (err, n)))"
  using assms(2)
proof (induction "length data - unat off" arbitrary: off ms rule: less_induct)
  case less
  show ?case
  proof (cases "unat off = length data")
    case True
    then have "drop (unat off) data = v1_frames []" by simp
    then show ?thesis by blast
  next
    case False
    with less.prems have lt: "unat off < length data" by simp
    have "length (drop (unat off) data) < 2 ^ 63" using assms(1) by simp
    from parseEmbeddedJSON_short [OF this, of "json_unmarshal_feed L"] show ?thesis
    proof (elim disjE exE)
      fix bs rest
      assume fr: "drop (unat off) data = v1_frame bs @ rest"
      note run = parse_v1_loop_frame(1) [OF assms(1) fr less.prems, of L ms]
      note off = parse_v1_loop_frame(2-) [OF assms(1) fr less.prems]
      have IH: "(\<exists>fs. drop (unat (off + (8 + u64_len bs))) data = v1_frames fs)
        \<or> (\<exists>err n. parse_v1_loop L data (off + (8 + u64_len bs)) ms' = Some (Inl (err, n)))" for ms'
        using off(1,2) lt by (intro less.hyps) simp_all
      have "\<exists>fs. drop (unat off) data = v1_frames fs" if "rest = v1_frames fs" for fs
        using that fr by (intro exI [of _ "bs # fs"]) simp
      with IH [of "ms @ [m]" for m] show ?thesis
        unfolding run off(3) by (cases "json_unmarshal_feed L bs") auto
    next
      fix h w n
      assume "parseEmbeddedJSON (json_unmarshal_feed L) (drop (unat off) data) = Some (Inl (NotEnoughBytes h w, n))"
      then show ?thesis
        using parse_v1_loop_step [OF assms(1) lt, of L ms] by (simp add: parseV1BroadcastFeedMessage_def)
    qed
  qed
qed

lemma parseV1BroadcastFeedMessages_accepts:
  assumes "length data < 2 ^ 63" and "data = v1_frames fs"
  shows "decode_v1_frames L fs = Inr ms
      \<Longrightarrow> parseV1BroadcastFeedMessages L data = Some (Inr (ms, u64_len data))"
    and "decode_v1_frames L fs = Inl err
      \<Longrightarrow> \<exists>n. parseV1BroadcastFeedMessages L data = Some (Inl (err, n))"
proof -
  have "drop (unat 0) data = v1_frames fs" using assms(2) by simp
  from parse_v1_loop_accepts [OF assms(1) this, of L "[]"]
  show "decode_v1_frames L fs = Inr ms
      \<Longrightarrow> parseV1BroadcastFeedMessages L data = Some (Inr (ms, u64_len data))"
    and "decode_v1_frames L fs = Inl err
      \<Longrightarrow> \<exists>n. parseV1BroadcastFeedMessages L data = Some (Inl (err, n))"
    unfolding parseV1BroadcastFeedMessages_def append_Nil by simp_all
qed

lemma parseV1BroadcastFeedMessages_total:
  assumes "length data < 2 ^ 63"
  shows "parseV1BroadcastFeedMessages L data \<noteq> None"
    and "parseV1BroadcastFeedMessages L data = Some (Inr (ms, n))
      \<Longrightarrow> n = u64_len data \<and> (\<exists>fs. data = v1_frames fs \<and> decode_v1_frames L fs = Inr ms)"
proof -
  note total = parse_v1_loop_total [OF assms, of 0 L "[]", folded parseV1BroadcastFeedMessages_def]
  show "parseV1BroadcastFeedMessages L data \<noteq> None"
  proof (cases "\<exists>fs. data = v1_frames fs")
    case True
    then obtain fs where "data = v1_frames fs" by blast
    from parseV1BroadcastFeedMessages_accepts [OF assms this, of L] show ?thesis
      by (cases "decode_v1_frames L fs") auto
  qed (use total in auto)
  assume run: "parseV1BroadcastFeedMessages L data = Some (Inr (ms, n))"
  with total obtain fs where fs: "data = v1_frames fs" by auto
  note acc = parseV1BroadcastFeedMessages_accepts [OF assms fs]
  show "n = u64_len data \<and> (\<exists>fs. data = v1_frames fs \<and> decode_v1_frames L fs = Inr ms)"
  proof (cases "decode_v1_frames L fs")
    case (Inl err)
    with acc(2) run show ?thesis by fastforce
  next
    case (Inr ms')
    with acc(1) run fs show ?thesis by fastforce
  qed
qed

section \<open>The whole payload\<close>

lemma parseV1Header_frame:
  assumes "length data < 2 ^ 63" and "data = v1_frame hdr @ rest"
  shows "parseV1Header L data = Some
    (case json_unmarshal_string L hdr of
       Inl err \<Rightarrow> Inl (JsonFailed err, 8 + u64_len hdr)
     | Inr s \<Rightarrow> if s \<noteq> V1Header then Inl (VersionMismatch s, 8 + u64_len hdr) else Inr (s, 8 + u64_len hdr))"
  unfolding parseV1Header_def parseEmbeddedJSON_frame [OF assms]
  by (simp split: sum.split)

lemma Unmarshal_v1_frame:
  assumes "length data < 2 ^ 63" and "data = v1_frame hdr @ rest"
  shows "Unmarshal_v1 L data =
    (case json_unmarshal_string L hdr of
       Inl err \<Rightarrow> Some (Inl (JsonFailed err))
     | Inr s \<Rightarrow>
         if s \<noteq> V1Header then Some (Inl (VersionMismatch s))
         else map_option (\<lambda>r. case r of Inl (err, _) \<Rightarrow> Inl err | Inr (ms, _) \<Rightarrow> Inr \<lparr>v1_messages = ms\<rparr>)
                (parseV1BroadcastFeedMessages L rest))"
proof -
  have "slice_from data 0 = Some data" by simp
  moreover have "slice_from data (8 + u64_len hdr) = Some rest"
    using assms(2) by (intro chunk_reads(8) [OF assms(1)]) (simp add: v1_frame_def)
  ultimately show ?thesis
    by (cases "json_unmarshal_string L hdr"; cases "parseV1BroadcastFeedMessages L rest")
      (auto simp: Unmarshal_v1_def parseV1HeaderAndBroadcastFeedMessages_def Let_def
        parseV1Header_frame [OF assms] simp del: slice_from_eq split: sum.split)
qed

lemma Unmarshal_v1_short:
  assumes "length data < 2 ^ 63" and "\<nexists>hdr rest. data = v1_frame hdr @ rest"
  shows "\<exists>h w. Unmarshal_v1 L data = Some (Inl (NotEnoughBytes h w))"
proof -
  from parseEmbeddedJSON_short [OF assms(1), of "json_unmarshal_string L"] assms(2)
  obtain h w off where "parseEmbeddedJSON (json_unmarshal_string L) data = Some (Inl (NotEnoughBytes h w, off))"
    by blast
  then show ?thesis
    by (simp add: Unmarshal_v1_def parseV1HeaderAndBroadcastFeedMessages_def parseV1Header_def)
qed

lemma v1_frame_inj:
  assumes "length bs < 2 ^ 63" "length bs' < 2 ^ 63" and "v1_frame bs @ rest = v1_frame bs' @ rest'"
  shows "bs = bs' \<and> rest = rest'"
  using assms(3) by (intro chunk_inj [OF assms(1,2)]) (simp add: v1_frame_def)

lemma v1_unmarshal_exact_lemma:
  assumes "length data < 2 ^ 63"
  shows "\<exists>r. Unmarshal_v1 L data = Some r
    \<and> (\<forall>m. r = Inr m \<longleftrightarrow>
        (\<exists>hdr fs. data = v1_frames (hdr # fs) \<and> json_unmarshal_string L hdr = Inr V1Header
          \<and> decode_v1_frames L fs = Inr (v1_messages m)))"
proof (cases "\<exists>hdr rest. data = v1_frame hdr @ rest")
  case False
  then have "data \<noteq> v1_frames (hdr # fs)" for hdr fs by simp
  with Unmarshal_v1_short [OF assms False, of L] show ?thesis by auto
next
  case True
  then obtain hdr rest where data: "data = v1_frame hdr @ rest" by blast
  have len: "length data = 8 + length hdr + length rest" using arg_cong [OF data, of length] by simp
  then have rest: "length rest < 2 ^ 63" using assms by simp
  have split: "data = v1_frames (hdr' # fs) \<longleftrightarrow> hdr' = hdr \<and> rest = v1_frames fs" for hdr' fs
  proof
    assume eq: "data = v1_frames (hdr' # fs)"
    have "length hdr < 2 ^ 63" "length hdr' < 2 ^ 63"
      using assms len arg_cong [OF eq, of length] by simp_all
    moreover have "v1_frame hdr @ rest = v1_frame hdr' @ v1_frames fs"
      using data eq by (simp only: list.map concat.simps)
    ultimately show "hdr' = hdr \<and> rest = v1_frames fs" using v1_frame_inj by blast
  qed (simp add: data)
  show ?thesis
  proof (cases "json_unmarshal_string L hdr = Inr V1Header")
    case False
    then have "\<exists>err. Unmarshal_v1 L data = Some (Inl err)"
      unfolding Unmarshal_v1_frame [OF assms data] by (cases "json_unmarshal_string L hdr") auto
    with False show ?thesis unfolding split by auto
  next
    case hdr: True
    obtain r where r: "parseV1BroadcastFeedMessages L rest = Some r"
      using parseV1BroadcastFeedMessages_total(1) [OF rest, of L] by blast
    have run: "Unmarshal_v1 L data
        = Some (case r of Inl (err, _) \<Rightarrow> Inl err | Inr (ms, _) \<Rightarrow> Inr \<lparr>v1_messages = ms\<rparr>)"
      unfolding Unmarshal_v1_frame [OF assms data] hdr r by simp
    show ?thesis
    proof (cases r)
      case (Inl e)
      have "decode_v1_frames L fs \<noteq> Inr ms" if "rest = v1_frames fs" for fs ms
        using parseV1BroadcastFeedMessages_accepts(1) [OF rest that, of L ms] r Inl by auto
      then show ?thesis unfolding run split using Inl by (cases e) auto
    next
      case (Inr v)
      obtain ms n where v: "v = (ms, n)" by (cases v)
      with r Inr parseV1BroadcastFeedMessages_total(2) [OF rest, of L ms n]
      obtain fs where fs: "rest = v1_frames fs" "decode_v1_frames L fs = Inr ms" by auto
      have uniq: "ms' = ms" if "rest = v1_frames fs'" "decode_v1_frames L fs' = Inr ms'" for fs' ms'
        using parseV1BroadcastFeedMessages_accepts(1) [OF rest that] r Inr v by simp
      have "(\<exists>hdr' fs. (hdr' = hdr \<and> rest = v1_frames fs) \<and> json_unmarshal_string L hdr' = Inr V1Header
          \<and> decode_v1_frames L fs = Inr (v1_messages m)) \<longleftrightarrow> v1_messages m = ms" for m
        using fs uniq hdr by metis
      moreover have "Inr \<lparr>v1_messages = ms\<rparr> = (Inr m :: codec_error + _) \<longleftrightarrow> v1_messages m = ms" for m
        by (cases m) auto
      ultimately show ?thesis
        unfolding run split Inr v sum.case prod.case
        by (intro exI [where x = "Inr \<lparr>v1_messages = ms\<rparr>"] conjI refl allI) (rule trans, assumption, rule sym)
    qed
  qed
qed

lemma decode_encoded_v1:
  assumes "encode_v1_contents L ms = Inr fs"
    and "\<And>m bs. m \<in> set ms \<Longrightarrow> json_marshal_feed L m = Inr bs \<Longrightarrow> json_unmarshal_feed L bs = Inr m"
  shows "decode_v1_frames L fs = Inr ms"
  using assms
proof (induction ms arbitrary: fs)
  case Nil
  then show ?case by simp
next
  case (Cons m ms)
  from Cons.prems(1) obtain bs gs where "json_marshal_feed L m = Inr bs"
    "encode_v1_contents L ms = Inr gs" "fs = bs # gs"
    by (auto simp: bind_res_Inr_iff split: sum.splits)
  moreover from this Cons.prems(2) have "json_unmarshal_feed L bs = Inr m" by simp
  moreover have "decode_v1_frames L gs = Inr ms"
    using calculation(2) Cons.prems(2) by (intro Cons.IH) simp_all
  ultimately show ?case by simp
qed

lemma v1_encode_parse:
  assumes "json_marshal_string L V1Header = Inr hdr" and "json_unmarshal_string L hdr = Inr V1Header"
    and "encode_v1_contents L (v1_messages m) = Inr fs" and "length (v1_frames (hdr # fs)) < 2 ^ 63"
    and "\<And>msg bs. msg \<in> set (v1_messages m) \<Longrightarrow> json_marshal_feed L msg = Inr bs
      \<Longrightarrow> json_unmarshal_feed L bs = Inr msg"
  shows "encodeV1HeaderAndBroadcastMessages L m = Some (Inr (v1_frames (hdr # fs)))
    \<and> Unmarshal_v1 L (v1_frames (hdr # fs)) = Some (Inr m)"
proof -
  from v1_unmarshal_exact_lemma [OF assms(4), of L] obtain r where
    r: "Unmarshal_v1 L (v1_frames (hdr # fs)) = Some r"
    and ex: "\<And>m. r = Inr m \<longleftrightarrow>
        (\<exists>hdr' fs'. v1_frames (hdr # fs) = v1_frames (hdr' # fs') \<and> json_unmarshal_string L hdr' = Inr V1Header
          \<and> decode_v1_frames L fs' = Inr (v1_messages m))" by blast
  have "r = Inr m"
    unfolding ex using assms(2) decode_encoded_v1 [OF assms(3,5)] by blast
  with r encodeV1_eq [OF assms(1,3,4)] show ?thesis by simp
qed

end
