(* ===== verification/Nitro_Monitor.thy ===== *)
theory Nitro_Monitor
  imports Nitro_Types
begin

text \<open>
  \<open>nitro/batch_addr_monitor.go\<close>, the addresses that may sign and the L1 heights they may sign
  for, and \<open>logDebouncer\<close> of \<open>nitro/utils.go\<close>, which thins out the log of a repeating error.
\<close>

section \<open>Batcher addresses\<close>

record addr_range_config =             \<comment> \<open>\<open>AddressValidRangeConfig\<close>\<close>
  cfg_address :: string
  cfg_from :: u64
  cfg_to :: u64

record addr_range =                    \<comment> \<open>\<open>AddressValidRange\<close>\<close>
  ar_address :: address
  ar_from :: u64
  ar_to :: u64

type_synonym addr_monitor = "addr_range list"   \<comment> \<open>\<open>BatcherAddrMonitor\<close>\<close>

definition isValidAt :: "addr_range \<Rightarrow> address \<Rightarrow> u64 \<Rightarrow> bool" where
  "isValidAt a addr l1Height = (ar_address a = addr \<and> l1Height \<ge> ar_from a \<and> l1Height \<le> ar_to a)"

definition NewBatcherAddressMonitor :: "'k nitro_lib \<Rightarrow> addr_range_config list \<Rightarrow> addr_monitor" where
  "NewBatcherAddressMonitor L cfgs =
    map (\<lambda>cfg. \<lparr>ar_address = HexToAddress L (cfg_address cfg), ar_from = cfg_from cfg, ar_to = cfg_to cfg\<rparr>) cfgs"

fun IsValid :: "addr_monitor \<Rightarrow> address \<Rightarrow> u64 \<Rightarrow> bool" where
  "IsValid [] batcherAddress l1Height = False"
| "IsValid (a # as) batcherAddress l1Height =
    (if isValidAt a batcherAddress l1Height then True else IsValid as batcherAddress l1Height)"

lemma IsValid_iff: "IsValid m addr h \<longleftrightarrow> (\<exists>a \<in> set m. isValidAt a addr h)"
  by (induction m) auto

lemma IsValid_monitor:
  "IsValid (NewBatcherAddressMonitor L cfgs) addr h \<longleftrightarrow>
    (\<exists>cfg \<in> set cfgs. HexToAddress L (cfg_address cfg) = addr \<and> cfg_from cfg \<le> h \<and> h \<le> cfg_to cfg)"
  by (auto simp: IsValid_iff NewBatcherAddressMonitor_def isValidAt_def)

section \<open>Debounced logging\<close>

datatype log_level = NoLog | LogWarn | LogError

text \<open>
  The two enums that \<open>debounce\<close> returns have three used combinations. A time is an integer
  reading of the clock, the zero time is \<open>None\<close>.
\<close>

record log_debouncer =
  firstSeen :: "int option"
  lastLog :: "int option"
  duration :: int
  interval :: int

text \<open>\<open>now\<close> is the first reading of the clock in the call, \<open>t1\<close> and \<open>t2\<close> those of the two \<open>time.Since\<close>.\<close>

definition debounce :: "log_debouncer \<Rightarrow> int \<Rightarrow> int \<Rightarrow> int \<Rightarrow> log_level \<times> log_debouncer" where
  "debounce e now t1 t2 =
    (let e = (case firstSeen e of None \<Rightarrow> e\<lparr>firstSeen := Some now\<rparr> | Some _ \<Rightarrow> e)
     in if t1 - the (firstSeen e) \<ge> duration e then (LogError, e)
        else if (case lastLog e of None \<Rightarrow> True | Some l \<Rightarrow> t2 - l \<ge> interval e)
        then (LogWarn, e\<lparr>lastLog := Some now\<rparr>)
        else (NoLog, e))"

definition reset_debouncer :: "log_debouncer \<Rightarrow> log_debouncer" where
  "reset_debouncer e = e\<lparr>firstSeen := None, lastLog := None\<rparr>"

text \<open>A run of failures without a success in between: the levels of the successive calls.\<close>

fun debounce_run :: "log_debouncer \<Rightarrow> (int \<times> int \<times> int) list \<Rightarrow> log_level list" where
  "debounce_run e [] = []"
| "debounce_run e ((now, t1, t2) # calls) =
    (let (l, e') = debounce e now t1 t2 in l # debounce_run e' calls)"

lemma debounce_fields:
  "debounce e now t1 t2 = (l, e') \<Longrightarrow>
    duration e' = duration e \<and> interval e' = interval e
    \<and> firstSeen e' = Some (case firstSeen e of None \<Rightarrow> now | Some t \<Rightarrow> t)"
  by (auto simp: debounce_def Let_def split: option.splits if_splits)

lemma debounce_error_iff:
  "fst (debounce e now t1 t2) = LogError \<longleftrightarrow>
    t1 - (case firstSeen e of None \<Rightarrow> now | Some t \<Rightarrow> t) \<ge> duration e"
  by (auto simp: debounce_def Let_def split: option.splits)

text \<open>The error phase begins exactly when the failures have lasted for the grace duration.\<close>

lemma debounce_run_errors:
  assumes "firstSeen e = Some t0" and "i < length calls"
  shows "debounce_run e calls ! i = LogError \<longleftrightarrow> fst (snd (calls ! i)) - t0 \<ge> duration e"
  using assms
proof (induction e calls arbitrary: i rule: debounce_run.induct)
  case (1 e)
  then show ?case by simp
next
  case (2 e now t1 t2 calls)
  obtain l e' where d: "debounce e now t1 t2 = (l, e')" by fastforce
  from debounce_fields [OF d] "2.prems"(1) have e': "firstSeen e' = Some t0" "duration e' = duration e"
    by simp_all
  show ?case
  proof (cases i)
    case 0
    with debounce_error_iff [of e now t1 t2] d "2.prems"(1) show ?thesis by simp
  next
    case (Suc j)
    with "2.IH" [OF d [symmetric] refl, of j] e' "2.prems"(2) d show ?thesis by simp
  qed
qed

end
