(* ===== verification/Nitro_Messages.thy ===== *)
theory Nitro_Messages
  imports Nitro_V1_Frames Nitro_Payload Nitro_Monitor
begin

text \<open>
  The rest of \<open>nitro/utils.go\<close>: the two hashes of a feed message, the verification of
  signatures, the iterators over the messages of a payload, and the dispatch on the version
  of a payload. The Keccak state is the bytes written to it.
\<close>

section \<open>Hashes of a feed message\<close>

datatype hash_error =
    MissingL1IncomingMessage u64 u64
  | MissingL1IncomingMessageHeader u64 u64
  | RlpEncodeFailed u64 nitro_err

definition feed_preamble :: bytes where
  "feed_preamble = map of_char ''Arbitrum Nitro Feed:''"

text \<open>\<open>big.Int.Bytes\<close>: the absolute value, big-endian, without leading zeros.\<close>

fun nat_bytes :: "nat \<Rightarrow> bytes" where
  "nat_bytes n = (if n = 0 then [] else nat_bytes (n div 256) @ [of_nat (n mod 256)])"

declare nat_bytes.simps [simp del]

definition big_bytes :: "int \<Rightarrow> bytes" where
  "big_bytes n = nat_bytes (nat \<bar>n\<bar>)"

text \<open>What the hasher of \<open>ComputeBroadcastFeedMessageHashV2\<close> is fed, write by write.\<close>

definition v2_preimage :: "feed_message \<Rightarrow> u64 \<Rightarrow> l1_incoming \<Rightarrow> l1_incoming_header \<Rightarrow> bytes" where
  "v2_preimage message chainID l1Msg header =
    feed_preamble
    @ be_bytes 8 chainID
    @ be_bytes 8 (SequenceNumber message)
    @ (case BlockHash message of None \<Rightarrow> [] | Some h \<Rightarrow> be_bytes 32 h)
    @ BlockMetadata message
    @ be_bytes 8 (DelayedMessagesRead (feed_message message))
    @ [Kind header]
    @ be_bytes 20 (Poster header)
    @ be_bytes 8 (BlockNumber header)
    @ be_bytes 8 (Timestamp header)
    @ (case RequestId header of None \<Rightarrow> [] | Some r \<Rightarrow> be_bytes 32 r)
    @ (case L1BaseFee header of None \<Rightarrow> [] | Some n \<Rightarrow> big_bytes n)
    @ L2msg l1Msg"

definition ComputeBroadcastFeedMessageHashV2 ::
  "'k nitro_lib \<Rightarrow> feed_message \<Rightarrow> u64 \<Rightarrow> hash_error + hash" where
  "ComputeBroadcastFeedMessageHashV2 L message chainID =
    (case l1_message (feed_message message) of
       None \<Rightarrow> Inl (MissingL1IncomingMessage (SequenceNumber message) chainID)
     | Some l1Msg \<Rightarrow>
         (case l1m_header l1Msg of
            None \<Rightarrow> Inl (MissingL1IncomingMessageHeader (SequenceNumber message) chainID)
          | Some header \<Rightarrow> Inr (Keccak256Hash L (v2_preimage message chainID l1Msg header))))"

definition v1_preimage :: "feed_message \<Rightarrow> u64 \<Rightarrow> bytes \<Rightarrow> bytes" where
  "v1_preimage message chainID encodedMessage =
    feed_preamble
    @ be_bytes 8 (SequenceNumber message)
    @ be_bytes 8 chainID
    @ be_bytes 8 (DelayedMessagesRead (feed_message message))
    @ encodedMessage"

definition ComputeBroadcastFeedMessageHash ::
  "'k nitro_lib \<Rightarrow> feed_message \<Rightarrow> u64 \<Rightarrow> hash_error + hash" where
  "ComputeBroadcastFeedMessageHash L message chainID =
    (case l1_message (feed_message message) of
       None \<Rightarrow> Inl (MissingL1IncomingMessage (SequenceNumber message) chainID)
     | Some l1Msg \<Rightarrow>
         (case l1m_header l1Msg of
            None \<Rightarrow> Inl (MissingL1IncomingMessageHeader (SequenceNumber message) chainID)
          | Some header \<Rightarrow>
              (case rlp_encode_incoming L l1Msg of
                 Inl err \<Rightarrow> Inl (RlpEncodeFailed (SequenceNumber message) err)
               | Inr encodedMessage \<Rightarrow> Inr (Keccak256Hash L (v1_preimage message chainID encodedMessage)))))"

definition SequencerSignatureAndHasher ::
  "'k nitro_lib \<Rightarrow> feed_message \<Rightarrow> bytes \<times> (feed_message \<Rightarrow> u64 \<Rightarrow> hash_error + hash)" where
  "SequencerSignatureAndHasher L m =
    (if length (Signature m) > 0 then (Signature m, ComputeBroadcastFeedMessageHash L)
     else (SignatureV2 m, ComputeBroadcastFeedMessageHashV2 L))"

section \<open>Signatures\<close>

datatype verify_error =
    MissingSequencerSignature u64
  | HashFailed hash_error
  | PublicKeyFailed nitro_err
  | SigningAddressIsNotValid address u64

text \<open>The validator is the method \<open>IsValid\<close> of the interface \<open>AddressValidator\<close>.\<close>

type_synonym validator = "address \<Rightarrow> u64 \<Rightarrow> bool"

text \<open>The end the two versions share: recover the signer of a hash and ask the validator.\<close>

definition check_signer ::
  "'k nitro_lib \<Rightarrow> validator \<Rightarrow> u64 \<Rightarrow> hash \<Rightarrow> bytes \<Rightarrow> verify_error + unit" where
  "check_signer L valid l1Height h signature =
    (case sig_to_pub L h signature of
       Inl err \<Rightarrow> Inl (PublicKeyFailed err)
     | Inr publicKey \<Rightarrow>
         let addr = pubkey_to_address L publicKey
         in if \<not> valid addr l1Height then Inl (SigningAddressIsNotValid addr l1Height) else Inr ())"

definition VerifySignature_v0 ::
  "'k nitro_lib \<Rightarrow> validator \<Rightarrow> u64 \<Rightarrow> u64 \<Rightarrow> v0_signature_and_messages \<Rightarrow> verify_error + unit" where
  "VerifySignature_v0 L valid chainID l1Height m = check_signer L valid l1Height (v0_hash m) (v0_signature m)"

definition verifyV1Message ::
  "'k nitro_lib \<Rightarrow> validator \<Rightarrow> u64 \<Rightarrow> u64 \<Rightarrow> feed_message \<Rightarrow> verify_error + unit" where
  "verifyV1Message L valid chainID l1Height msg =
    (let (signature, computeHash) = SequencerSignatureAndHasher L msg
     in if length signature = 0 then Inl (MissingSequencerSignature (SequenceNumber msg))
        else
          (case computeHash msg chainID of
             Inl err \<Rightarrow> Inl (HashFailed err)
           | Inr h \<Rightarrow> check_signer L valid l1Height h signature))"

text \<open>The loop of the version 1 \<open>VerifySignature\<close>, which drops the messages that fail.\<close>

fun filter_verified ::
  "'k nitro_lib \<Rightarrow> validator \<Rightarrow> u64 \<Rightarrow> u64 \<Rightarrow> feed_message list \<Rightarrow> feed_message list \<Rightarrow> feed_message list" where
  "filter_verified L valid chainID l1Height [] messages = messages"
| "filter_verified L valid chainID l1Height (msg # msgs) messages =
    (case verifyV1Message L valid chainID l1Height msg of
       Inl err \<Rightarrow> filter_verified L valid chainID l1Height msgs messages
     | Inr _ \<Rightarrow> filter_verified L valid chainID l1Height msgs (messages @ [msg]))"

definition VerifySignature_v1 ::
  "'k nitro_lib \<Rightarrow> validator \<Rightarrow> u64 \<Rightarrow> u64 \<Rightarrow> v1_feed_messages \<Rightarrow> v1_feed_messages" where
  "VerifySignature_v1 L valid chainID l1Height m =
    m\<lparr>v1_messages := filter_verified L valid chainID l1Height (v1_messages m) []\<rparr>"

section \<open>Payloads of either version\<close>

text \<open>The interface \<open>SignatureVerifierAndMessageIterable\<close> and its two implementations.\<close>

datatype nitro_payload = V0Payload v0_signature_and_messages | V1Payload v1_feed_messages

text \<open>Verification returns the payload, because the version 1 method drops messages from it.\<close>

fun VerifySignature ::
  "'k nitro_lib \<Rightarrow> validator \<Rightarrow> u64 \<Rightarrow> u64 \<Rightarrow> nitro_payload \<Rightarrow> verify_error + nitro_payload" where
  "VerifySignature L valid chainID l1Height (V0Payload m) =
    bind_res (VerifySignature_v0 L valid chainID l1Height m) (\<lambda>_. Inr (V0Payload m))"
| "VerifySignature L valid chainID l1Height (V1Payload m) =
    Inr (V1Payload (VerifySignature_v1 L valid chainID l1Height m))"

record v0_iterator = v0it_message :: v0_signature_and_messages  v0it_position :: u64
record v1_iterator = v1it_message :: v1_feed_messages  v1it_position :: u64

datatype message_iterator = V0Iterator v0_iterator | V1Iterator v1_iterator

definition NextMessage_v0 :: "v0_iterator \<Rightarrow> u64 \<Rightarrow> message_and_pos option \<times> v0_iterator" where
  "NextMessage_v0 i hotshotPosition =
    (if v0it_position i \<ge> u64_len (v0_messages (v0it_message i)) then (None, i)
     else
       let index = v0it_position i;
           i = i\<lparr>v0it_position := v0it_position i + 1\<rparr>;
           msg = v0_messages (v0it_message i) ! unat index
       in (Some \<lparr>MessageWithMeta = v0_message msg, Pos = v0_pos msg, HotshotHeight = hotshotPosition\<rparr>, i))"

definition NextMessage_v1 :: "v1_iterator \<Rightarrow> u64 \<Rightarrow> message_and_pos option \<times> v1_iterator" where
  "NextMessage_v1 i hotshotPosition =
    (if v1it_position i \<ge> u64_len (v1_messages (v1it_message i)) then (None, i)
     else
       let index = v1it_position i;
           i = i\<lparr>v1it_position := v1it_position i + 1\<rparr>;
           msg = v1_messages (v1it_message i) ! unat index
       in (Some \<lparr>MessageWithMeta = feed_message msg, Pos = SequenceNumber msg, HotshotHeight = hotshotPosition\<rparr>, i))"

fun NextMessage :: "message_iterator \<Rightarrow> u64 \<Rightarrow> message_and_pos option \<times> message_iterator" where
  "NextMessage (V0Iterator i) h = (let (r, i) = NextMessage_v0 i h in (r, V0Iterator i))"
| "NextMessage (V1Iterator i) h = (let (r, i) = NextMessage_v1 i h in (r, V1Iterator i))"

fun MessageIterator :: "nitro_payload \<Rightarrow> message_iterator" where
  "MessageIterator (V0Payload m) = V0Iterator \<lparr>v0it_message = m, v0it_position = 0\<rparr>"
| "MessageIterator (V1Payload m) = V1Iterator \<lparr>v1it_message = m, v1it_position = 0\<rparr>"

section \<open>Parsing a payload from HotShot\<close>

definition version1HeaderPeek :: bytes where
  "version1HeaderPeek = [0, 0, 0, 0, 0, 0, 0, 4, 34, 86, 49, 34]"

definition version0Peek :: bytes where
  "version0Peek = [0, 0, 0, 0, 0, 0, 0, 65]"

definition HasPrefix :: "bytes \<Rightarrow> bytes \<Rightarrow> bool" where
  "HasPrefix xs p = (take (length p) xs = p)"

definition ParseNitroMessagesFromHotShot ::
  "'k nitro_lib \<Rightarrow> bytes \<Rightarrow> (codec_error + nitro_payload) option" where
  "ParseNitroMessagesFromHotShot L payload =
    (if HasPrefix payload version1HeaderPeek
     then map_option (\<lambda>r. bind_res r (\<lambda>m. Inr (V1Payload m))) (Unmarshal_v1 L payload)
     else if HasPrefix payload version0Peek
     then map_option (\<lambda>r. bind_res r (\<lambda>m. Inr (V0Payload m))) (Unmarshal_v0 L payload)
     else Some (Inl UnknownMessageFormat))"

end
