(* ===== verification/Nitro_Verify.thy ===== *)
theory Nitro_Verify
  imports Nitro_Messages
begin

text \<open>
  What parsing, verifying and iterating a payload do: the parser of either version is total
  and exact, verification keeps the messages of authorised signers, an iterator gives the
  messages in order, and what the two feed hashes bind of a message.
\<close>

section \<open>The list of a payload\<close>

text \<open>The contents of a payload as positions and messages, and what an iterator has left of it.\<close>

fun payload_list :: "nitro_payload \<Rightarrow> (u64 \<times> message_with_metadata) list" where
  "payload_list (V0Payload m) = map (\<lambda>x. (v0_pos x, v0_message x)) (v0_messages m)"
| "payload_list (V1Payload m) = map (\<lambda>x. (SequenceNumber x, feed_message x)) (v1_messages m)"

text \<open>The iterator compares its position with the length as a \<open>uint64\<close>.\<close>

definition counted :: "'a list \<Rightarrow> 'a list" where
  "counted xs = take (unat (u64_len xs :: u64)) xs"

lemma counted_id [simp]: "length xs < 2 ^ 64 \<Longrightarrow> counted xs = xs"
  by (simp add: counted_def)

lemma counted_map: "counted (map f xs) = map f (counted xs)"
  by (simp add: counted_def take_map)

lemma set_counted: "set (counted xs) \<subseteq> set xs"
  by (simp add: counted_def set_take_subset)

fun remaining :: "message_iterator \<Rightarrow> (u64 \<times> message_with_metadata) list" where
  "remaining (V0Iterator i) = drop (unat (v0it_position i)) (counted (payload_list (V0Payload (v0it_message i))))"
| "remaining (V1Iterator i) = drop (unat (v1it_position i)) (counted (payload_list (V1Payload (v1it_message i))))"

lemma remaining_MessageIterator: "remaining (MessageIterator p) = counted (payload_list p)"
  by (cases p) simp_all

lemma drop_counted:
  fixes i :: u64
  shows "i \<ge> u64_len xs \<Longrightarrow> drop (unat i) (counted xs) = []"
    and "\<not> i \<ge> u64_len xs \<Longrightarrow> drop (unat i) (counted xs) = xs ! unat i # drop (unat (i + 1)) (counted xs)"
proof -
  show "i \<ge> u64_len xs \<Longrightarrow> drop (unat i) (counted xs) = []"
    by (simp add: counted_def word_le_nat_alt)
  assume "\<not> i \<ge> u64_len xs"
  then have lt: "unat i < unat (u64_len xs :: u64)" by (simp add: word_le_nat_alt)
  have "unat (u64_len xs :: u64) \<le> length xs"
    by (simp add: unat_of_nat take_bit_nat_less_eq_self)
  with lt have len: "unat i < length (counted xs)" and nth: "counted xs ! unat i = xs ! unat i"
    by (simp_all add: counted_def)
  from lt have "i \<noteq> MaxUint64" using word_order.extremum_strict [of "u64_len xs"] by (auto simp: word_less_nat_alt)
  then have "unat (i + 1) = Suc (unat i)" by (simp add: u_plus_one)
  with Cons_nth_drop_Suc [OF len] nth show "drop (unat i) (counted xs) = xs ! unat i # drop (unat (i + 1)) (counted xs)"
    by simp
qed

section \<open>Iterators\<close>

text \<open>
  The interface \<open>MessageWithPositionIterator\<close>: a call gives the next entry of what is left, or
  reports the end and stays there.
\<close>

locale position_iterator =
  fixes next_message :: "'i \<Rightarrow> u64 \<Rightarrow> message_and_pos option \<times> 'i"
    and left :: "'i \<Rightarrow> (u64 \<times> message_with_metadata) list"
  assumes at_end: "left i = [] \<Longrightarrow> next_message i h = (None, i)"
    and takes_next: "left i = (p, m) # rest \<Longrightarrow>
      \<exists>i'. next_message i h = (Some \<lparr>MessageWithMeta = m, Pos = p, HotshotHeight = h\<rparr>, i') \<and> left i' = rest"
begin

lemma ended_iff: "fst (next_message i h) = None \<longleftrightarrow> left i = []"
proof (cases "left i")
  case (Cons x rest)
  obtain p m where "x = (p, m)" by (cases x)
  with takes_next [of i p m rest h] Cons show ?thesis by auto
qed (simp add: at_end)

lemma shortens: "next_message i h = (Some msg, i') \<Longrightarrow> length (left i') < length (left i)"
proof (cases "left i")
  case (Cons x rest)
  assume n: "next_message i h = (Some msg, i')"
  obtain p m where "x = (p, m)" by (cases x)
  with takes_next [of i p m rest h] Cons n show ?thesis by auto
qed (simp add: at_end)

end

text \<open>Both versions keep an index into their messages.\<close>

interpretation v0_next: position_iterator NextMessage_v0
  "\<lambda>i. drop (unat (v0it_position i)) (counted (payload_list (V0Payload (v0it_message i))))"
proof
  fix i :: v0_iterator and h p m rest
  let ?ms = "v0_messages (v0it_message i)" and ?i = "v0it_position i"
  note dc = drop_counted [of ?ms ?i]
  show "NextMessage_v0 i h = (None, i)" if "drop (unat ?i) (counted (payload_list (V0Payload (v0it_message i)))) = []"
    using that dc by (cases "?i \<ge> u64_len ?ms") (simp_all add: NextMessage_v0_def counted_map drop_map)
  assume "drop (unat ?i) (counted (payload_list (V0Payload (v0it_message i)))) = (p, m) # rest"
  with dc show "\<exists>i'. NextMessage_v0 i h = (Some \<lparr>MessageWithMeta = m, Pos = p, HotshotHeight = h\<rparr>, i')
      \<and> drop (unat (v0it_position i')) (counted (payload_list (V0Payload (v0it_message i')))) = rest"
    by (cases "?i \<ge> u64_len ?ms") (simp_all add: NextMessage_v0_def Let_def counted_map drop_map)
qed

interpretation v1_next: position_iterator NextMessage_v1
  "\<lambda>i. drop (unat (v1it_position i)) (counted (payload_list (V1Payload (v1it_message i))))"
proof
  fix i :: v1_iterator and h p m rest
  let ?ms = "v1_messages (v1it_message i)" and ?i = "v1it_position i"
  note dc = drop_counted [of ?ms ?i]
  show "NextMessage_v1 i h = (None, i)" if "drop (unat ?i) (counted (payload_list (V1Payload (v1it_message i)))) = []"
    using that dc by (cases "?i \<ge> u64_len ?ms") (simp_all add: NextMessage_v1_def counted_map drop_map)
  assume "drop (unat ?i) (counted (payload_list (V1Payload (v1it_message i)))) = (p, m) # rest"
  with dc show "\<exists>i'. NextMessage_v1 i h = (Some \<lparr>MessageWithMeta = m, Pos = p, HotshotHeight = h\<rparr>, i')
      \<and> drop (unat (v1it_position i')) (counted (payload_list (V1Payload (v1it_message i')))) = rest"
    by (cases "?i \<ge> u64_len ?ms") (simp_all add: NextMessage_v1_def Let_def counted_map drop_map)
qed

interpretation nitro_next: position_iterator NextMessage remaining
proof
  fix it :: message_iterator and h p m rest
  show "NextMessage it h = (None, it)" if "remaining it = []"
    using that v0_next.at_end v1_next.at_end by (cases it) simp_all
  assume left: "remaining it = (p, m) # rest"
  show "\<exists>it'. NextMessage it h = (Some \<lparr>MessageWithMeta = m, Pos = p, HotshotHeight = h\<rparr>, it')
      \<and> remaining it' = rest"
  proof (cases it)
    case (V0Iterator i)
    with left v0_next.takes_next [of i p m rest h] obtain i' where
      "NextMessage_v0 i h = (Some \<lparr>MessageWithMeta = m, Pos = p, HotshotHeight = h\<rparr>, i')"
      "remaining (V0Iterator i') = rest" by auto
    with V0Iterator show ?thesis by simp
  next
    case (V1Iterator i)
    with left v1_next.takes_next [of i p m rest h] obtain i' where
      "NextMessage_v1 i h = (Some \<lparr>MessageWithMeta = m, Pos = p, HotshotHeight = h\<rparr>, i')"
      "remaining (V1Iterator i') = rest" by auto
    with V1Iterator show ?thesis by simp
  qed
qed

section \<open>Verification\<close>

lemma filter_verified_eq:
  "filter_verified L valid chain h msgs acc
    = acc @ filter (\<lambda>m. verifyV1Message L valid chain h m = Inr ()) msgs"
  by (induction msgs arbitrary: acc) (auto split: sum.split)

lemma check_signer_Inr:
  "check_signer L valid l1Height h sg = Inr u \<longleftrightarrow>
    (\<exists>k. sig_to_pub L h sg = Inr k \<and> valid (pubkey_to_address L k) l1Height)"
  by (auto simp: check_signer_def Let_def split: sum.splits)

text \<open>A hash was signed by somebody the validator accepts at the height.\<close>

definition signed_by_valid :: "'k nitro_lib \<Rightarrow> validator \<Rightarrow> u64 \<Rightarrow> hash \<Rightarrow> bytes \<Rightarrow> bool" where
  "signed_by_valid L valid l1Height h sg =
    (case sig_to_pub L h sg of Inl _ \<Rightarrow> False | Inr k \<Rightarrow> valid (pubkey_to_address L k) l1Height)"

lemma check_signer_ok: "check_signer L valid l1Height h sg = Inr u \<longleftrightarrow> signed_by_valid L valid l1Height h sg"
  by (auto simp: check_signer_Inr signed_by_valid_def split: sum.splits)

lemma verifyV1Message_ok:
  "verifyV1Message L valid chain l1Height m = Inr u \<longleftrightarrow>
    (if Signature m \<noteq> []
     then \<exists>h. ComputeBroadcastFeedMessageHash L m chain = Inr h \<and> signed_by_valid L valid l1Height h (Signature m)
     else SignatureV2 m \<noteq> []
       \<and> (\<exists>h. ComputeBroadcastFeedMessageHashV2 L m chain = Inr h
            \<and> signed_by_valid L valid l1Height h (SignatureV2 m)))"
  by (auto simp: verifyV1Message_def SequencerSignatureAndHasher_def check_signer_ok split: sum.splits)

lemma verified_payload:
  assumes "VerifySignature L valid chain l1Height p = Inr p'"
  shows "(\<exists>m. p = V0Payload m \<and> p' = p \<and> signed_by_valid L valid l1Height (v0_hash m) (v0_signature m))
    \<or> (\<exists>m m'. p = V1Payload m \<and> p' = V1Payload m'
        \<and> v1_messages m' = filter (\<lambda>x. verifyV1Message L valid chain l1Height x = Inr ()) (v1_messages m))"
  using assms
  by (cases p) (auto simp: bind_res_Inr_iff VerifySignature_v0_def check_signer_ok
      VerifySignature_v1_def filter_verified_eq)

section \<open>Parsing either version\<close>

lemma parse_nitro_exact_lemma:
  assumes "length data < 2 ^ 63"
  shows "\<exists>r. ParseNitroMessagesFromHotShot L data = Some r
    \<and> (\<forall>m. r = Inr (V1Payload m) \<longleftrightarrow> HasPrefix data version1HeaderPeek
        \<and> (\<exists>hdr fs. data = v1_frames (hdr # fs) \<and> json_unmarshal_string L hdr = Inr V1Header
            \<and> decode_v1_frames L fs = Inr (v1_messages m)))
    \<and> (\<forall>m. r = Inr (V0Payload m) \<longleftrightarrow> HasPrefix data version0Peek
        \<and> (\<exists>fs. data = v0_payload (v0_signature m) fs \<and> decode_v0_frames L fs = Inr (v0_messages m)
            \<and> v0_hash m = Keccak256Hash L (v0_frames fs)))"
proof -
  have excl: "\<not> HasPrefix data version0Peek" if "HasPrefix data version1HeaderPeek"
  proof
    assume "HasPrefix data version0Peek"
    moreover have "length version0Peek = 8" "take 8 version1HeaderPeek = [0, 0, 0, 0, 0, 0, 0, 4]"
      by code_simp+
    moreover have "take 8 data = take 8 version1HeaderPeek"
    proof -
      have "length version1HeaderPeek = 12" by code_simp
      then show ?thesis
        using arg_cong [OF that [unfolded HasPrefix_def], of "take 8"] by (simp add: min_def)
    qed
    moreover have "version0Peek \<noteq> [0, 0, 0, 0, 0, 0, 0, 4]" by code_simp
    ultimately show False unfolding HasPrefix_def by metis
  qed
  obtain r1 where r1: "Unmarshal_v1 L data = Some r1"
    and ex1: "\<And>m. r1 = Inr m \<longleftrightarrow> (\<exists>hdr fs. data = v1_frames (hdr # fs)
        \<and> json_unmarshal_string L hdr = Inr V1Header \<and> decode_v1_frames L fs = Inr (v1_messages m))"
    using v1_unmarshal_exact_lemma [OF assms, of L] by blast
  obtain r0 where r0: "Unmarshal_v0 L data = Some r0"
    and ex0: "\<And>m. r0 = Inr m \<longleftrightarrow> (\<exists>fs. data = v0_payload (v0_signature m) fs
        \<and> decode_v0_frames L fs = Inr (v0_messages m) \<and> v0_hash m = Keccak256Hash L (v0_frames fs))"
    using v0_unmarshal_exact_lemma [OF assms, of L] by blast
  consider "HasPrefix data version1HeaderPeek" "\<not> HasPrefix data version0Peek"
    | "\<not> HasPrefix data version1HeaderPeek" "HasPrefix data version0Peek"
    | "\<not> HasPrefix data version1HeaderPeek" "\<not> HasPrefix data version0Peek"
    using excl by blast
  then show ?thesis
  proof cases
    case 1
    then show ?thesis
      by (simp add: ParseNitroMessagesFromHotShot_def r1 bind_res_Inr_iff ex1)
  next
    case 2
    then show ?thesis
      by (simp add: ParseNitroMessagesFromHotShot_def r0 bind_res_Inr_iff ex0)
  next
    case 3
    then show ?thesis by (simp add: ParseNitroMessagesFromHotShot_def)
  qed
qed

lemma parse_total: "length data < 2 ^ 63 \<Longrightarrow> \<exists>r. ParseNitroMessagesFromHotShot L data = Some r"
  using parse_nitro_exact_lemma by blast

text \<open>
  C13. Whatever bytes are posted to the namespace, parsing them returns without a panic and
  ends. A payload is read as version 1 exactly when it starts with the version 1 header and is
  a list of length-prefixed JSON texts that decode; it is read as version 0 exactly when it
  starts with a signature length of 65 and is that signature and a list of frames that decode,
  and then the hash to be verified is the hash of everything behind the signature.
\<close>

theorem parse_nitro_exact:
  assumes "length data < 2 ^ 63"
  shows "\<exists>r. ParseNitroMessagesFromHotShot L data = Some r
    \<and> (\<forall>m. r = Inr (V1Payload m) \<longleftrightarrow> HasPrefix data version1HeaderPeek
        \<and> (\<exists>hdr fs. data = v1_frames (hdr # fs) \<and> json_unmarshal_string L hdr = Inr V1Header
            \<and> decode_v1_frames L fs = Inr (v1_messages m)))
    \<and> (\<forall>m. r = Inr (V0Payload m) \<longleftrightarrow> HasPrefix data version0Peek
        \<and> (\<exists>fs. data = v0_payload (v0_signature m) fs \<and> decode_v0_frames L fs = Inr (v0_messages m)
            \<and> v0_hash m = Keccak256Hash L (v0_frames fs)))"
  using assms by (rule parse_nitro_exact_lemma)

definition sample_v1 :: v1_feed_messages where
  "sample_v1 = \<lparr>v1_messages = [sample_feed 7 [1] [9]]\<rparr>"

lemma sample_v1_contents:
  "encode_v1_contents sample_nitro (v1_messages sample_v1)
    = Inr [be_bytes 8 (7 :: u64) @ be_bytes 8 (1 :: u64) @ [1, 9]]"
  by (simp add: sample_v1_def del: be_bytes.simps)

lemma v1_prefix: "HasPrefix (v1_frames ([34, 86, 49, 34] # fs)) version1HeaderPeek"
proof -
  have "be_bytes 8 (4 :: u64) = [0, 0, 0, 0, 0, 0, 0, 4]" by code_simp
  then show ?thesis
    by (simp add: HasPrefix_def v1_frame_def version1HeaderPeek_def)
qed

theorem parse_nitro_exact_witness:
  "ParseNitroMessagesFromHotShot sample_nitro
      (v1_frames [[34, 86, 49, 34], be_bytes 8 (7 :: u64) @ be_bytes 8 (1 :: u64) @ [1, 9]])
    = Some (Inr (V1Payload sample_v1))"
proof -
  let ?c = "be_bytes 8 (7 :: u64) @ be_bytes 8 (1 :: u64) @ [1, 9]"
  let ?data = "v1_frames ([34, 86, 49, 34] # [?c])"
  have "json_unmarshal_feed sample_nitro ?c = Inr (sample_feed 7 [1] [9])"
    using sample_json_feed [of "[1]" 7 "[9]"] by simp
  then have dec: "decode_v1_frames sample_nitro [?c] = Inr (v1_messages sample_v1)"
    by (simp add: sample_v1_def)
  have hdr: "json_unmarshal_string sample_nitro [34, 86, 49, 34] = Inr V1Header"
    by (simp add: V1Header_def)
  have "length ?data < 2 ^ 63" by simp
  from parse_nitro_exact [OF this, of sample_nitro]
  obtain r where r: "ParseNitroMessagesFromHotShot sample_nitro ?data = Some r"
    and v1: "r = Inr (V1Payload sample_v1) \<longleftrightarrow> HasPrefix ?data version1HeaderPeek
        \<and> (\<exists>hdr fs. ?data = v1_frames (hdr # fs) \<and> json_unmarshal_string sample_nitro hdr = Inr V1Header
            \<and> decode_v1_frames sample_nitro fs = Inr (v1_messages sample_v1))"
    by (elim exE conjE) (rule that, assumption, erule spec)
  from v1 v1_prefix [of "[?c]"] hdr dec have "r = Inr (V1Payload sample_v1)" by metis
  with r show ?thesis by simp
qed

text \<open>
  C33. A version 1 payload written by the encoder is read back as it was, as version 1, when
  JSON decodes its own encodings and writes the string V1 as its four bytes.
\<close>

theorem v1_roundtrip:
  assumes "json_marshal_string L V1Header = Inr [34, 86, 49, 34]"
    and "json_unmarshal_string L [34, 86, 49, 34] = Inr V1Header"
    and "encode_v1_contents L (v1_messages m) = Inr fs"
    and "length (v1_frames ([34, 86, 49, 34] # fs)) < 2 ^ 63"
    and "\<And>msg bs. msg \<in> set (v1_messages m) \<Longrightarrow> json_marshal_feed L msg = Inr bs
      \<Longrightarrow> json_unmarshal_feed L bs = Inr msg"
  shows "\<exists>data. encodeV1HeaderAndBroadcastMessages L m = Some (Inr data)
    \<and> ParseNitroMessagesFromHotShot L data = Some (Inr (V1Payload m))"
  using v1_encode_parse [OF assms] v1_prefix [of fs]
  by (auto simp: ParseNitroMessagesFromHotShot_def)

theorem v1_roundtrip_witness:
  "\<exists>data. encodeV1HeaderAndBroadcastMessages sample_nitro sample_v1 = Some (Inr data)
    \<and> ParseNitroMessagesFromHotShot sample_nitro data = Some (Inr (V1Payload sample_v1))"
proof (rule v1_roundtrip [OF _ _ sample_v1_contents])
  show "json_marshal_string sample_nitro V1Header = Inr [34, 86, 49, 34]"
    "json_unmarshal_string sample_nitro [34, 86, 49, 34] = Inr V1Header"
    by (simp_all add: V1Header_def)
  show "length (v1_frames ([34, 86, 49, 34] # [be_bytes 8 (7 :: u64) @ be_bytes 8 (1 :: u64) @ [1, 9]])) < 2 ^ 63"
    by simp
  fix msg bs
  assume "msg \<in> set (v1_messages sample_v1)" "json_marshal_feed sample_nitro msg = Inr bs"
  then show "json_unmarshal_feed sample_nitro bs = Inr msg"
    using sample_json_feed [of "[1]" 7 "[9]"] by (auto simp: sample_v1_def)
qed

section \<open>What the feed hashes bind\<close>

lemma v1_hash_of:
  assumes "ComputeBroadcastFeedMessageHash L m chain = Inr h"
  shows "\<exists>i bs. l1_message (feed_message m) = Some i \<and> rlp_encode_incoming L i = Inr bs
    \<and> h = Keccak256Hash L (v1_preimage m chain bs)"
  using assms by (auto simp: ComputeBroadcastFeedMessageHash_def split: option.splits sum.splits)

lemma v1_preimage_inj:
  "v1_preimage m chain bs = v1_preimage m' chain' bs' \<longleftrightarrow>
    SequenceNumber m = SequenceNumber m' \<and> chain = chain'
    \<and> DelayedMessagesRead (feed_message m) = DelayedMessagesRead (feed_message m') \<and> bs = bs'"
  using be_bytes_inj [where n = 8 and 'a = 64] by (auto simp: v1_preimage_def)

text \<open>
  C32. What the version 1 hash binds. Two messages, on any two chains, for which the hash is
  computed have equal hashes exactly when they have the same sequence number, the same chain
  id, the same delayed message count and the same RLP encoding of the L1 message, or else the
  two distinct strings that were hashed are a collision of Keccak. Nothing is assumed of the hash or of
  RLP, and L1 messages that RLP encodes alike, as one without and one with a zero base fee, are
  not told apart.
\<close>

theorem feed_hash_binds:
  assumes "ComputeBroadcastFeedMessageHash L m chain = Inr h"
    and "ComputeBroadcastFeedMessageHash L m' chain' = Inr h'"
  shows "\<exists>i bs i' bs'.
    l1_message (feed_message m) = Some i \<and> rlp_encode_incoming L i = Inr bs
    \<and> l1_message (feed_message m') = Some i' \<and> rlp_encode_incoming L i' = Inr bs'
    \<and> (h = h' \<longleftrightarrow>
         SequenceNumber m = SequenceNumber m' \<and> chain = chain'
           \<and> DelayedMessagesRead (feed_message m) = DelayedMessagesRead (feed_message m') \<and> bs = bs'
         \<or> v1_preimage m chain bs \<noteq> v1_preimage m' chain' bs'
           \<and> Keccak256Hash L (v1_preimage m chain bs) = Keccak256Hash L (v1_preimage m' chain' bs'))"
proof -
  from v1_hash_of [OF assms(1)] obtain i bs where "l1_message (feed_message m) = Some i"
    "rlp_encode_incoming L i = Inr bs" "h = Keccak256Hash L (v1_preimage m chain bs)" by blast
  moreover from v1_hash_of [OF assms(2)] obtain i' bs' where "l1_message (feed_message m') = Some i'"
    "rlp_encode_incoming L i' = Inr bs'" "h' = Keccak256Hash L (v1_preimage m' chain' bs')" by blast
  moreover note v1_preimage_inj [of m chain bs m' chain' bs']
  ultimately show ?thesis
    by (intro exI [of _ i] exI [of _ bs] exI [of _ i'] exI [of _ bs']) metis
qed

text \<open>Two signatures for one message: the signature is no part of the string hashed.\<close>

theorem feed_hash_binds_witness:
  "ComputeBroadcastFeedMessageHash sample_nitro (sample_feed 7 [1] [9]) 5
    = ComputeBroadcastFeedMessageHash sample_nitro (sample_feed 7 [2] [9]) 5"
proof -
  have hash: "ComputeBroadcastFeedMessageHash sample_nitro (sample_feed n sg [9]) 5
      = Inr (sample_hash (v1_preimage (sample_feed n sg [9]) 5 [9]))" for n sg
    by (simp add: ComputeBroadcastFeedMessageHash_def sample_nitro_def sample_feed_def sample_msg_def sample_incoming_def)
  have enc: "l1_message (feed_message (sample_feed n sg [9])) = Some i \<and> rlp_encode_incoming sample_nitro i = Inr bs
      \<longleftrightarrow> i = sample_incoming [9] \<and> bs = [9]" for n sg i bs
    by (auto simp: sample_nitro_def sample_feed_def sample_msg_def sample_incoming_def)
  have "SequenceNumber (sample_feed n sg [9]) = n" "DelayedMessagesRead (feed_message (sample_feed n sg [9])) = 1" for n sg
    by (simp_all add: sample_feed_def sample_msg_def)
  from feed_hash_binds [OF hash hash, of 7 "[1]" 7 "[2]", unfolded this]
  have "sample_hash (v1_preimage (sample_feed 7 [1] [9]) 5 [9]) = sample_hash (v1_preimage (sample_feed 7 [2] [9]) 5 [9])"
    using enc by (elim exE conjE) metis
  then show ?thesis by (simp add: hash)
qed

definition base_fee_moved :: "feed_message \<Rightarrow> l1_incoming \<Rightarrow> l1_incoming_header \<Rightarrow> int \<Rightarrow> feed_message" where
  "base_fee_moved m i hdr n = m\<lparr>feed_message := (feed_message m)\<lparr>l1_message := Some
     (i\<lparr>l1m_header := Some (hdr\<lparr>L1BaseFee := None\<rparr>), L2msg := big_bytes n @ L2msg i\<rparr>)\<rparr>\<rparr>"

definition block_hash_moved :: "feed_message \<Rightarrow> hash \<Rightarrow> feed_message" where
  "block_hash_moved m b = m\<lparr>BlockHash := None, BlockMetadata := be_bytes 32 b @ BlockMetadata m\<rparr>"

lemma verifyV1Message_v2:
  assumes "Signature m = []" "Signature m' = []" "SignatureV2 m = SignatureV2 m'"
    and "SequenceNumber m = SequenceNumber m'"
    and "ComputeBroadcastFeedMessageHashV2 L m chain = ComputeBroadcastFeedMessageHashV2 L m' chain"
  shows "verifyV1Message L valid chain l1Height m = verifyV1Message L valid chain l1Height m'"
  using assms by (simp add: verifyV1Message_def SequencerSignatureAndHasher_def)

text \<open>
  C39. The version 2 hash does not: the base fee and the L2 message are written one after the
  other without a length, so moving the bytes of the base fee to the front of the L2 message
  gives another message with the same hash, which passes verification with the signature of
  the first, under every validator, on every chain. The same holds for a block hash moved
  into the block metadata.
\<close>

theorem feed_hash_v2_malleable:
  assumes "l1_message (feed_message m) = Some i" and "l1m_header i = Some hdr"
    and "L1BaseFee hdr = Some n" and "BlockHash m = Some b" and "Signature m = []"
  shows "verifyV1Message L valid chain l1Height (base_fee_moved m i hdr n)
        = verifyV1Message L valid chain l1Height m
    \<and> verifyV1Message L valid chain l1Height (block_hash_moved m b)
        = verifyV1Message L valid chain l1Height m
    \<and> l1_message (feed_message (base_fee_moved m i hdr n)) \<noteq> l1_message (feed_message m)
    \<and> SequenceNumber (base_fee_moved m i hdr n) = SequenceNumber m"
proof (intro conjI)
  show "verifyV1Message L valid chain l1Height (base_fee_moved m i hdr n)
      = verifyV1Message L valid chain l1Height m"
    using assms by (intro verifyV1Message_v2)
      (simp_all add: base_fee_moved_def ComputeBroadcastFeedMessageHashV2_def v2_preimage_def)
  show "verifyV1Message L valid chain l1Height (block_hash_moved m b)
      = verifyV1Message L valid chain l1Height m"
    using assms by (intro verifyV1Message_v2)
      (simp_all add: block_hash_moved_def ComputeBroadcastFeedMessageHashV2_def v2_preimage_def
        del: be_bytes.simps)
  show "l1_message (feed_message (base_fee_moved m i hdr n)) \<noteq> l1_message (feed_message m)"
  proof
    assume "l1_message (feed_message (base_fee_moved m i hdr n)) = l1_message (feed_message m)"
    then have "i\<lparr>l1m_header := Some (hdr\<lparr>L1BaseFee := None\<rparr>), L2msg := big_bytes n @ L2msg i\<rparr> = i"
      using assms(1) by (simp add: base_fee_moved_def)
    then have "Some (hdr\<lparr>L1BaseFee := None\<rparr>) = l1m_header i"
      by (metis l1_incoming.select_convs(1) l1_incoming.surjective l1_incoming.update_convs(1,2))
    then have "hdr\<lparr>L1BaseFee := None\<rparr> = hdr" using assms(2) by simp
    then have "L1BaseFee hdr = None"
      by (metis l1_incoming_header.select_convs(6) l1_incoming_header.surjective l1_incoming_header.update_convs(6))
    then show False using assms(3) by simp
  qed
  show "SequenceNumber (base_fee_moved m i hdr n) = SequenceNumber m" by (simp add: base_fee_moved_def)
qed

text \<open>
  A message with base fee 258 and L2 message 9, signed by address 5; its signature also covers
  the L2 message 1, 2, 9 without a base fee.
\<close>

definition sample_v2_unsigned :: feed_message where
  "sample_v2_unsigned = (sample_feed 7 [] [9])\<lparr>BlockHash := Some 3\<rparr>"

definition sample_v2_feed :: feed_message where
  "sample_v2_feed = sample_v2_unsigned
     \<lparr>SignatureV2 := case ComputeBroadcastFeedMessageHashV2 sample_nitro sample_v2_unsigned 5 of
        Inl _ \<Rightarrow> [] | Inr h \<Rightarrow> sample_sign 5 h\<rparr>"

lemma hash_v2_unsigned:
  "ComputeBroadcastFeedMessageHashV2 L (m\<lparr>SignatureV2 := sg\<rparr>) chain = ComputeBroadcastFeedMessageHashV2 L m chain"
  by (simp add: ComputeBroadcastFeedMessageHashV2_def v2_preimage_def cong: option.case_cong)

lemma sample_v2_feed_verifies:
  "verifyV1Message sample_nitro (\<lambda>a _. a = 5) 5 9 sample_v2_feed = Inr ()"
proof -
  obtain h where h: "ComputeBroadcastFeedMessageHashV2 sample_nitro sample_v2_unsigned 5 = Inr h"
    by (simp add: ComputeBroadcastFeedMessageHashV2_def sample_v2_unsigned_def sample_feed_def
        sample_msg_def sample_incoming_def)
  then have "ComputeBroadcastFeedMessageHashV2 sample_nitro sample_v2_feed 5 = Inr h"
    by (simp only: sample_v2_feed_def hash_v2_unsigned)
  moreover have "Signature sample_v2_feed = []"
    by (simp add: sample_v2_feed_def sample_v2_unsigned_def sample_feed_def)
  moreover have "SignatureV2 sample_v2_feed = sample_sign 5 h" by (simp add: sample_v2_feed_def h)
  ultimately show ?thesis by (simp add: verifyV1Message_ok signed_by_valid_def)
qed

theorem feed_hash_v2_malleable_witness:
  "\<exists>m i. verifyV1Message sample_nitro (\<lambda>a _. a = 5) 5 9 sample_v2_feed = Inr ()
    \<and> verifyV1Message sample_nitro (\<lambda>a _. a = 5) 5 9 m = Inr ()
    \<and> SequenceNumber m = 7 \<and> l1_message (feed_message m) = Some i \<and> L2msg i = [1, 2, 9]"
proof -
  define hdr :: l1_incoming_header where
    "hdr = \<lparr>Kind = 3, Poster = 5, BlockNumber = 9, Timestamp = 70, RequestId = None, L1BaseFee = Some 258\<rparr>"
  have "l1_message (feed_message sample_v2_feed) = Some (sample_incoming [9])"
    "l1m_header (sample_incoming [9]) = Some hdr" "L1BaseFee hdr = Some 258"
    "BlockHash sample_v2_feed = Some 3" "Signature sample_v2_feed = []"
    by (simp_all add: sample_v2_feed_def sample_v2_unsigned_def sample_feed_def sample_msg_def
        sample_incoming_def hdr_def)
  from feed_hash_v2_malleable [OF this, where L = sample_nitro and valid = "\<lambda>a _. a = 5" and chain = 5 and l1Height = 9]
  have "verifyV1Message sample_nitro (\<lambda>a _. a = 5) 5 9 (base_fee_moved sample_v2_feed (sample_incoming [9]) hdr 258)
      = Inr ()"
    unfolding sample_v2_feed_verifies by (rule conjunct1)
  moreover have "big_bytes 258 = [1, 2]" by code_simp
  then have "l1_message (feed_message (base_fee_moved sample_v2_feed (sample_incoming [9]) hdr 258))
      = Some ((sample_incoming [1, 2, 9])\<lparr>l1m_header := Some (hdr\<lparr>L1BaseFee := None\<rparr>)\<rparr>)"
    by (simp add: base_fee_moved_def sample_incoming_def)
  moreover have "SequenceNumber (base_fee_moved sample_v2_feed (sample_incoming [9]) hdr 258) = 7"
    by (simp add: base_fee_moved_def sample_v2_feed_def sample_v2_unsigned_def sample_feed_def)
  moreover have "L2msg ((sample_incoming [1, 2, 9])\<lparr>l1m_header := Some (hdr\<lparr>L1BaseFee := None\<rparr>)\<rparr>) = [1, 2, 9]"
    by (simp add: sample_incoming_def)
  ultimately show ?thesis using sample_v2_feed_verifies by blast
qed

end
