(* ===== verification/Nitro_Streamer.thy ===== *)
theory Nitro_Streamer
  imports Nitro_Verify "HOL-Library.AList"
begin

text \<open>
  \<open>nitro/nitro_streamer.go\<close>: the streamer of the Nitro integration. The Go map of buffered
  messages is an association list (its order is the unspecified iteration order of the map),
  the HotShot client is a record of the answers it gives during one call, and a call that never
  returns is \<open>None\<close>. Every method holds the lock for its body, so a method is one step;
  \<open>QueueMessagesFromHotshot\<close> holds it only for each payload and for its last lines, and
  \<open>Nitro_Concurrency\<close> gives its steps.
\<close>

section \<open>State\<close>

record nitro_streamer =                \<comment> \<open>\<open>EspressoStreamer\<close>, without client, log and locks\<close>
  nextHotshotBlockNum :: u64
  currentMessagePos :: u64
  namespace_id :: u64
  messages :: "(u64 \<times> message_and_pos) list"
  highestPos :: u64
  monitor :: addr_monitor

type_synonym client_err = string       \<comment> \<open>an error of the HotShot client, opaque\<close>

text \<open>
  The client: the header of a height is seen through the number of its finalized L1 block,
  which may be missing; the data of a range is the payloads of each block.
\<close>

record nitro_client =
  FetchLatestBlockHeight :: "client_err + u64"
  FetchHeaderByHeight :: "u64 \<Rightarrow> client_err + u64 option"
  FetchNamespaceTransactionsInRange :: "u64 \<Rightarrow> u64 \<Rightarrow> u64 \<Rightarrow> client_err + bytes list list"

definition HOTSHOT_RANGE_LIMIT :: u64 where
  "HOTSHOT_RANGE_LIMIT = 100"

definition NewEspressoStreamer_nitro ::
  "'k nitro_lib \<Rightarrow> u64 \<Rightarrow> u64 \<Rightarrow> addr_range_config list \<Rightarrow> u64 \<Rightarrow> nitro_streamer" where
  "NewEspressoStreamer_nitro L ns nextHotshotBlock addressValidRanges startMessagePos =
    \<lparr>nextHotshotBlockNum = nextHotshotBlock, currentMessagePos = startMessagePos, namespace_id = ns,
     messages = [], highestPos = 1, monitor = NewBatcherAddressMonitor L addressValidRanges\<rparr>"

section \<open>Reading and moving the position\<close>

datatype can_send_error = LatestHeightFailed client_err | HeaderFailed client_err | L1FinalizedNotFound

definition CanBatcherAddressSend ::
  "nitro_client \<Rightarrow> nitro_streamer \<Rightarrow> address \<Rightarrow> can_send_error + bool" where
  "CanBatcherAddressSend C s addr =
    (case FetchLatestBlockHeight C of
       Inl err \<Rightarrow> Inl (LatestHeightFailed err)
     | Inr latest \<Rightarrow>
         (case FetchHeaderByHeight C (latest - 1) of
            Inl err \<Rightarrow> Inl (HeaderFailed err)
          | Inr None \<Rightarrow> Inl L1FinalizedNotFound
          | Inr (Some l1Finalized) \<Rightarrow> Inr (IsValid (monitor s) addr l1Finalized)))"

partial_function (option) count_loop :: "(u64 \<times> message_and_pos) list \<Rightarrow> u64 \<Rightarrow> u64 option" where
  "count_loop ms count =
    (case map_of ms count of None \<Rightarrow> Some count | Some _ \<Rightarrow> count_loop ms (count + 1))"

definition GetMessageCount :: "nitro_streamer \<Rightarrow> u64 option" where
  "GetMessageCount s = count_loop (messages s) (currentMessagePos s)"

definition Reset_nitro :: "u64 \<Rightarrow> u64 \<Rightarrow> nitro_streamer \<Rightarrow> nitro_streamer" where
  "Reset_nitro messagePos hotshotBlock s =
    s\<lparr>currentMessagePos := messagePos, nextHotshotBlockNum := hotshotBlock,
      highestPos := messagePos, messages := []\<rparr>"

definition Peek_nitro :: "nitro_streamer \<Rightarrow> message_and_pos option" where
  "Peek_nitro s = map_of (messages s) (currentMessagePos s)"

definition GetMsg :: "nitro_streamer \<Rightarrow> u64 \<Rightarrow> message_and_pos option" where
  "GetMsg s pos = map_of (messages s) pos"

definition Advance :: "nitro_streamer \<Rightarrow> nitro_streamer" where
  "Advance s = s\<lparr>messages := AList.delete (currentMessagePos s) (messages s),
                 currentMessagePos := currentMessagePos s + 1\<rparr>"

text \<open>The loop \<open>for pos := from; pos < toPos; pos++\<close>, which ends because \<open>pos + 1\<close> cannot wrap below \<open>toPos\<close>.\<close>

function delete_range :: "u64 \<Rightarrow> u64 \<Rightarrow> (u64 \<times> message_and_pos) list \<Rightarrow> (u64 \<times> message_and_pos) list" where
  "delete_range pos toPos ms =
    (if pos < toPos then delete_range (pos + 1) toPos (AList.delete pos ms) else ms)"
  by pat_completeness auto
termination
proof (relation "measure (\<lambda>(pos, toPos, _). unat toPos - unat pos)")
  fix pos toPos :: u64 and ms :: "(u64 \<times> message_and_pos) list"
  assume lt: "pos < toPos"
  then have "pos \<noteq> MaxUint64" using word_order.extremum_strict by blast
  with lt show "((pos + 1, toPos, AList.delete pos ms), (pos, toPos, ms))
      \<in> measure (\<lambda>(pos, toPos, _). unat toPos - unat pos)"
    by (simp add: u_plus_one word_less_nat_alt)
qed simp

declare delete_range.simps [simp del]

definition AdvanceTo :: "u64 \<Rightarrow> nitro_streamer \<Rightarrow> nitro_streamer" where
  "AdvanceTo toPos s =
    (if toPos \<le> currentMessagePos s then s
     else s\<lparr>messages := delete_range (currentMessagePos s) toPos (messages s), currentMessagePos := toPos\<rparr>)"

text \<open>The loop over the map that looks for the least height at or above a position.\<close>

fun min_height_from :: "u64 \<Rightarrow> (u64 \<times> message_and_pos) list \<Rightarrow> u64 \<Rightarrow> u64" where
  "min_height_from pos [] minHeight = minHeight"
| "min_height_from pos ((nextPos, msg) # ms) minHeight =
    min_height_from pos ms
      (if nextPos \<ge> pos \<and> HotshotHeight msg < minHeight then HotshotHeight msg else minHeight)"

definition GetCurrentEarliestHotShotBlockNumber :: "nitro_streamer \<Rightarrow> u64 \<Rightarrow> u64" where
  "GetCurrentEarliestHotShotBlockNumber s pos =
    (if length (messages s) = 0 then nextHotshotBlockNum s
     else
       case map_of (messages s) pos of
         Some msg \<Rightarrow> HotshotHeight msg
       | None \<Rightarrow> min_height_from pos (messages s) (nextHotshotBlockNum s))"

definition ChainID :: "nitro_streamer \<Rightarrow> u64" where
  "ChainID s = namespace_id s"

section \<open>Taking in a payload\<close>

datatype tx_error =
    ParsePayloadFailed codec_error
  | PayloadHadNoMessages
  | VerifyFailed verify_error

text \<open>The loop over the higher positions, which ends only when the position passes \<open>highestPos\<close>.\<close>

partial_function (option) lower_height ::
  "(u64 \<times> message_and_pos) list \<Rightarrow> u64 \<Rightarrow> u64 \<Rightarrow> u64 \<Rightarrow> u64 option" where
  "lower_height ms highest nextPos currHeight =
    (if nextPos \<le> highest then
       lower_height ms highest (nextPos + 1)
         (case map_of ms nextPos of
            None \<Rightarrow> currHeight
          | Some higherPos \<Rightarrow>
              if HotshotHeight higherPos < currHeight then HotshotHeight higherPos else currHeight)
     else Some currHeight)"

text \<open>One round of the loop over the messages.\<close>

definition store_message :: "message_and_pos \<Rightarrow> nitro_streamer \<Rightarrow> nitro_streamer option" where
  "store_message msg s =
    (if Pos msg < currentMessagePos s then Some s
     else if map_of (messages s) (Pos msg) \<noteq> None then Some s
     else
       let s = (if Pos msg > highestPos s then s\<lparr>highestPos := Pos msg\<rparr> else s)
       in Option.bind (lower_height (messages s) (highestPos s) (Pos msg + 1) (HotshotHeight msg)) (\<lambda>currHeight.
          Some (s\<lparr>messages := AList.update (Pos msg) (msg\<lparr>HotshotHeight := currHeight\<rparr>) (messages s)\<rparr>)))"

function store_messages :: "message_iterator \<Rightarrow> nitro_streamer \<Rightarrow> nitro_streamer option" where
  "store_messages it s =
    (case NextMessage it (nextHotshotBlockNum s) of
       (None, _) \<Rightarrow> Some s
     | (Some msg, it') \<Rightarrow> Option.bind (store_message msg s) (store_messages it'))"
  by pat_completeness auto
termination
proof (relation "measure (\<lambda>(it, _). length (remaining it))")
  fix it it' :: message_iterator and s s' :: nitro_streamer and x msg
  assume "(x, it') = NextMessage it (nextHotshotBlockNum s)" and "x = Some msg"
  then have "NextMessage it (nextHotshotBlockNum s) = (Some msg, it')" by simp
  then show "((it', s'), (it, s)) \<in> measure (\<lambda>(it, _). length (remaining it))"
    by (simp add: nitro_next.shortens)
qed simp

declare store_messages.simps [simp del]

definition parseEspressoTransaction ::
  "'k nitro_lib \<Rightarrow> bytes \<Rightarrow> u64 \<Rightarrow> nitro_streamer \<Rightarrow> ((tx_error + unit) \<times> nitro_streamer) option" where
  "parseEspressoTransaction L tx l1Height s =
    Option.bind (ParseNitroMessagesFromHotShot L tx) (\<lambda>r.
      case r of
        Inl err \<Rightarrow> Some (Inl (ParsePayloadFailed err), s)
      | Inr message \<Rightarrow>
          if fst (NextMessage (MessageIterator message) 0) = None then Some (Inl PayloadHadNoMessages, s)
          else
            (case VerifySignature L (IsValid (monitor s)) (ChainID s) l1Height message of
               Inl err \<Rightarrow> Some (Inl (VerifyFailed err), s)
             | Inr message \<Rightarrow> map_option (Pair (Inr ())) (store_messages (MessageIterator message) s)))"

section \<open>Fetching\<close>

datatype fetch_error = FailedToFetchTransactions client_err

text \<open>
  The calls of \<open>fetchNextHotshotBlock\<close>: the block the range ends before and, when the range
  has data, the L1 height to verify with and the payloads.
\<close>

definition fetch_range ::
  "nitro_client \<Rightarrow> u64 \<Rightarrow> u64 \<Rightarrow> fetch_error + (u64 \<times> (u64 \<times> bytes list list) option)" where
  "fetch_range C nextBlock ns =
    (case FetchLatestBlockHeight C of
       Inl err \<Rightarrow> Inl (FailedToFetchTransactions err)
     | Inr latestBlockHeight \<Rightarrow>
         let fromBlock = nextBlock; untilBlock = latestBlockHeight
         in if fromBlock > untilBlock then Inr (fromBlock, None)
            else
              let untilBlock =
                (if untilBlock - fromBlock > HOTSHOT_RANGE_LIMIT then nextBlock + HOTSHOT_RANGE_LIMIT
                 else untilBlock)
              in if fromBlock = untilBlock then Inr (fromBlock, None)
                 else
                   (case FetchNamespaceTransactionsInRange C fromBlock untilBlock ns of
                      Inl err \<Rightarrow> Inl (FailedToFetchTransactions err)
                    | Inr rangeData \<Rightarrow>
                        if length rangeData = 0 then Inr (untilBlock, None)
                        else
                          (case FetchHeaderByHeight C (untilBlock - 1) of
                             Inl err \<Rightarrow> Inl (FailedToFetchTransactions err)
                           | Inr finalized \<Rightarrow>
                               let l1Height = (case finalized of None \<Rightarrow> 0 | Some n \<Rightarrow> n)
                               in Inr (untilBlock, Some (l1Height, rangeData)))))"

text \<open>The two nested loops over the data; an error of the parse function is logged only.\<close>

fun parse_payloads ::
  "(bytes \<Rightarrow> u64 \<Rightarrow> 's \<Rightarrow> (('e + unit) \<times> 's) option) \<Rightarrow> u64 \<Rightarrow> bytes list \<Rightarrow> 's \<Rightarrow> 's option" where
  "parse_payloads parseFn l1Height [] s = Some s"
| "parse_payloads parseFn l1Height (tx # txs) s =
    Option.bind (parseFn tx l1Height s) (\<lambda>(r, s). parse_payloads parseFn l1Height txs s)"

fun parse_blocks ::
  "(bytes \<Rightarrow> u64 \<Rightarrow> 's \<Rightarrow> (('e + unit) \<times> 's) option) \<Rightarrow> u64 \<Rightarrow> bytes list list \<Rightarrow> 's \<Rightarrow> 's option" where
  "parse_blocks parseFn l1Height [] s = Some s"
| "parse_blocks parseFn l1Height (txs # blocks) s =
    Option.bind (parse_payloads parseFn l1Height txs s) (parse_blocks parseFn l1Height blocks)"

definition fetchNextHotshotBlock ::
  "nitro_client \<Rightarrow> u64 \<Rightarrow> (bytes \<Rightarrow> u64 \<Rightarrow> 's \<Rightarrow> (('e + unit) \<times> 's) option) \<Rightarrow> u64 \<Rightarrow> 's
    \<Rightarrow> ((fetch_error + u64) \<times> 's) option" where
  "fetchNextHotshotBlock C nextBlock parseFn ns s =
    (case fetch_range C nextBlock ns of
       Inl err \<Rightarrow> Some (Inl err, s)
     | Inr (untilBlock, None) \<Rightarrow> Some (Inr untilBlock, s)
     | Inr (untilBlock, Some (l1Height, rangeData)) \<Rightarrow>
         map_option (Pair (Inr untilBlock)) (parse_blocks parseFn l1Height rangeData s))"

definition QueueMessagesFromHotshot ::
  "nitro_client \<Rightarrow> (bytes \<Rightarrow> u64 \<Rightarrow> nitro_streamer \<Rightarrow> (('e + unit) \<times> nitro_streamer) option)
    \<Rightarrow> nitro_streamer \<Rightarrow> ((fetch_error + unit) \<times> nitro_streamer) option" where
  "QueueMessagesFromHotshot C parseFn s =
    (let startHotshotBlockNum = nextHotshotBlockNum s
     in Option.bind (fetchNextHotshotBlock C startHotshotBlockNum parseFn (namespace_id s) s) (\<lambda>(r, s).
        case r of
          Inl err \<Rightarrow> Some (Inl err, s)
        | Inr toBlock \<Rightarrow> Some (Inr (),
            if nextHotshotBlockNum s = startHotshotBlockNum then s\<lparr>nextHotshotBlockNum := toBlock\<rparr> else s)))"

text \<open>
  The loop that \<open>Start\<close> runs until it is cancelled, one round per client and clock readings:
  the state, the debouncer, and the levels at which the rounds logged an error.
\<close>

definition start_round ::
  "'k nitro_lib \<Rightarrow> nitro_client \<Rightarrow> int \<times> int \<times> int \<Rightarrow> nitro_streamer \<Rightarrow> log_debouncer
    \<Rightarrow> (nitro_streamer \<times> log_debouncer \<times> log_level) option" where
  "start_round L C clock s e =
    map_option (\<lambda>(r, s).
        case r of
          Inl (FailedToFetchTransactions _) \<Rightarrow>
            (let (now, t1, t2) = clock; (level, e) = debounce e now t1 t2 in (s, e, level))
        | Inr _ \<Rightarrow> (s, reset_debouncer e, NoLog))
      (QueueMessagesFromHotshot C (parseEspressoTransaction L) s)"

fun start_rounds ::
  "'k nitro_lib \<Rightarrow> (nitro_client \<times> int \<times> int \<times> int) list \<Rightarrow> nitro_streamer \<Rightarrow> log_debouncer
    \<Rightarrow> (nitro_streamer \<times> log_level list) option" where
  "start_rounds L [] s e = Some (s, [])"
| "start_rounds L ((C, clock) # rounds) s e =
    Option.bind (start_round L C clock s e) (\<lambda>(s, e, level).
    map_option (\<lambda>(s, levels). (s, level # levels)) (start_rounds L rounds s e))"

definition Start ::
  "'k nitro_lib \<Rightarrow> (nitro_client \<times> int \<times> int \<times> int) list \<Rightarrow> nitro_streamer
    \<Rightarrow> (nitro_streamer \<times> log_level list) option" where
  "Start L rounds s =
    start_rounds L rounds s
      \<lparr>firstSeen = None, lastLog = None, duration = 3 * 60 * 10 ^ 9, interval = 60 * 10 ^ 9\<rparr>"

end
