(* ===== verification/Nitro_Invariant.thy ===== *)
theory Nitro_Invariant
  imports Nitro_Streamer
begin

text \<open>
  The loops of the Nitro streamer as functions of the buffered map, and its invariant: the
  buffered positions are neither below the current one nor above \<open>highestPos\<close>, every entry is
  stored under its own position, and the HotShot heights grow with the positions and never
  exceed the next block to read. Every method keeps it.
\<close>

section \<open>The loops\<close>

lemma succ_le_u64: "n \<noteq> MaxUint64 \<Longrightarrow> n + 1 \<le> q \<longleftrightarrow> n < (q :: u64)"
  by (simp add: u_plus_one word_le_nat_alt word_less_nat_alt Suc_le_eq)

lemma less_not_max: "n < (q :: u64) \<Longrightarrow> n \<noteq> MaxUint64"
  using word_order.extremum_strict by blast

text \<open>Deleting a range leaves the rest of the map.\<close>

lemma map_of_delete [simp]: "map_of (AList.delete k ms) q = (if q = k then None else map_of ms q)"
  by (simp add: delete_conv')

lemma delete_range_map:
  "map_of (delete_range pos toPos ms) q = (if pos \<le> q \<and> q < toPos then None else map_of ms q)"
proof (induction pos toPos ms rule: delete_range.induct)
  case (1 pos toPos ms)
  show ?case
  proof (cases "pos < toPos")
    case True
    then have "pos \<noteq> MaxUint64" by (rule less_not_max)
    then have "pos + 1 \<le> q \<longleftrightarrow> pos < q" for q by (rule succ_le_u64)
    with True "1.IH" show ?thesis
      by (subst delete_range.simps) (auto simp: order.order_iff_strict)
  next
    case False
    then show ?thesis by (subst delete_range.simps) auto
  qed
qed

lemma delete_range_distinct:
  "distinct (map fst ms) \<Longrightarrow> distinct (map fst (delete_range pos toPos ms))"
proof (induction pos toPos ms rule: delete_range.induct)
  case (1 pos toPos ms)
  then show ?case
    by (subst delete_range.simps) (simp add: distinct_delete)
qed

text \<open>The least height at or above a position, whatever order the map is walked in.\<close>

lemma min_height_from_le: "min_height_from pos ms h \<le> h"
proof (induction ms arbitrary: h)
  case (Cons x ms)
  obtain p m where x: "x = (p, m)" by (cases x)
  let ?h = "if pos \<le> p \<and> HotshotHeight m < h then HotshotHeight m else h"
  have "min_height_from pos ms ?h \<le> ?h" by (rule Cons.IH)
  also have "?h \<le> h" by auto
  finally show ?case by (simp add: x)
qed simp

lemma min_height_from_lower:
  "(p, m) \<in> set ms \<Longrightarrow> pos \<le> p \<Longrightarrow> min_height_from pos ms h \<le> HotshotHeight m"
proof (induction ms arbitrary: h)
  case (Cons x ms)
  obtain p' m' where x: "x = (p', m')" by (cases x)
  show ?case
  proof (cases "(p, m) = x")
    case True
    with x Cons.prems(2) show ?thesis
      using min_height_from_le [of pos ms "HotshotHeight m"] min_height_from_le [of pos ms h]
      by (auto intro: order_trans)
  next
    case False
    with Cons.prems Cons.IH x show ?thesis by auto
  qed
qed simp

lemma min_height_from_attained:
  "min_height_from pos ms h = h
    \<or> (\<exists>(p, m) \<in> set ms. pos \<le> p \<and> min_height_from pos ms h = HotshotHeight m)"
proof (induction ms arbitrary: h)
  case (Cons x ms)
  obtain p m where x: "x = (p, m)" by (cases x)
  from Cons.IH [of "if pos \<le> p \<and> HotshotHeight m < h then HotshotHeight m else h"] show ?case
    by (auto simp: x split: if_splits)
qed simp

text \<open>The loop over the higher positions returns unless \<open>highestPos\<close> is the largest position.\<close>

lemma lower_height_stuck: "lower_height ms MaxUint64 n c \<noteq> Some h"
proof
  assume "lower_height ms MaxUint64 n c = Some h"
  then have "MaxUint64 \<noteq> (MaxUint64 :: u64)"
    by (rule lower_height.raw_induct [where P = "\<lambda>ms highest n c h. highest \<noteq> MaxUint64", rotated])
      (auto split: if_splits)
  then show False by simp
qed

lemma lower_height_total:
  assumes "highest \<noteq> MaxUint64"
  shows "\<exists>h. lower_height ms highest n c = Some h"
proof (induction "Suc (unat highest) - unat n" arbitrary: n c rule: less_induct)
  case less
  show ?case
  proof (cases "n \<le> highest")
    case False
    then show ?thesis by (subst lower_height.simps) simp
  next
    case True
    with assms have "n \<noteq> MaxUint64" using word_order.extremum_unique by blast
    with True have "\<exists>h. lower_height ms highest (n + 1) c' = Some h" for c'
      by (intro less.hyps) (simp add: u_plus_one word_le_nat_alt)
    with True show ?thesis by (subst lower_height.simps) simp
  qed
qed

text \<open>What it returns: the least of the height and the heights of the higher positions.\<close>

definition lowest_from :: "(u64 \<times> message_and_pos) list \<Rightarrow> u64 \<Rightarrow> u64 \<Rightarrow> u64 \<Rightarrow> u64 \<Rightarrow> bool" where
  "lowest_from ms highest n c h =
    (h \<le> c \<and> (\<forall>q m. n \<le> q \<and> q \<le> highest \<and> map_of ms q = Some m \<longrightarrow> h \<le> HotshotHeight m)
     \<and> (h = c \<or> (\<exists>q m. n \<le> q \<and> q \<le> highest \<and> map_of ms q = Some m \<and> h = HotshotHeight m)))"

lemma lowest_from_step:
  assumes "lowest_from ms highest (n + 1)
      (case map_of ms n of None \<Rightarrow> c
        | Some x \<Rightarrow> if HotshotHeight x < c then HotshotHeight x else c) h"
    and "n \<noteq> MaxUint64" and "n \<le> highest"
  shows "lowest_from ms highest n c h"
proof -
  define c' where "c' = (case map_of ms n of None \<Rightarrow> c
        | Some x \<Rightarrow> if HotshotHeight x < c then HotshotHeight x else c)"
  have c': "c' \<le> c" "\<And>m. map_of ms n = Some m \<Longrightarrow> c' \<le> HotshotHeight m"
    "c' = c \<or> (\<exists>m. map_of ms n = Some m \<and> c' = HotshotHeight m)"
    by (auto simp: c'_def split: option.split)
  have up: "h \<le> c'" "\<And>q m. n < q \<Longrightarrow> q \<le> highest \<Longrightarrow> map_of ms q = Some m \<Longrightarrow> h \<le> HotshotHeight m"
    and att: "h = c' \<or> (\<exists>q m. n < q \<and> q \<le> highest \<and> map_of ms q = Some m \<and> h = HotshotHeight m)"
    using assms(1) unfolding lowest_from_def succ_le_u64 [OF assms(2)] c'_def [symmetric] by blast+
  show ?thesis
    unfolding lowest_from_def
  proof (intro conjI allI impI)
    show "h \<le> c" using up(1) c'(1) by (rule order_trans)
  next
    fix q m
    assume q: "n \<le> q \<and> q \<le> highest \<and> map_of ms q = Some m"
    show "h \<le> HotshotHeight m"
    proof (cases "q = n")
      case True
      with q c'(2) have "c' \<le> HotshotHeight m" by simp
      with up(1) show ?thesis by (rule order_trans)
    next
      case False
      with q up(2) [of q m] show ?thesis by (auto simp: order.strict_iff_order)
    qed
  next
    show "h = c \<or> (\<exists>q m. n \<le> q \<and> q \<le> highest \<and> map_of ms q = Some m \<and> h = HotshotHeight m)"
      using att c'(3) assms(3) order.strict_implies_order by blast
  qed
qed

lemma lower_height_spec:
  assumes "lower_height ms highest n c = Some h"
  shows "lowest_from ms highest n c h"
proof -
  have top: "highest \<noteq> MaxUint64" using assms lower_height_stuck by metis
  have "lowest_from ms highest n c (the (lower_height ms highest n c))"
  proof (induction "Suc (unat highest) - unat n" arbitrary: n c rule: less_induct)
    case less
    show ?case
    proof (cases "n \<le> highest")
      case False
      then show ?thesis by (subst lower_height.simps) (auto simp: lowest_from_def)
    next
      case True
      with top have n: "n \<noteq> MaxUint64" using word_order.extremum_unique by blast
      let ?c = "case map_of ms n of None \<Rightarrow> c
        | Some x \<Rightarrow> if HotshotHeight x < c then HotshotHeight x else c"
      have "lowest_from ms highest (n + 1) ?c (the (lower_height ms highest (n + 1) ?c))"
        using True n by (intro less.hyps) (simp add: u_plus_one word_le_nat_alt)
      then have "lowest_from ms highest n c (the (lower_height ms highest (n + 1) ?c))"
        using n True by (rule lowest_from_step)
      with True show ?thesis by (subst lower_height.simps) simp
    qed
  qed
  with assms show ?thesis by simp
qed

text \<open>Counting consecutive positions.\<close>

lemma count_loop_step:
  "count_loop ms n = (case map_of ms n of None \<Rightarrow> Some n | Some _ \<Rightarrow> count_loop ms (n + 1))"
  by (subst count_loop.simps) simp

section \<open>Storing a list of messages\<close>

text \<open>The loop over the iterator is a loop over the list it has left.\<close>

primrec store_list :: "(u64 \<times> message_with_metadata) list \<Rightarrow> nitro_streamer \<Rightarrow> nitro_streamer option" where
  "store_list [] s = Some s"
| "store_list (x # xs) s =
    Option.bind (store_message
      \<lparr>MessageWithMeta = snd x, Pos = fst x, HotshotHeight = nextHotshotBlockNum s\<rparr> s) (store_list xs)"

lemma store_messages_list: "store_messages it s = store_list (remaining it) s"
proof (induction "remaining it" arbitrary: it s)
  case Nil
  have "NextMessage it (nextHotshotBlockNum s) = (None, it)"
    by (rule nitro_next.at_end) (simp flip: Nil.hyps)
  then show ?case by (subst store_messages.simps) (simp flip: Nil.hyps)
next
  case (Cons x xs)
  obtain p m where x: "x = (p, m)" by (cases x)
  from nitro_next.takes_next [of it p m xs "nextHotshotBlockNum s"] obtain it' where
    nm: "NextMessage it (nextHotshotBlockNum s)
      = (Some \<lparr>MessageWithMeta = m, Pos = p, HotshotHeight = nextHotshotBlockNum s\<rparr>, it')"
    and rest: "remaining it' = xs"
    by (auto simp: x simp flip: Cons.hyps(2))
  have "store_messages it' = store_list xs"
    using Cons.hyps(1) [of it'] rest by (intro ext) simp
  with nm show ?case
    by (subst store_messages.simps) (simp add: x cong: option.case_cong flip: Cons.hyps(2))
qed

lemma store_message_frame [frame_simps]:
  assumes "store_message msg s = Some s'"
  shows "nextHotshotBlockNum s' = nextHotshotBlockNum s \<and> currentMessagePos s' = currentMessagePos s
    \<and> namespace_id s' = namespace_id s \<and> monitor s' = monitor s"
  using assms by (auto simp: store_message_def Let_def split: if_splits bind_splits)

lemma store_list_frame [frame_simps]:
  "store_list xs s = Some s' \<Longrightarrow>
    nextHotshotBlockNum s' = nextHotshotBlockNum s \<and> currentMessagePos s' = currentMessagePos s
    \<and> namespace_id s' = namespace_id s \<and> monitor s' = monitor s"
  by (induction xs arbitrary: s) (auto split: bind_splits dest!: store_message_frame)

section \<open>The invariant\<close>

definition nitro_inv :: "nitro_streamer \<Rightarrow> bool" where
  "nitro_inv s =
    (distinct (map fst (messages s))
     \<and> (\<forall>p m. map_of (messages s) p = Some m \<longrightarrow>
          currentMessagePos s \<le> p \<and> p \<le> highestPos s \<and> Pos m = p
          \<and> HotshotHeight m \<le> nextHotshotBlockNum s)
     \<and> (\<forall>p q m m'. map_of (messages s) p = Some m \<longrightarrow> map_of (messages s) q = Some m' \<longrightarrow> p \<le> q
          \<longrightarrow> HotshotHeight m \<le> HotshotHeight m'))"

lemma nitro_invI:
  assumes "distinct (map fst (messages s))"
    and "\<And>p m. map_of (messages s) p = Some m \<Longrightarrow>
          currentMessagePos s \<le> p \<and> p \<le> highestPos s \<and> Pos m = p
          \<and> HotshotHeight m \<le> nextHotshotBlockNum s"
    and "\<And>p q m m'. map_of (messages s) p = Some m \<Longrightarrow> map_of (messages s) q = Some m' \<Longrightarrow> p \<le> q
          \<Longrightarrow> HotshotHeight m \<le> HotshotHeight m'"
  shows "nitro_inv s"
  unfolding nitro_inv_def using assms by blast

lemma nitro_inv_entry:
  "nitro_inv s \<Longrightarrow> map_of (messages s) p = Some m \<Longrightarrow>
    currentMessagePos s \<le> p \<and> p \<le> highestPos s \<and> Pos m = p \<and> HotshotHeight m \<le> nextHotshotBlockNum s"
  by (simp add: nitro_inv_def)

lemma nitro_inv_mono:
  "nitro_inv s \<Longrightarrow> map_of (messages s) p = Some m \<Longrightarrow> map_of (messages s) q = Some m' \<Longrightarrow> p \<le> q
    \<Longrightarrow> HotshotHeight m \<le> HotshotHeight m'"
  unfolding nitro_inv_def by blast

lemma nitro_inv_new: "nitro_inv (NewEspressoStreamer_nitro L ns b ranges pos)"
  by (simp add: nitro_inv_def NewEspressoStreamer_nitro_def)

lemma nitro_inv_Reset: "nitro_inv (Reset_nitro p b s)"
  by (simp add: nitro_inv_def Reset_nitro_def)

text \<open>A map that only loses entries and a position below all of them keep it.\<close>

lemma nitro_inv_smaller:
  assumes "nitro_inv s" and "distinct (map fst ms)"
    and "\<And>p m. map_of ms p = Some m \<Longrightarrow> map_of (messages s) p = Some m \<and> c \<le> p"
  shows "nitro_inv (s\<lparr>messages := ms, currentMessagePos := c\<rparr>)"
proof -
  have "currentMessagePos s \<le> p \<and> p \<le> highestPos s \<and> Pos m = p \<and> HotshotHeight m \<le> nextHotshotBlockNum s"
    if "map_of ms p = Some m" for p m
    using nitro_inv_entry [OF assms(1)] assms(3) [OF that] by blast
  moreover have "HotshotHeight m \<le> HotshotHeight m'"
    if "map_of ms p = Some m" "map_of ms q = Some m'" "p \<le> q" for p q m m'
    using nitro_inv_mono [OF assms(1) _ _ that(3)] assms(3) [OF that(1)] assms(3) [OF that(2)] by blast
  ultimately show ?thesis
    using assms(2,3) by (intro nitro_invI) simp_all
qed

lemma nitro_inv_AdvanceTo:
  assumes "nitro_inv s"
  shows "nitro_inv (AdvanceTo toPos s)"
proof (cases "toPos \<le> currentMessagePos s")
  case False
  have "nitro_inv (s\<lparr>messages := delete_range (currentMessagePos s) toPos (messages s), currentMessagePos := toPos\<rparr>)"
  proof (rule nitro_inv_smaller [OF assms])
    show "distinct (map fst (delete_range (currentMessagePos s) toPos (messages s)))"
      using assms by (intro delete_range_distinct) (simp add: nitro_inv_def)
    fix p m
    assume "map_of (delete_range (currentMessagePos s) toPos (messages s)) p = Some m"
    then show "map_of (messages s) p = Some m \<and> toPos \<le> p"
      using nitro_inv_entry [OF assms, of p m] by (auto simp: delete_range_map split: if_splits)
  qed
  with False show ?thesis by (simp add: AdvanceTo_def)
qed (simp add: AdvanceTo_def assms)

text \<open>
  Advancing past the largest position wraps to 0; below it the deleted entry is the one at the
  position, and the rest is above. At the largest position nothing else can be buffered.
\<close>

lemma nitro_inv_Advance:
  assumes "nitro_inv s"
  shows "nitro_inv (Advance s)"
proof -
  have "nitro_inv (s\<lparr>messages := AList.delete (currentMessagePos s) (messages s),
      currentMessagePos := currentMessagePos s + 1\<rparr>)"
  proof (rule nitro_inv_smaller [OF assms])
    show "distinct (map fst (AList.delete (currentMessagePos s) (messages s)))"
      using assms by (simp add: nitro_inv_def distinct_delete)
    fix p m
    assume "map_of (AList.delete (currentMessagePos s) (messages s)) p = Some m"
    then have p: "p \<noteq> currentMessagePos s" "map_of (messages s) p = Some m" by (auto split: if_splits)
    with nitro_inv_entry [OF assms] have lt: "currentMessagePos s < p" by (simp add: order.strict_iff_order)
    then have "currentMessagePos s \<noteq> MaxUint64" by (rule less_not_max)
    with lt p show "map_of (messages s) p = Some m \<and> currentMessagePos s + 1 \<le> p"
      by (simp add: succ_le_u64)
  qed
  then show ?thesis by (simp add: Advance_def)
qed

lemma store_message_cases:
  assumes "store_message msg s = Some s'"
  obtains (same) "s' = s" and "Pos msg < currentMessagePos s \<or> map_of (messages s) (Pos msg) \<noteq> None"
  | (stored) h hi where "currentMessagePos s \<le> Pos msg" and "map_of (messages s) (Pos msg) = None"
      and "hi = max (highestPos s) (Pos msg)" and "Pos msg \<noteq> MaxUint64"
      and "lowest_from (messages s) hi (Pos msg + 1) (HotshotHeight msg) h"
      and "s' = s\<lparr>highestPos := hi,
          messages := AList.update (Pos msg) (msg\<lparr>HotshotHeight := h\<rparr>) (messages s)\<rparr>"
proof (cases "Pos msg < currentMessagePos s \<or> map_of (messages s) (Pos msg) \<noteq> None")
  case True
  with assms show ?thesis by (intro same) (auto simp: store_message_def split: if_splits)
next
  case False
  define hi where "hi = max (highestPos s) (Pos msg)"
  have "(if Pos msg > highestPos s then s\<lparr>highestPos := Pos msg\<rparr> else s) = s\<lparr>highestPos := hi\<rparr>"
    by (auto simp: hi_def max_def)
  with assms False obtain h where h: "lower_height (messages s) hi (Pos msg + 1) (HotshotHeight msg) = Some h"
    and s': "s' = s\<lparr>highestPos := hi,
          messages := AList.update (Pos msg) (msg\<lparr>HotshotHeight := h\<rparr>) (messages s)\<rparr>"
    by (auto simp: store_message_def Let_def split: bind_splits)
  have "hi \<noteq> MaxUint64" using h lower_height_stuck by metis
  then have "Pos msg \<noteq> MaxUint64"
    by (auto simp: hi_def max_def word_order.extremum_unique split: if_splits)
  with False h s' show ?thesis
    by (intro stored [OF _ _ hi_def _ lower_height_spec]) auto
qed

lemma nitro_inv_store:
  assumes inv: "nitro_inv s" and "store_message msg s = Some s'"
    and height: "HotshotHeight msg = nextHotshotBlockNum s"
  shows "nitro_inv s'"
  using assms(2)
proof (cases rule: store_message_cases)
  case same
  with inv show ?thesis by simp
next
  case (stored h hi)
  let ?p = "Pos msg"
  have below: "h \<le> HotshotHeight m" if "?p < q" "map_of (messages s) q = Some m" for q m
  proof -
    have "q \<le> hi" using nitro_inv_entry [OF inv that(2)] by (simp add: stored(3) max.coboundedI1)
    with stored(5) that show ?thesis
      unfolding lowest_from_def succ_le_u64 [OF stored(4)] by blast
  qed
  have le: "h \<le> nextHotshotBlockNum s" using stored(5) by (simp add: lowest_from_def height)
  have att: "h = nextHotshotBlockNum s \<or> (\<exists>q m. ?p < q \<and> map_of (messages s) q = Some m \<and> h = HotshotHeight m)"
    using stored(5) unfolding lowest_from_def succ_le_u64 [OF stored(4)] height by blast
  have above: "HotshotHeight m \<le> h" if "map_of (messages s) q = Some m" "q < ?p" for q m
    using att
  proof
    assume "h = nextHotshotBlockNum s"
    with nitro_inv_entry [OF inv that(1)] show ?thesis by simp
  next
    assume "\<exists>q' m'. ?p < q' \<and> map_of (messages s) q' = Some m' \<and> h = HotshotHeight m'"
    then obtain q' m' where "?p < q'" "map_of (messages s) q' = Some m'" "h = HotshotHeight m'" by blast
    with nitro_inv_mono [OF inv that(1), of q' m'] that(2) show ?thesis by simp
  qed
  have map: "map_of (messages s') q = (if q = ?p then Some (msg\<lparr>HotshotHeight := h\<rparr>) else map_of (messages s) q)" for q
    by (simp add: stored(6) update_conv')
  have "distinct (map fst (messages s'))"
    using inv by (simp add: stored(6) nitro_inv_def distinct_update)
  moreover have "currentMessagePos s' \<le> q \<and> q \<le> highestPos s' \<and> Pos m = q \<and> HotshotHeight m \<le> nextHotshotBlockNum s'"
    if "map_of (messages s') q = Some m" for q m
    using that [unfolded map] nitro_inv_entry [OF inv, of q m] stored(1,3) le
    by (auto simp: stored(6) split: if_splits intro: max.coboundedI1)
  moreover have "HotshotHeight m \<le> HotshotHeight m'"
    if "map_of (messages s') p = Some m" "map_of (messages s') q = Some m'" "p \<le> q" for p q m m'
  proof (cases "p = ?p"; cases "q = ?p")
    assume "p = ?p" "q \<noteq> ?p"
    with that below [of q m'] show ?thesis by (auto simp: map order.strict_iff_order)
  next
    assume "p \<noteq> ?p" "q = ?p"
    with that above [of p m] show ?thesis by (auto simp: map order.strict_iff_order)
  next
    assume "p \<noteq> ?p" "q \<noteq> ?p"
    with that nitro_inv_mono [OF inv, of p m q m'] show ?thesis by (simp add: map)
  next
    assume "p = ?p" "q = ?p"
    with that show ?thesis by (simp add: map)
  qed
  ultimately show ?thesis by (intro nitro_invI) blast+
qed

lemma nitro_inv_store_list:
  "nitro_inv s \<Longrightarrow> store_list xs s = Some s' \<Longrightarrow> nitro_inv s'"
proof (induction xs arbitrary: s)
  case (Cons x xs)
  from Cons.prems(2) obtain s1 where st: "store_message
      \<lparr>MessageWithMeta = snd x, Pos = fst x, HotshotHeight = nextHotshotBlockNum s\<rparr> s = Some s1"
    and rest: "store_list xs s1 = Some s'"
    by (auto split: bind_splits)
  from nitro_inv_store [OF Cons.prems(1) st] have "nitro_inv s1" by simp
  with rest show ?case by (rule Cons.IH [rotated])
qed simp

text \<open>Moving the next block forward keeps it.\<close>

lemma nitro_inv_forward:
  "nitro_inv s \<Longrightarrow> nextHotshotBlockNum s \<le> b \<Longrightarrow> nitro_inv (s\<lparr>nextHotshotBlockNum := b\<rparr>)"
proof -
  assume inv: "nitro_inv s" and le: "nextHotshotBlockNum s \<le> b"
  have "HotshotHeight m \<le> b" if "map_of (messages s) p = Some m" for p m
    using nitro_inv_entry [OF inv that] le by (auto intro: order_trans)
  moreover have "distinct (map fst (messages s))" using inv by (simp add: nitro_inv_def)
  ultimately show "nitro_inv (s\<lparr>nextHotshotBlockNum := b\<rparr>)"
    using nitro_inv_entry [OF inv] nitro_inv_mono [OF inv]
    by (intro nitro_invI) (simp_all del: map_of_eq_Some_iff)
qed

section \<open>The block the range ends before\<close>

definition range_end :: "u64 \<Rightarrow> u64 \<Rightarrow> u64" where
  "range_end b latest = (if latest - b > HOTSHOT_RANGE_LIMIT then b + HOTSHOT_RANGE_LIMIT else latest)"

lemma range_end_bounds:
  assumes "b \<le> latest"
  shows "b \<le> range_end b latest \<and> range_end b latest \<le> latest
    \<and> unat (range_end b latest) - unat b \<le> 100"
proof (cases "latest - b > HOTSHOT_RANGE_LIMIT")
  case True
  with assms have far: "unat latest - unat b > 100" "unat b \<le> unat latest"
    by (auto simp: HOTSHOT_RANGE_LIMIT_def word_less_nat_alt word_le_nat_alt unat_sub)
  then have "unat (b + HOTSHOT_RANGE_LIMIT) = unat b + 100"
    using unat_u64_bound [of latest] by (subst unat_add_u64) (simp_all add: HOTSHOT_RANGE_LIMIT_def)
  with far True show ?thesis by (simp add: range_end_def word_le_nat_alt)
next
  case False
  with assms have "unat latest - unat b \<le> 100"
    by (simp add: HOTSHOT_RANGE_LIMIT_def word_less_nat_alt word_le_nat_alt unat_sub)
  with False assms show ?thesis by (simp add: range_end_def)
qed

lemma fetch_range_cases:
  assumes "fetch_range C b ns = Inr (to, d)"
  obtains (none) "to = b" and "d = None"
  | (range) latest where "FetchLatestBlockHeight C = Inr latest" and "b < to" and "to = range_end b latest"
      and "b \<le> latest"
proof -
  from assms obtain latest where latest: "FetchLatestBlockHeight C = Inr latest"
    by (auto simp: fetch_range_def split: sum.splits)
  show ?thesis
  proof (cases "b > latest \<or> b = range_end b latest")
    case True
    with assms have "to = b \<and> d = None"
      unfolding fetch_range_def latest sum.case Let_def range_end_def [symmetric]
      by (auto split: if_splits)
    then show ?thesis using none by blast
  next
    case False
    then have "b \<le> latest" "b < range_end b latest"
      using range_end_bounds [of b latest] by (auto simp: order.strict_iff_order)
    moreover from False assms have "to = range_end b latest"
      unfolding fetch_range_def latest sum.case Let_def range_end_def [symmetric]
      by (auto split: sum.splits if_splits)
    ultimately show ?thesis using range latest by blast
  qed
qed

lemma fetch_range_forward:
  assumes "fetch_range C b ns = Inr (to, d)"
  shows "b \<le> to \<and> unat to - unat b \<le> 100"
  using assms
proof (cases rule: fetch_range_cases)
  case (range latest)
  with range_end_bounds [of b latest] show ?thesis by simp
qed simp

end
