(* ===== verification/Nitro_Interface.thy ===== *)
theory Nitro_Interface
  imports Nitro_Invariant
begin

text \<open>
  \<open>EspressoStreamerInterface\<close> of \<open>nitro/nitro_streamer.go\<close>: its methods on the buffered messages as
  a record, the contract a reader may rely on, and a reader of the contract. \<open>Start\<close> and
  \<open>StopAndWait\<close> act on goroutines and are in \<open>Nitro_Lifecycle\<close>.
\<close>

record 's nitro_ops =
  nop_Peek :: "'s \<Rightarrow> message_and_pos option"
  nop_Advance :: "'s \<Rightarrow> 's"
  nop_AdvanceTo :: "u64 \<Rightarrow> 's \<Rightarrow> 's"
  nop_Reset :: "u64 \<Rightarrow> u64 \<Rightarrow> 's \<Rightarrow> 's"
  nop_GetCurrentEarliestHotShotBlockNumber :: "'s \<Rightarrow> u64 \<Rightarrow> u64"

definition espresso_nitro_streamer :: "nitro_streamer nitro_ops" where
  "espresso_nitro_streamer =
    \<lparr>nop_Peek = Peek_nitro, nop_Advance = Advance, nop_AdvanceTo = AdvanceTo, nop_Reset = Reset_nitro,
     nop_GetCurrentEarliestHotShotBlockNumber = GetCurrentEarliestHotShotBlockNumber\<rparr>"

text \<open>A reader: up to \<open>n\<close> messages, as long as the next one is there.\<close>

fun read_messages :: "'s nitro_ops \<Rightarrow> nat \<Rightarrow> 's \<Rightarrow> message_and_pos list \<times> 's" where
  "read_messages ops 0 s = ([], s)"
| "read_messages ops (Suc n) s =
    (case nop_Peek ops s of
       None \<Rightarrow> ([], s)
     | Some m \<Rightarrow> (case read_messages ops n (nop_Advance ops s) of (ms, s') \<Rightarrow> (m # ms, s')))"

locale message_source =
  fixes ops :: "'s nitro_ops" and ok :: "'s \<Rightarrow> bool" and pos :: "'s \<Rightarrow> u64"
  assumes peek_pos: "ok s \<Longrightarrow> nop_Peek ops s = Some m \<Longrightarrow> Pos m = pos s"
    and peek_height: "ok s \<Longrightarrow> nop_Peek ops s = Some m \<Longrightarrow>
      nop_GetCurrentEarliestHotShotBlockNumber ops s (pos s) = HotshotHeight m"
    and advance_moves: "ok s \<Longrightarrow> ok (nop_Advance ops s) \<and> pos (nop_Advance ops s) = pos s + 1"
    and advance_heights: "ok s \<Longrightarrow> pos s \<noteq> MaxUint64 \<Longrightarrow> nop_Peek ops s = Some m \<Longrightarrow>
      nop_Peek ops (nop_Advance ops s) = Some m' \<Longrightarrow> HotshotHeight m \<le> HotshotHeight m'"
    and advance_to_moves: "ok s \<Longrightarrow> ok (nop_AdvanceTo ops q s) \<and> pos (nop_AdvanceTo ops q s) = max (pos s) q"
    and reset_empties: "ok s \<Longrightarrow> ok (nop_Reset ops q b s) \<and> pos (nop_Reset ops q b s) = q
      \<and> nop_Peek ops (nop_Reset ops q b s) = None \<and> nop_GetCurrentEarliestHotShotBlockNumber ops (nop_Reset ops q b s) r = b"
begin

text \<open>The messages read have consecutive positions and heights that do not go down.\<close>

lemma reads_consecutive:
  assumes "read_messages ops n s = (ms, s')" and "ok s"
  shows "map Pos ms = map (\<lambda>i. pos s + of_nat i) [0..<length ms] \<and> pos s' = pos s + of_nat (length ms) \<and> ok s'"
  using assms
proof (induction n arbitrary: s ms s')
  case (Suc n)
  show ?case
  proof (cases "nop_Peek ops s")
    case (Some m)
    obtain ks t where k: "read_messages ops n (nop_Advance ops s) = (ks, t)" by fastforce
    then have ms: "ms = m # ks" "s' = t" using Suc.prems(1) Some by simp_all
    have a: "ok (nop_Advance ops s)" "pos (nop_Advance ops s) = pos s + 1"
      using advance_moves [OF Suc.prems(2)] by simp_all
    have "map Pos ks = map (\<lambda>i. pos s + of_nat (Suc i)) [0..<length ks]" "pos t = pos s + 1 + of_nat (length ks)" "ok t"
      using Suc.IH [OF k a(1)] a(2) by (simp_all add: add_ac)
    then show ?thesis
      using peek_pos [OF Suc.prems(2) Some]
      by (simp add: ms upt_conv_Cons map_Suc_upt [symmetric] add_ac comp_def del: upt_Suc)
  qed (use Suc.prems in simp)
qed simp

lemma reads_heights:
  assumes "read_messages ops n s = (ms, s')" and "ok s" and "unat (pos s) + n < 2 ^ 64"
  shows "sorted (map HotshotHeight ms)"
    and "ms \<noteq> [] \<Longrightarrow> nop_GetCurrentEarliestHotShotBlockNumber ops s (pos s) = HotshotHeight (hd ms)"
proof -
  have "sorted (map HotshotHeight ms) \<and> (ms \<noteq> [] \<longrightarrow> nop_Peek ops s = Some (hd ms))"
    using assms
  proof (induction n arbitrary: s ms s')
    case (Suc n)
    show ?case
    proof (cases "nop_Peek ops s")
      case (Some m)
      obtain ks t where k: "read_messages ops n (nop_Advance ops s) = (ks, t)" by fastforce
      then have ms: "ms = m # ks" using Suc.prems(1) Some by simp
      have top: "pos s \<noteq> MaxUint64"
        using Suc.prems(3) by (auto simp: unsigned_minus_1_eq_mask mask_eq_exp_minus_1)
      have a: "ok (nop_Advance ops s)" "unat (pos (nop_Advance ops s)) = unat (pos s) + 1"
        using advance_moves [OF Suc.prems(2)] u_plus_one [OF top] by simp_all
      have IH: "sorted (map HotshotHeight ks) \<and> (ks \<noteq> [] \<longrightarrow> nop_Peek ops (nop_Advance ops s) = Some (hd ks))"
        using Suc.IH [OF k a(1)] Suc.prems(3) a(2) by simp
      show ?thesis
      proof (cases ks)
        case (Cons x xs)
        then have "HotshotHeight m \<le> HotshotHeight x"
          using advance_heights [OF Suc.prems(2) top Some] IH by simp
        then show ?thesis using IH Some Cons by (auto simp: ms)
      qed (use Some in \<open>simp add: ms\<close>)
    qed (use Suc.prems in simp)
  qed simp
  then show "sorted (map HotshotHeight ms)"
    and "ms \<noteq> [] \<Longrightarrow> nop_GetCurrentEarliestHotShotBlockNumber ops s (pos s) = HotshotHeight (hd ms)"
    using peek_height [OF assms(2)] by blast+
qed

end

interpretation nitro_source: message_source espresso_nitro_streamer nitro_inv currentMessagePos
proof unfold_locales
  fix s m m' q b r
  assume inv: "nitro_inv s"
  show "nop_Peek espresso_nitro_streamer s = Some m \<Longrightarrow> Pos m = currentMessagePos s"
    using nitro_inv_entry [OF inv] by (simp add: espresso_nitro_streamer_def Peek_nitro_def)
  show "nop_Peek espresso_nitro_streamer s = Some m \<Longrightarrow>
      nop_GetCurrentEarliestHotShotBlockNumber espresso_nitro_streamer s (currentMessagePos s) = HotshotHeight m"
    by (auto simp: espresso_nitro_streamer_def Peek_nitro_def GetCurrentEarliestHotShotBlockNumber_def)
  show "nitro_inv (nop_Advance espresso_nitro_streamer s)
      \<and> currentMessagePos (nop_Advance espresso_nitro_streamer s) = currentMessagePos s + 1"
    using nitro_inv_Advance [OF inv] by (simp add: espresso_nitro_streamer_def) (simp add: Advance_def)
  show "currentMessagePos s \<noteq> MaxUint64 \<Longrightarrow> nop_Peek espresso_nitro_streamer s = Some m \<Longrightarrow>
      nop_Peek espresso_nitro_streamer (nop_Advance espresso_nitro_streamer s) = Some m' \<Longrightarrow>
      HotshotHeight m \<le> HotshotHeight m'"
    using nitro_inv_mono [OF inv, of "currentMessagePos s" m "currentMessagePos s + 1" m'] u64_less_succ [of "currentMessagePos s"]
    by (auto simp: espresso_nitro_streamer_def Peek_nitro_def Advance_def split: if_splits)
  show "nitro_inv (nop_AdvanceTo espresso_nitro_streamer q s)
      \<and> currentMessagePos (nop_AdvanceTo espresso_nitro_streamer q s) = max (currentMessagePos s) q"
    using nitro_inv_AdvanceTo [OF inv] by (simp add: espresso_nitro_streamer_def) (auto simp: AdvanceTo_def max_def)
  show "nitro_inv (nop_Reset espresso_nitro_streamer q b s)
      \<and> currentMessagePos (nop_Reset espresso_nitro_streamer q b s) = q
      \<and> nop_Peek espresso_nitro_streamer (nop_Reset espresso_nitro_streamer q b s) = None
      \<and> nop_GetCurrentEarliestHotShotBlockNumber espresso_nitro_streamer (nop_Reset espresso_nitro_streamer q b s) r = b"
    by (simp add: espresso_nitro_streamer_def nitro_inv_Reset)
      (simp add: Reset_nitro_def Peek_nitro_def GetCurrentEarliestHotShotBlockNumber_def)
qed

text \<open>
  What a reader of the Nitro streamer sees: messages of consecutive positions from the position on,
  with HotShot heights that never go down, and the block named for a restart is the height of the first of them.
\<close>

theorem nitro_reads_in_order:
  assumes "read_messages espresso_nitro_streamer n s = (ms, s')" and "nitro_inv s"
    and "unat (currentMessagePos s) + n < 2 ^ 64"
  shows "map Pos ms = map (\<lambda>i. currentMessagePos s + of_nat i) [0..<length ms]
    \<and> currentMessagePos s' = currentMessagePos s + of_nat (length ms)
    \<and> sorted (map HotshotHeight ms)
    \<and> (ms \<noteq> [] \<longrightarrow> GetCurrentEarliestHotShotBlockNumber s (currentMessagePos s) = HotshotHeight (hd ms))"
proof -
  have "nop_GetCurrentEarliestHotShotBlockNumber espresso_nitro_streamer = GetCurrentEarliestHotShotBlockNumber"
    by (simp add: espresso_nitro_streamer_def)
  then show ?thesis
    using nitro_source.reads_consecutive [OF assms(1,2)] nitro_source.reads_heights [OF assms] by simp
qed

end
