(* ===== verification/Nitro_Concurrency.thy ===== *)
theory Nitro_Concurrency
  imports Nitro_Invariant
begin

text \<open>
  The goroutine of \<open>Start\<close> and the callers of the other methods, interleaved. A call of
  \<open>QueueMessagesFromHotshot\<close> is split at the points where it does not hold the lock: reading the
  start block and fetching, one step per payload, and the final move to the next block. The
  other methods are one step each. A run carries the log of what was read since the last
  \<open>Reset\<close>: for every verified message its position and the first block of the range it was in.
\<close>

section \<open>Steps\<close>

datatype queue_pc = Idle | Parsing u64 u64 u64 "bytes list"

type_synonym nitro_conf = "nitro_streamer \<times> queue_pc"

datatype nitro_event =
    BeginQueue nitro_client
  | ParseNext
  | CommitBlock
  | ResetCall u64 u64
  | AdvanceCall
  | AdvanceToCall u64

inductive nitro_step :: "'k nitro_lib \<Rightarrow> nitro_conf \<Rightarrow> nitro_event \<Rightarrow> nitro_conf \<Rightarrow> bool" for L where
  begin_fails:
    "fetch_range C (nextHotshotBlockNum s) (namespace_id s) = Inl err
      \<Longrightarrow> nitro_step L (s, Idle) (BeginQueue C) (s, Idle)"
| begin_range:
    "fetch_range C (nextHotshotBlockNum s) (namespace_id s) = Inr (to, d)
      \<Longrightarrow> nitro_step L (s, Idle) (BeginQueue C)
            (s, case d of None \<Rightarrow> Parsing (nextHotshotBlockNum s) to 0 []
                | Some (l1Height, blocks) \<Rightarrow> Parsing (nextHotshotBlockNum s) to l1Height (concat blocks))"
| parse_payload:
    "parseEspressoTransaction L tx l1Height s = Some (r, s')
      \<Longrightarrow> nitro_step L (s, Parsing b to l1Height (tx # txs)) ParseNext (s', Parsing b to l1Height txs)"
| commit_block:
    "nitro_step L (s, Parsing b to l1Height []) CommitBlock
       (if nextHotshotBlockNum s = b then s\<lparr>nextHotshotBlockNum := to\<rparr> else s, Idle)"
| reset_call: "nitro_step L (s, pc) (ResetCall pos b) (Reset_nitro pos b s, pc)"
| advance_call: "nitro_step L (s, pc) AdvanceCall (Advance s, pc)"
| advance_to_call: "nitro_step L (s, pc) (AdvanceToCall pos) (AdvanceTo pos s, pc)"


inductive nitro_steps :: "'k nitro_lib \<Rightarrow> nitro_conf \<Rightarrow> nitro_event list \<Rightarrow> nitro_conf \<Rightarrow> bool" for L where
  steps_refl: "nitro_steps L c [] c"
| steps_step: "nitro_step L c e c' \<Longrightarrow> nitro_steps L c' es c'' \<Longrightarrow> nitro_steps L c (e # es) c''"

inductive_simps nitro_steps_simps [simp]: "nitro_steps L c [] c'" "nitro_steps L c (e # es) c'"

lemma nitro_steps_append:
  "nitro_steps L c es c' \<Longrightarrow> nitro_steps L c' es' c'' \<Longrightarrow> nitro_steps L c (es @ es') c''"
  by (induction rule: nitro_steps.induct) (auto intro: steps_step)

section \<open>The method is a run of its steps\<close>

lemma parse_blocks_concat:
  "parse_blocks f h blocks s = parse_payloads f h (concat blocks) s"
proof -
  have app: "parse_payloads f h (xs @ ys) s = Option.bind (parse_payloads f h xs s) (parse_payloads f h ys)" for xs ys s
  proof (induction xs arbitrary: s)
    case (Cons x xs)
    then show ?case by (cases "f x h s") auto
  qed simp
  show ?thesis
  proof (induction blocks arbitrary: s)
    case (Cons block blocks)
    then show ?case by (cases "parse_payloads f h block s") (simp_all add: app)
  qed simp
qed

lemma parse_payloads_steps:
  "parse_payloads (parseEspressoTransaction L) h txs s = Some s'
    \<Longrightarrow> nitro_steps L (s, Parsing b to h txs) (replicate (length txs) ParseNext) (s', Parsing b to h [])"
proof (induction txs arbitrary: s)
  case (Cons tx txs)
  from Cons.prems obtain r s1 where "parseEspressoTransaction L tx h s = Some (r, s1)"
    "parse_payloads (parseEspressoTransaction L) h txs s1 = Some s'"
    by (auto split: bind_splits)
  with Cons.IH show ?case by (auto intro: parse_payload)
qed (simp add: steps_refl)

text \<open>
  Without another caller in between, \<open>QueueMessagesFromHotshot\<close> is the run of its steps: start,
  one step per payload, and the move to the next block unless the fetch failed.
\<close>

lemma queue_is_run:
  assumes "QueueMessagesFromHotshot C (parseEspressoTransaction L) s = Some (r, s')"
  shows "\<exists>es. nitro_steps L (s, Idle) (BeginQueue C # es) (s', Idle)"
proof (cases "fetch_range C (nextHotshotBlockNum s) (namespace_id s)")
  case (Inl err)
  with assms have "s' = s" by (simp add: QueueMessagesFromHotshot_def fetchNextHotshotBlock_def)
  with begin_fails [OF Inl] show ?thesis by (intro exI [of _ "[]"]) auto
next
  case (Inr v)
  obtain to d where v: "v = (to, d)" by (cases v)
  let ?b = "nextHotshotBlockNum s"
  note start = begin_range [OF Inr [unfolded v], of L]
  show ?thesis
  proof (cases d)
    case None
    with assms have "s' = s\<lparr>nextHotshotBlockNum := to\<rparr>"
      by (simp add: QueueMessagesFromHotshot_def fetchNextHotshotBlock_def Inr v)
    with start None commit_block [of L s ?b to 0] show ?thesis
      by (intro exI [of _ "[CommitBlock]"]) auto
  next
    case (Some hd)
    obtain h blocks where hd: "hd = (h, blocks)" by (cases hd)
    from assms obtain s1 where s1: "parse_payloads (parseEspressoTransaction L) h (concat blocks) s = Some s1"
      and s': "s' = (if nextHotshotBlockNum s1 = ?b then s1\<lparr>nextHotshotBlockNum := to\<rparr> else s1)"
      by (auto simp: QueueMessagesFromHotshot_def fetchNextHotshotBlock_def Inr v Some hd parse_blocks_concat
          split: bind_splits)
    have "nitro_steps L (s1, Parsing ?b to h []) [CommitBlock] (s', Idle)"
      unfolding s' by (intro steps_step [OF commit_block] steps_refl)
    with parse_payloads_steps [OF s1, of ?b to]
    have "nitro_steps L (s, Parsing ?b to h (concat blocks))
        (replicate (length (concat blocks)) ParseNext @ [CommitBlock]) (s', Idle)"
      by (rule nitro_steps_append)
    moreover from start have "nitro_step L (s, Idle) (BeginQueue C) (s, Parsing ?b to h (concat blocks))"
      by (simp add: Some hd)
    ultimately have "nitro_steps L (s, Idle)
        (BeginQueue C # replicate (length (concat blocks)) ParseNext @ [CommitBlock]) (s', Idle)"
      by (rule steps_step [rotated])
    then show ?thesis by blast
  qed
qed

section \<open>What a payload adds\<close>

text \<open>The verified messages of a payload, those the streamer tries to store.\<close>

definition accepted :: "'k nitro_lib \<Rightarrow> nitro_streamer \<Rightarrow> u64 \<Rightarrow> bytes \<Rightarrow> (u64 \<times> message_with_metadata) list" where
  "accepted L s l1Height tx =
    (case ParseNitroMessagesFromHotShot L tx of
       Some (Inr message) \<Rightarrow>
         if fst (NextMessage (MessageIterator message) 0) = None then []
         else (case VerifySignature L (IsValid (monitor s)) (ChainID s) l1Height message of
             Inl _ \<Rightarrow> []
           | Inr message \<Rightarrow> counted (payload_list message))
     | _ \<Rightarrow> [])"

lemma acceptedD:
  assumes "x \<in> set (accepted L s l1Height tx)"
  shows "\<exists>P P'. ParseNitroMessagesFromHotShot L tx = Some (Inr P)
    \<and> VerifySignature L (IsValid (monitor s)) (ChainID s) l1Height P = Inr P'
    \<and> x \<in> set (counted (payload_list P'))"
proof (cases "ParseNitroMessagesFromHotShot L tx")
  case None
  with assms show ?thesis by (simp add: accepted_def)
next
  case (Some r)
  show ?thesis
  proof (cases r)
    case (Inl err)
    with assms Some show ?thesis by (simp add: accepted_def)
  next
    case (Inr P)
    with assms Some show ?thesis
      by (cases "VerifySignature L (IsValid (monitor s)) (ChainID s) l1Height P")
        (auto simp: accepted_def split: if_splits)
  qed
qed

lemma parse_stores:
  "parseEspressoTransaction L tx l1Height s = Some (r, s')
    \<Longrightarrow> store_list (accepted L s l1Height tx) s = Some s'"
  by (auto simp: parseEspressoTransaction_def accepted_def store_messages_list remaining_MessageIterator
      split: bind_splits sum.splits if_splits)

lemma parse_returns_iff:
  "(\<exists>r s'. parseEspressoTransaction L tx l1Height s = Some (r, s')) \<longleftrightarrow>
    ParseNitroMessagesFromHotShot L tx \<noteq> None \<and> store_list (accepted L s l1Height tx) s \<noteq> None"
  by (cases "ParseNitroMessagesFromHotShot L tx")
    (auto simp: parseEspressoTransaction_def accepted_def store_messages_list remaining_MessageIterator
      split: sum.splits)

text \<open>An entry that is buffered stays as it is, and every message at or above the position is buffered.\<close>

lemma store_message_keeps:
  "store_message msg s = Some s' \<Longrightarrow> map_of (messages s) p = Some m \<Longrightarrow> map_of (messages s') p = Some m"
  by (cases rule: store_message_cases) (auto simp: update_conv')

lemma store_message_adds:
  "store_message msg s = Some s' \<Longrightarrow> currentMessagePos s \<le> Pos msg \<Longrightarrow> map_of (messages s') (Pos msg) \<noteq> None"
  by (cases rule: store_message_cases) (auto simp: update_conv')

lemma store_list_keeps:
  "store_list xs s = Some s' \<Longrightarrow> map_of (messages s) p = Some m \<Longrightarrow> map_of (messages s') p = Some m"
proof (induction xs arbitrary: s)
  case (Cons x xs)
  then show ?case by (auto split: bind_splits dest: store_message_keeps)
qed simp

lemma store_list_adds:
  "store_list xs s = Some s' \<Longrightarrow> (p, m) \<in> set xs \<Longrightarrow> currentMessagePos s \<le> p
    \<Longrightarrow> map_of (messages s') p \<noteq> None"
proof (induction xs arbitrary: s)
  case (Cons x xs)
  from Cons.prems(1) obtain s1 where s1: "store_message
      \<lparr>MessageWithMeta = snd x, Pos = fst x, HotshotHeight = nextHotshotBlockNum s\<rparr> s = Some s1"
    and rest: "store_list xs s1 = Some s'"
    by (auto split: bind_splits)
  show ?case
  proof (cases "(p, m) \<in> set xs")
    case True
    with Cons.IH [OF rest] Cons.prems(3) store_message_frame [OF s1] show ?thesis by simp
  next
    case False
    with Cons.prems(2) have "fst x = p" by auto
    with store_message_adds [OF s1] Cons.prems(3) obtain e where "map_of (messages s1) p = Some e" by auto
    from store_list_keeps [OF rest this] show ?thesis by simp
  qed
qed simp

lemma store_list_origin:
  "store_list xs s = Some s' \<Longrightarrow> map_of (messages s') p = Some e
    \<Longrightarrow> map_of (messages s) p = Some e \<or> (p, MessageWithMeta e) \<in> set xs"
proof (induction xs arbitrary: s)
  case (Cons x xs)
  from Cons.prems(1) obtain s1 where s1: "store_message
      \<lparr>MessageWithMeta = snd x, Pos = fst x, HotshotHeight = nextHotshotBlockNum s\<rparr> s = Some s1"
    and rest: "store_list xs s1 = Some s'"
    by (auto split: bind_splits)
  from Cons.IH [OF rest Cons.prems(2)] show ?case
  proof
    assume e: "map_of (messages s1) p = Some e"
    from s1 show ?thesis
      by (cases rule: store_message_cases) (use e in \<open>auto simp: update_conv' split: if_splits\<close>)
  qed simp
qed simp

section \<open>Reachable states and what was read\<close>

definition log_after ::
  "'k nitro_lib \<Rightarrow> nitro_conf \<Rightarrow> nitro_event \<Rightarrow> (u64 \<times> u64) list \<Rightarrow> (u64 \<times> u64) list" where
  "log_after L c e log =
    (case e of
       ResetCall _ _ \<Rightarrow> []
     | ParseNext \<Rightarrow>
         (case snd c of
            Parsing b to l1Height (tx # txs) \<Rightarrow> log @ map (\<lambda>(p, _). (b, p)) (accepted L (fst c) l1Height tx)
          | _ \<Rightarrow> log)
     | _ \<Rightarrow> log)"

text \<open>
  \<open>quiet\<close>: no \<open>Reset\<close> while a range is being parsed, and no \<open>Advance\<close> beyond the largest
  position, which would wrap to 0.
\<close>

definition quiet :: "nitro_conf \<Rightarrow> nitro_event \<Rightarrow> bool" where
  "quiet c e =
    (case e of
       ResetCall _ _ \<Rightarrow> snd c = Idle
     | AdvanceCall \<Rightarrow> currentMessagePos (fst c) \<noteq> MaxUint64
     | _ \<Rightarrow> True)"

inductive nitro_reach ::
  "'k nitro_lib \<Rightarrow> (nitro_conf \<Rightarrow> nitro_event \<Rightarrow> bool) \<Rightarrow> nitro_streamer \<Rightarrow> nitro_conf \<Rightarrow> (u64 \<times> u64) list \<Rightarrow> bool"
  for L ok s0 where
  reach_start: "nitro_reach L ok s0 (s0, Idle) []"
| reach_step: "nitro_reach L ok s0 c log \<Longrightarrow> nitro_step L c e c' \<Longrightarrow> ok c e
    \<Longrightarrow> nitro_reach L ok s0 c' (log_after L c e log)"

text \<open>An invariant of every step, whatever the callers do.\<close>

lemma reach_invariant:
  assumes "nitro_reach L ok s0 c log" and "I (s0, Idle)"
    and "\<And>c e c'. nitro_step L c e c' \<Longrightarrow> ok c e \<Longrightarrow> I c \<Longrightarrow> I c'"
  shows "I c"
  using assms(1) by (induction rule: nitro_reach.induct) (use assms(2,3) in auto)

text \<open>The range being parsed starts at or before its end.\<close>

definition conf_inv :: "nitro_conf \<Rightarrow> bool" where
  "conf_inv c = (nitro_inv (fst c) \<and> (case snd c of Idle \<Rightarrow> True | Parsing b to _ _ \<Rightarrow> b \<le> to))"

lemma parse_keeps_inv:
  "parseEspressoTransaction L tx l1Height s = Some (r, s') \<Longrightarrow> nitro_inv s \<Longrightarrow> nitro_inv s'"
  by (rule nitro_inv_store_list [OF _ parse_stores])

lemma parse_frame:
  "parseEspressoTransaction L tx l1Height s = Some (r, s') \<Longrightarrow>
    nextHotshotBlockNum s' = nextHotshotBlockNum s \<and> currentMessagePos s' = currentMessagePos s
    \<and> namespace_id s' = namespace_id s \<and> monitor s' = monitor s"
  by (rule store_list_frame [OF parse_stores])

lemma conf_inv_step:
  assumes "nitro_step L c e c'" and "conf_inv c"
  shows "conf_inv c'"
  using assms
proof cases
  case (begin_range C s to d)
  with fetch_range_forward [OF begin_range(4)] assms(2) show ?thesis
    by (auto simp: conf_inv_def split: option.splits)
next
  case (parse_payload tx l1Height s r s' b to txs)
  with parse_keeps_inv [OF parse_payload(4)] assms(2) show ?thesis by (simp add: conf_inv_def)
next
  case (commit_block s b to l1Height)
  with assms(2) nitro_inv_forward [of s to] show ?thesis by (simp add: conf_inv_def)
qed (use assms(2) in \<open>auto simp: conf_inv_def nitro_inv_Reset nitro_inv_Advance nitro_inv_AdvanceTo\<close>)

lemma conf_inv_reach:
  assumes "nitro_reach L ok (NewEspressoStreamer_nitro L ns b ranges pos) c log"
  shows "conf_inv c"
  using assms
proof (rule reach_invariant)
  show "conf_inv (NewEspressoStreamer_nitro L ns b ranges pos, Idle)"
    by (simp add: conf_inv_def nitro_inv_new)
qed (rule conf_inv_step)

end
