(* ===== verification/Nitro_Sample_Run.thy ===== *)
theory Nitro_Sample_Run
  imports Nitro_Concurrency
begin

text \<open>
  A concrete run of the Nitro streamer, on which the theorems about reachable states are
  evaluated: one fetch of the range from block 10 to 11 with two signed payloads at the
  positions 4 and 5.
\<close>

section \<open>A signed payload\<close>

definition sample_frames :: "u64 \<Rightarrow> (u64 \<times> bytes) list" where
  "sample_frames p = [(p, be_bytes 8 (1 :: u64) @ [9])]"

definition sample_tx :: "u64 \<Rightarrow> bytes" where
  "sample_tx p = v0_payload (sample_sign 5 (sample_hash (v0_frames (sample_frames p)))) (sample_frames p)"

definition sample_v0_message :: "u64 \<Rightarrow> v0_signature_and_messages" where
  "sample_v0_message p =
    \<lparr>v0_signature = sample_sign 5 (sample_hash (v0_frames (sample_frames p))),
     v0_hash = sample_hash (v0_frames (sample_frames p)),
     v0_messages = [\<lparr>v0_pos = p, v0_message = sample_msg 1 [9]\<rparr>]\<rparr>"

lemma v0_prefix:
  assumes "length sg = 65"
  shows "HasPrefix (v0_payload sg fs) version0Peek" and "\<not> HasPrefix (v0_payload sg fs) version1HeaderPeek"
proof -
  have sz: "be_bytes 8 (65 :: u64) = version0Peek" and len: "length version0Peek = 8" by code_simp+
  show "HasPrefix (v0_payload sg fs) version0Peek"
    using assms by (simp add: HasPrefix_def v0_payload_def sz len)
  have "take 8 version1HeaderPeek \<noteq> version0Peek" "length version1HeaderPeek = 12" by code_simp+
  moreover have "take 8 (take 12 (v0_payload sg fs)) = version0Peek"
    using assms by (simp add: v0_payload_def sz len)
  ultimately show "\<not> HasPrefix (v0_payload sg fs) version1HeaderPeek"
    unfolding HasPrefix_def by metis
qed

lemma sample_tx_parses:
  "ParseNitroMessagesFromHotShot sample_nitro (sample_tx p) = Some (Inr (V0Payload (sample_v0_message p)))"
proof -
  let ?sg = "sample_sign 5 (sample_hash (v0_frames (sample_frames p)))"
  have dec: "decode_v0_frames sample_nitro (sample_frames p) = Inr [\<lparr>v0_pos = p, v0_message = sample_msg 1 [9]\<rparr>]"
    by (simp add: sample_frames_def UnmarshalBinary_def del: be_bytes.simps)
  have "length (v0_payload ?sg (sample_frames p)) < 2 ^ 63"
    by (simp add: v0_payload_def sample_frames_def)
  from Unmarshal_v0_payload [OF this dec]
  have "Unmarshal_v0 sample_nitro (sample_tx p) = Some (Inr (sample_v0_message p))"
    by (simp add: sample_tx_def sample_v0_message_def sample_nitro_def)
  with v0_prefix [of ?sg "sample_frames p"] show ?thesis
    by (simp add: ParseNitroMessagesFromHotShot_def sample_tx_def)
qed

definition sample_ranges :: "addr_range_config list" where
  "sample_ranges = [\<lparr>cfg_address = ''aaaaa'', cfg_from = 0, cfg_to = 100\<rparr>]"

lemma sample_valid: "h \<le> 100 \<Longrightarrow> IsValid (NewBatcherAddressMonitor sample_nitro sample_ranges) 5 h"
  by (simp add: IsValid_monitor sample_ranges_def sample_nitro_def)

lemma sample_verifies:
  "VerifySignature sample_nitro (IsValid mon) chain h (V0Payload (sample_v0_message p))
    = (if IsValid mon 5 h then Inr (V0Payload (sample_v0_message p)) else Inl (SigningAddressIsNotValid 5 h))"
  by (simp add: VerifySignature_v0_def check_signer_def sample_v0_message_def Let_def)

lemma sample_accepted_if:
  assumes "IsValid (monitor s) 5 h"
  shows "accepted sample_nitro s h (sample_tx p) = [(p, sample_msg 1 [9])]"
    and "parseEspressoTransaction sample_nitro (sample_tx p) h s
      = map_option (Pair (Inr ())) (store_message
          \<lparr>MessageWithMeta = sample_msg 1 [9], Pos = p, HotshotHeight = nextHotshotBlockNum s\<rparr> s)"
proof -
  let ?m = "sample_v0_message p"
  have list: "payload_list (V0Payload ?m) = [(p, sample_msg 1 [9])]" by (simp add: sample_v0_message_def)
  have some: "fst (NextMessage (MessageIterator (V0Payload ?m)) 0) \<noteq> None"
    unfolding nitro_next.ended_iff remaining_MessageIterator list by simp
  have ver: "VerifySignature sample_nitro (IsValid (monitor s)) (ChainID s) h (V0Payload ?m) = Inr (V0Payload ?m)"
    using assms by (simp only: sample_verifies if_True)
  show "accepted sample_nitro s h (sample_tx p) = [(p, sample_msg 1 [9])]"
    using some ver by (simp add: accepted_def sample_tx_parses list del: payload_list.simps VerifySignature.simps)
  show "parseEspressoTransaction sample_nitro (sample_tx p) h s
      = map_option (Pair (Inr ())) (store_message
          \<lparr>MessageWithMeta = sample_msg 1 [9], Pos = p, HotshotHeight = nextHotshotBlockNum s\<rparr> s)"
    using some ver
    by (simp add: parseEspressoTransaction_def sample_tx_parses store_messages_list remaining_MessageIterator
        list del: payload_list.simps VerifySignature.simps cong: option.case_cong)
      (cases "store_message
          \<lparr>MessageWithMeta = sample_msg 1 [9], Pos = p, HotshotHeight = nextHotshotBlockNum s\<rparr> s"; simp)
qed

lemma sample_accepted:
  assumes "monitor s = NewBatcherAddressMonitor sample_nitro sample_ranges" and "h \<le> 100"
  shows "accepted sample_nitro s h (sample_tx p) = [(p, sample_msg 1 [9])]"
    and "parseEspressoTransaction sample_nitro (sample_tx p) h s
      = map_option (Pair (Inr ())) (store_message
          \<lparr>MessageWithMeta = sample_msg 1 [9], Pos = p, HotshotHeight = nextHotshotBlockNum s\<rparr> s)"
proof -
  have "IsValid (monitor s) 5 h" using sample_valid [OF assms(2)] assms(1) by simp
  then show "accepted sample_nitro s h (sample_tx p) = [(p, sample_msg 1 [9])]"
    and "parseEspressoTransaction sample_nitro (sample_tx p) h s
      = map_option (Pair (Inr ())) (store_message
          \<lparr>MessageWithMeta = sample_msg 1 [9], Pos = p, HotshotHeight = nextHotshotBlockNum s\<rparr> s)"
    by (rule sample_accepted_if)+
qed

lemma sample_accepted_pos:
  assumes "x \<in> set (accepted sample_nitro s h (sample_tx p))"
  shows "fst x = p"
proof -
  from acceptedD [OF assms] obtain P P' where P: "ParseNitroMessagesFromHotShot sample_nitro (sample_tx p) = Some (Inr P)"
    and ver: "VerifySignature sample_nitro (IsValid (monitor s)) (ChainID s) h P = Inr P'"
    and x: "x \<in> set (counted (payload_list P'))"
    by (elim exE conjE)
  have "P = V0Payload (sample_v0_message p)" using P unfolding sample_tx_parses by simp
  with ver have "P' = V0Payload (sample_v0_message p)" by (simp add: bind_res_Inr_iff)
  with subsetD [OF set_counted x] show ?thesis by (simp add: sample_v0_message_def)
qed

section \<open>A fetch of one block\<close>

definition sample_client :: nitro_client where
  "sample_client =
    \<lparr>FetchLatestBlockHeight = Inr 11, FetchHeaderByHeight = (\<lambda>_. Inr (Some 50)),
     FetchNamespaceTransactionsInRange = (\<lambda>_ _ _. Inr [[sample_tx 4, sample_tx 5]])\<rparr>"

definition sample_start :: nitro_streamer where
  "sample_start = NewEspressoStreamer_nitro sample_nitro 1 10 sample_ranges 4"

definition sample_entry :: "u64 \<Rightarrow> u64 \<times> message_and_pos" where
  "sample_entry p = (p, \<lparr>MessageWithMeta = sample_msg 1 [9], Pos = p, HotshotHeight = 10\<rparr>)"

definition sample_one :: nitro_streamer where
  "sample_one = sample_start\<lparr>messages := [sample_entry 4], highestPos := 4\<rparr>"

definition sample_two :: nitro_streamer where
  "sample_two = sample_start\<lparr>messages := [sample_entry 4, sample_entry 5], highestPos := 5\<rparr>"

definition sample_end :: nitro_streamer where
  "sample_end = sample_two\<lparr>nextHotshotBlockNum := 11\<rparr>"

lemmas sample_states = sample_start_def sample_one_def sample_two_def sample_end_def
  sample_entry_def NewEspressoStreamer_nitro_def

lemma lower_height_above: "highest < n \<Longrightarrow> lower_height ms highest n c = Some c"
  by (subst lower_height.simps) (simp only: not_le [symmetric] if_False)

lemma sample_parses:
  "parseEspressoTransaction sample_nitro (sample_tx 4) 50 sample_start = Some (Inr (), sample_one)"
  "parseEspressoTransaction sample_nitro (sample_tx 5) 50 sample_one = Some (Inr (), sample_two)"
  by (simp_all add: sample_accepted(2) sample_states store_message_def Let_def lower_height_above)

lemma sample_nitro_fetch:
  "fetch_range sample_client 10 1 = Inr (11, Some (50, [[sample_tx 4, sample_tx 5]]))"
  by (simp add: fetch_range_def sample_client_def HOTSHOT_RANGE_LIMIT_def)

lemma sample_steps:
  "nitro_step sample_nitro (sample_start, Idle) (BeginQueue sample_client)
    (sample_start, Parsing 10 11 50 [sample_tx 4, sample_tx 5])"
  "nitro_step sample_nitro (sample_start, Parsing 10 11 50 [sample_tx 4, sample_tx 5]) ParseNext
    (sample_one, Parsing 10 11 50 [sample_tx 5])"
  "nitro_step sample_nitro (sample_one, Parsing 10 11 50 [sample_tx 5]) ParseNext
    (sample_two, Parsing 10 11 50 [])"
  "nitro_step sample_nitro (sample_two, Parsing 10 11 50 []) CommitBlock (sample_end, Idle)"
proof -
  have "nextHotshotBlockNum sample_start = 10" "namespace_id sample_start = 1"
    by (simp_all add: sample_states)
  with begin_range [of sample_client sample_start 11 _ sample_nitro] sample_nitro_fetch
  show "nitro_step sample_nitro (sample_start, Idle) (BeginQueue sample_client)
      (sample_start, Parsing 10 11 50 [sample_tx 4, sample_tx 5])" by fastforce
  show "nitro_step sample_nitro (sample_two, Parsing 10 11 50 []) CommitBlock (sample_end, Idle)"
    using commit_block [of sample_nitro sample_two 10 11 50] by (simp add: sample_states)
qed (rule parse_payload, rule sample_parses)+

lemma sample_reach:
  "nitro_reach sample_nitro quiet sample_start (sample_two, Parsing 10 11 50 []) [(10, 4), (10, 5)]"
  "nitro_reach sample_nitro quiet sample_start (sample_end, Idle) [(10, 4), (10, 5)]"
proof -
  have mon: "monitor sample_start = NewBatcherAddressMonitor sample_nitro sample_ranges"
    "monitor sample_one = NewBatcherAddressMonitor sample_nitro sample_ranges"
    by (simp_all add: sample_states)
  have h: "(50 :: u64) \<le> 100" by simp
  note acc = sample_accepted(1) [OF mon(1) h] sample_accepted(1) [OF mon(2) h]
  have "nitro_reach sample_nitro quiet sample_start
      (sample_start, Parsing 10 11 50 [sample_tx 4, sample_tx 5]) []"
    using reach_step [OF reach_start sample_steps(1)] by (simp add: quiet_def log_after_def)
  from reach_step [OF this sample_steps(2)] have "nitro_reach sample_nitro quiet sample_start
      (sample_one, Parsing 10 11 50 [sample_tx 5]) [(10, 4)]"
    by (simp add: quiet_def log_after_def acc)
  from reach_step [OF this sample_steps(3)]
  show two: "nitro_reach sample_nitro quiet sample_start (sample_two, Parsing 10 11 50 []) [(10, 4), (10, 5)]"
    by (simp add: quiet_def log_after_def acc)
  from reach_step [OF two sample_steps(4)]
  show "nitro_reach sample_nitro quiet sample_start (sample_end, Idle) [(10, 4), (10, 5)]"
    by (simp add: quiet_def log_after_def)
qed

end
