(* ===== verification/Nitro_Resume.thy ===== *)
theory Nitro_Resume
  imports Nitro_Sample_Run
begin

text \<open>
  What the interleaved runs of \<open>Nitro_Concurrency\<close> guarantee: the block that
  \<open>GetCurrentEarliestHotShotBlockNumber\<close> names is one a node can restart from, and buffered
  messages are signed by an authorised batcher.
\<close>

section \<open>A safe block to restart from\<close>

definition read_inv :: "nitro_conf \<Rightarrow> (u64 \<times> u64) list \<Rightarrow> bool" where
  "read_inv c log =
    ((\<forall>(b, p) \<in> set log. currentMessagePos (fst c) \<le> p \<longrightarrow>
        (\<exists>m. map_of (messages (fst c)) p = Some m \<and> HotshotHeight m \<le> b))
     \<and> (case snd c of Idle \<Rightarrow> True | Parsing b _ _ _ \<Rightarrow> nextHotshotBlockNum (fst c) = b))"

lemma read_inv_entry:
  "read_inv (s, pc) log \<Longrightarrow> (b, p) \<in> set log \<Longrightarrow> currentMessagePos s \<le> p
    \<Longrightarrow> \<exists>m. map_of (messages s) p = Some m \<and> HotshotHeight m \<le> b"
  by (auto simp: read_inv_def)

lemma read_inv_smaller:
  assumes "read_inv (s, pc) log" and "currentMessagePos s \<le> currentMessagePos s'"
    and "nextHotshotBlockNum s' = nextHotshotBlockNum s"
    and "\<And>p. currentMessagePos s' \<le> p \<Longrightarrow> map_of (messages s') p = map_of (messages s) p"
  shows "read_inv (s', pc) log"
  using assms unfolding read_inv_def by (cases pc) (auto intro: order_trans)

lemma read_inv_parse:
  assumes "read_inv (s, Parsing b to h (tx # txs)) log" and "nitro_inv s"
    and parse: "parseEspressoTransaction L tx h s = Some (r, s')"
  shows "read_inv (s', Parsing b to h txs) (log @ map (\<lambda>(p, _). (b, p)) (accepted L s h tx))"
proof -
  note st = parse_stores [OF parse] and fr = parse_frame [OF parse]
  have b: "nextHotshotBlockNum s = b" using assms(1) by (simp add: read_inv_def)
  have "\<exists>m. map_of (messages s') p = Some m \<and> HotshotHeight m \<le> b'"
    if "(b', p) \<in> set log" "currentMessagePos s' \<le> p" for b' p
    using read_inv_entry [OF assms(1) that(1)] that(2) fr store_list_keeps [OF st] by auto
  moreover have "\<exists>m. map_of (messages s') p = Some m \<and> HotshotHeight m \<le> b"
    if "(p, x) \<in> set (accepted L s h tx)" "currentMessagePos s' \<le> p" for p x
  proof -
    from store_list_adds [OF st that(1)] that(2) fr obtain m where m: "map_of (messages s') p = Some m" by auto
    from nitro_inv_entry [OF parse_keeps_inv [OF parse assms(2)] m] fr b m show ?thesis by simp
  qed
  ultimately show ?thesis
    using fr b by (auto simp: read_inv_def)
qed

lemma read_inv_step:
  assumes "nitro_step L c e c'" and "quiet c e" and "conf_inv c" and "read_inv c log"
  shows "read_inv c' (log_after L c e log)"
  using assms(1)
proof cases
  case (begin_fails C s err)
  with assms(4) show ?thesis by (simp add: log_after_def)
next
  case (begin_range C s to d)
  with assms(4) show ?thesis by (auto simp: log_after_def read_inv_def split: option.splits)
next
  case (parse_payload tx h s r s' b to txs)
  with assms(3,4) read_inv_parse [of s b to h tx txs log L r s'] show ?thesis
    by (simp add: log_after_def conf_inv_def)
next
  case (commit_block s b to h)
  with assms(4) show ?thesis by (auto simp: log_after_def read_inv_def)
next
  case (reset_call s pc pos b)
  with assms(2) show ?thesis by (simp add: log_after_def read_inv_def quiet_def)
next
  case (advance_call s pc)
  have cur: "currentMessagePos s \<noteq> MaxUint64" using assms(2) advance_call by (simp add: quiet_def)
  have "read_inv (Advance s, pc) log"
    using assms(4) unfolding advance_call(1)
  proof (rule read_inv_smaller)
    show "currentMessagePos s \<le> currentMessagePos (Advance s)"
      using u64_less_succ [OF cur] by (simp add: Advance_def)
    show "map_of (messages (Advance s)) p = map_of (messages s) p" if "currentMessagePos (Advance s) \<le> p" for p
      using that succ_le_u64 [OF cur] by (auto simp: Advance_def)
  qed (simp add: Advance_def)
  then show ?thesis using advance_call by (simp add: log_after_def)
next
  case (advance_to_call s pc pos)
  have "read_inv (AdvanceTo pos s, pc) log"
    using assms(4) unfolding advance_to_call(1)
    by (rule read_inv_smaller) (auto simp: AdvanceTo_def delete_range_map)
  then show ?thesis using advance_to_call by (simp add: log_after_def)
qed

lemma read_inv_reach:
  assumes "nitro_reach L quiet (NewEspressoStreamer_nitro L ns b ranges pos) c log"
  shows "conf_inv c \<and> read_inv c log"
  using assms
proof (induction rule: nitro_reach.induct)
  case reach_start
  show ?case by (simp add: conf_inv_def nitro_inv_new read_inv_def)
next
  case (reach_step c log e c')
  with conf_inv_step read_inv_step show ?case by blast
qed

lemma earliest_le:
  assumes "nitro_inv s" and "map_of (messages s) p = Some m" and "pos \<le> p"
  shows "GetCurrentEarliestHotShotBlockNumber s pos \<le> HotshotHeight m"
proof (cases "map_of (messages s) pos")
  case None
  have "(p, m) \<in> set (messages s)" using assms(2) by (rule map_of_SomeD)
  with None assms(3) show ?thesis
    by (auto simp: GetCurrentEarliestHotShotBlockNumber_def intro: min_height_from_lower)
next
  case (Some m')
  then have "messages s \<noteq> []" by auto
  with Some nitro_inv_mono [OF assms(1) Some assms(2,3)] show ?thesis
    by (simp add: GetCurrentEarliestHotShotBlockNumber_def)
qed

lemma earliest_le_next:
  assumes "nitro_inv s"
  shows "GetCurrentEarliestHotShotBlockNumber s pos \<le> nextHotshotBlockNum s"
  using nitro_inv_entry [OF assms, of pos] min_height_from_le
  by (auto simp: GetCurrentEarliestHotShotBlockNumber_def split: option.split)

text \<open>
  C9. A node that stops and restarts at the block \<open>GetCurrentEarliestHotShotBlockNumber\<close> names for
  a position it has not passed misses no message: every verified message at or above that
  position that was read since the last \<open>Reset\<close> came from a range that starts at or after the
  block, and so does everything still to be read. This holds in every state reached by
  interleaving the reader with the other callers, as long as \<open>Reset\<close> does not come during a
  fetch.
\<close>

theorem earliest_is_safe_resume:
  assumes "nitro_reach L quiet (NewEspressoStreamer_nitro L ns b0 ranges start) (s, pc) log"
    and "currentMessagePos s \<le> pos"
  shows "GetCurrentEarliestHotShotBlockNumber s pos \<le> nextHotshotBlockNum s
    \<and> (\<forall>(b, p) \<in> set log. pos \<le> p \<longrightarrow> GetCurrentEarliestHotShotBlockNumber s pos \<le> b)"
proof -
  from read_inv_reach [OF assms(1)] have inv: "nitro_inv s" and rd: "read_inv (s, pc) log"
    by (simp_all add: conf_inv_def)
  have "GetCurrentEarliestHotShotBlockNumber s pos \<le> b" if "(b, p) \<in> set log" "pos \<le> p" for b p
  proof -
    have "currentMessagePos s \<le> p" using assms(2) that(2) by (rule order_trans)
    with read_inv_entry [OF rd that(1)] obtain m where
      "map_of (messages s) p = Some m" "HotshotHeight m \<le> b" by blast
    with earliest_le [OF inv _ that(2)] show ?thesis by (auto intro: order_trans)
  qed
  with earliest_le_next [OF inv] show ?thesis by auto
qed

theorem earliest_is_safe_resume_witness:
  "GetCurrentEarliestHotShotBlockNumber sample_end 5 \<le> 10
    \<and> GetCurrentEarliestHotShotBlockNumber sample_end 5 \<le> nextHotshotBlockNum sample_end"
proof -
  have "currentMessagePos sample_end \<le> 5" by (simp add: sample_states)
  from earliest_is_safe_resume [OF sample_reach(2) [unfolded sample_start_def] this]
  show ?thesis by simp
qed

section \<open>Buffered messages are signed\<close>

definition authorised :: "'k nitro_lib \<Rightarrow> addr_range_config list \<Rightarrow> address \<Rightarrow> u64 \<Rightarrow> bool" where
  "authorised L ranges addr l1Height =
    (\<exists>cfg \<in> set ranges. HexToAddress L (cfg_address cfg) = addr
      \<and> cfg_from cfg \<le> l1Height \<and> l1Height \<le> cfg_to cfg)"

text \<open>The two ways a message can be covered by the signature of an authorised address.\<close>

definition signed_in_payload ::
  "'k nitro_lib \<Rightarrow> addr_range_config list \<Rightarrow> u64 \<Rightarrow> message_with_metadata \<Rightarrow> bool" where
  "signed_in_payload L ranges p x =
    (\<exists>tx m l1Height k. ParseNitroMessagesFromHotShot L tx = Some (Inr (V0Payload m))
      \<and> (p, x) \<in> set (payload_list (V0Payload m))
      \<and> sig_to_pub L (v0_hash m) (v0_signature m) = Inr k
      \<and> authorised L ranges (pubkey_to_address L k) l1Height)"

definition signed_in_feed ::
  "'k nitro_lib \<Rightarrow> addr_range_config list \<Rightarrow> u64 \<Rightarrow> u64 \<Rightarrow> message_with_metadata \<Rightarrow> bool" where
  "signed_in_feed L ranges chain p x =
    (\<exists>m h sg l1Height k. SequenceNumber m = p \<and> feed_message m = x
      \<and> (ComputeBroadcastFeedMessageHash L m chain = Inr h \<and> sg = Signature m
         \<or> ComputeBroadcastFeedMessageHashV2 L m chain = Inr h \<and> sg = SignatureV2 m)
      \<and> sig_to_pub L h sg = Inr k \<and> authorised L ranges (pubkey_to_address L k) l1Height)"

lemma signed_by_monitor:
  "signed_by_valid L (IsValid (NewBatcherAddressMonitor L ranges)) l1Height h sg \<longleftrightarrow>
    (\<exists>k. sig_to_pub L h sg = Inr k \<and> authorised L ranges (pubkey_to_address L k) l1Height)"
  by (auto simp: signed_by_valid_def IsValid_monitor authorised_def split: sum.splits)

lemma verified_feed_signed:
  assumes "verifyV1Message L (IsValid (NewBatcherAddressMonitor L ranges)) chain l1Height m = Inr ()"
  shows "signed_in_feed L ranges chain (SequenceNumber m) (feed_message m)"
proof -
  obtain h sg where h: "ComputeBroadcastFeedMessageHash L m chain = Inr h \<and> sg = Signature m
      \<or> ComputeBroadcastFeedMessageHashV2 L m chain = Inr h \<and> sg = SignatureV2 m"
    and "signed_by_valid L (IsValid (NewBatcherAddressMonitor L ranges)) l1Height h sg"
    using assms unfolding verifyV1Message_ok by (auto split: if_splits)
  then obtain k where "sig_to_pub L h sg = Inr k" "authorised L ranges (pubkey_to_address L k) l1Height"
    unfolding signed_by_monitor by blast
  with h show ?thesis unfolding signed_in_feed_def by blast
qed

lemma signed_in_payloadI:
  assumes "ParseNitroMessagesFromHotShot L tx = Some (Inr (V0Payload m))"
    and "(p, x) \<in> set (payload_list (V0Payload m))"
    and "signed_by_valid L (IsValid (NewBatcherAddressMonitor L ranges)) l1Height (v0_hash m) (v0_signature m)"
  shows "signed_in_payload L ranges p x"
proof -
  from assms(3) obtain k where "sig_to_pub L (v0_hash m) (v0_signature m) = Inr k"
    "authorised L ranges (pubkey_to_address L k) l1Height"
    unfolding signed_by_monitor by (elim exE conjE)
  with assms(1,2) show ?thesis unfolding signed_in_payload_def by (intro exI conjI)
qed

lemma accepted_signed:
  assumes "(p, x) \<in> set (accepted L s l1Height tx)"
    and mon: "monitor s = NewBatcherAddressMonitor L ranges" and ns: "namespace_id s = ns"
  shows "signed_in_payload L ranges p x \<or> signed_in_feed L ranges ns p x"
proof -
  from acceptedD [OF assms(1)] obtain P P' where P: "ParseNitroMessagesFromHotShot L tx = Some (Inr P)"
    and P': "VerifySignature L (IsValid (monitor s)) (ChainID s) l1Height P = Inr P'"
    and px: "(p, x) \<in> set (counted (payload_list P'))"
    by (elim exE conjE)
  have mem: "(p, x) \<in> set (payload_list P')" by (rule subsetD [OF set_counted px])
  from verified_payload [OF P'] show ?thesis
  proof (elim disjE exE conjE)
    fix m
    assume m: "P = V0Payload m" and eq: "P' = P"
      and sg: "signed_by_valid L (IsValid (monitor s)) l1Height (v0_hash m) (v0_signature m)"
    show ?thesis
      by (rule disjI1, rule signed_in_payloadI [OF P [unfolded m] mem [unfolded eq m] sg [unfolded mon]])
  next
    fix m m'
    assume "P = V1Payload m" and m': "P' = V1Payload m'"
      and flt: "v1_messages m' = filter (\<lambda>x. verifyV1Message L (IsValid (monitor s)) (ChainID s) l1Height x = Inr ())
        (v1_messages m)"
    from mem obtain fm where fm: "fm \<in> set (v1_messages m')" "SequenceNumber fm = p" "feed_message fm = x"
      unfolding m' by auto
    have "verifyV1Message L (IsValid (monitor s)) (ChainID s) l1Height fm = Inr ()"
      using fm(1) unfolding flt by simp
    from verified_feed_signed [OF this [unfolded mon ChainID_def ns]] show ?thesis
      unfolding fm(2,3) by (rule disjI2)
  qed
qed

definition signed_inv ::
  "'k nitro_lib \<Rightarrow> addr_range_config list \<Rightarrow> u64 \<Rightarrow> nitro_conf \<Rightarrow> bool" where
  "signed_inv L ranges ns c =
    (monitor (fst c) = NewBatcherAddressMonitor L ranges \<and> namespace_id (fst c) = ns
     \<and> (\<forall>p e. map_of (messages (fst c)) p = Some e \<longrightarrow>
          signed_in_payload L ranges p (MessageWithMeta e) \<or> signed_in_feed L ranges ns p (MessageWithMeta e)))"

lemma signed_inv_smaller:
  assumes "signed_inv L ranges ns (s, pc)" and "monitor s' = monitor s" and "namespace_id s' = namespace_id s"
    and "\<And>p e. map_of (messages s') p = Some e \<Longrightarrow> map_of (messages s) p = Some e"
  shows "signed_inv L ranges ns (s', pc')"
  using assms by (simp add: signed_inv_def)

lemma signed_inv_step:
  assumes "nitro_step L c e c'" and "signed_inv L ranges ns c"
  shows "signed_inv L ranges ns c'"
  using assms(1)
proof cases
  case (parse_payload tx h s r s' b to txs)
  note st = parse_stores [OF parse_payload(4)] and fr = parse_frame [OF parse_payload(4)]
  have s: "monitor s = NewBatcherAddressMonitor L ranges" "namespace_id s = ns"
    using assms(2) parse_payload(1) by (simp_all add: signed_inv_def)
  have "signed_in_payload L ranges p (MessageWithMeta e) \<or> signed_in_feed L ranges ns p (MessageWithMeta e)"
    if "map_of (messages s') p = Some e" for p e
    using store_list_origin [OF st that]
  proof
    assume "map_of (messages s) p = Some e"
    with assms(2) show ?thesis unfolding parse_payload(1) signed_inv_def by simp
  next
    assume "(p, MessageWithMeta e) \<in> set (accepted L s h tx)"
    then show ?thesis using s by (rule accepted_signed)
  qed
  with fr s show ?thesis unfolding parse_payload(3) signed_inv_def by simp
next
  case (begin_range C s to d)
  with assms(2) show ?thesis by (simp add: signed_inv_def)
qed (use assms(2) in \<open>auto elim!: signed_inv_smaller
      simp: Reset_nitro_def Advance_def AdvanceTo_def delete_range_map split: if_splits\<close>)

text \<open>
  Every message a Nitro streamer can hand out, in every state reached by any interleaving
  of the reader and its callers, is covered by a signature of an address that the operator
  authorised, for an L1 height of its range: the signature is over the hash of the whole
  payload it came in, or over the feed hash of that very message, position and chain.
\<close>

theorem buffered_messages_signed:
  assumes "nitro_reach L ok (NewEspressoStreamer_nitro L ns b0 ranges start) (s, pc) log"
    and "GetMsg s p = Some e"
  shows "signed_in_payload L ranges p (MessageWithMeta e) \<or> signed_in_feed L ranges ns p (MessageWithMeta e)"
proof -
  from assms(1) have "signed_inv L ranges ns (s, pc)"
  proof (rule reach_invariant)
    show "signed_inv L ranges ns (NewEspressoStreamer_nitro L ns b0 ranges start, Idle)"
      by (simp add: signed_inv_def NewEspressoStreamer_nitro_def)
  qed (rule signed_inv_step)
  with assms(2) show ?thesis by (simp add: signed_inv_def GetMsg_def)
qed

theorem buffered_messages_signed_witness:
  "signed_in_payload sample_nitro sample_ranges 4 (sample_msg 1 [9])
    \<or> signed_in_feed sample_nitro sample_ranges 1 4 (sample_msg 1 [9])"
proof -
  have "GetMsg sample_end 4 = Some (snd (sample_entry 4))" by (simp add: GetMsg_def sample_states)
  from buffered_messages_signed [OF sample_reach(2) [unfolded sample_start_def] this]
  show ?thesis by (simp add: sample_entry_def)
qed

end
