(* ===== verification/Nitro_Progress.thy ===== *)
theory Nitro_Progress
  imports Nitro_Sample_Run
begin

text \<open>
  Termination of the loops of the Nitro streamer: exactly when taking in a payload returns, and
  what \<open>GetMessageCount\<close> returns.
\<close>

section \<open>When taking in a payload returns\<close>

lemma store_message_returns_iff:
  assumes "highestPos s \<noteq> MaxUint64" and "map_of (messages s) MaxUint64 = None"
  shows "store_message msg s \<noteq> None \<longleftrightarrow> Pos msg \<noteq> MaxUint64 \<or> currentMessagePos s > Pos msg"
proof (cases "Pos msg < currentMessagePos s \<or> map_of (messages s) (Pos msg) \<noteq> None")
  case True
  with assms(2) show ?thesis by (auto simp: store_message_def)
next
  case False
  define hi where "hi = max (highestPos s) (Pos msg)"
  have hi: "(if Pos msg > highestPos s then s\<lparr>highestPos := Pos msg\<rparr> else s) = s\<lparr>highestPos := hi\<rparr>"
    by (auto simp: hi_def max_def)
  have "hi = MaxUint64 \<longleftrightarrow> Pos msg = MaxUint64"
    using assms(1) by (auto simp: hi_def max_def word_order.extremum_unique)
  moreover have "lower_height (messages s) hi (Pos msg + 1) (HotshotHeight msg) \<noteq> None \<longleftrightarrow> hi \<noteq> MaxUint64"
    using lower_height_total [of hi "messages s" "Pos msg + 1" "HotshotHeight msg"] lower_height_stuck
    by (metis not_None_eq)
  moreover have "store_message msg s \<noteq> None \<longleftrightarrow>
      lower_height (messages s) hi (Pos msg + 1) (HotshotHeight msg) \<noteq> None"
    using False by (simp add: store_message_def hi Let_def split: bind_splits)
  ultimately show ?thesis using False by simp
qed

lemma store_message_below_max:
  assumes "store_message msg s = Some s'" and "highestPos s \<noteq> MaxUint64"
    and "map_of (messages s) MaxUint64 = None"
  shows "highestPos s' \<noteq> MaxUint64 \<and> map_of (messages s') MaxUint64 = None"
  using assms(1)
  by (cases rule: store_message_cases)
    (use assms(2,3) in \<open>auto simp: max_def update_conv' word_order.extremum_unique split: if_splits\<close>)

lemma store_list_returns_iff:
  assumes "highestPos s \<noteq> MaxUint64" and "map_of (messages s) MaxUint64 = None"
  shows "store_list xs s \<noteq> None \<longleftrightarrow> (\<forall>(p, x) \<in> set xs. p \<noteq> MaxUint64)"
  using assms
proof (induction xs arbitrary: s)
  case (Cons x xs)
  let ?msg = "\<lparr>MessageWithMeta = snd x, Pos = fst x, HotshotHeight = nextHotshotBlockNum s\<rparr>"
  have ret: "store_message ?msg s \<noteq> None \<longleftrightarrow> fst x \<noteq> MaxUint64"
    using store_message_returns_iff [OF Cons.prems, of ?msg] word_order.extremum_strict by auto
  show ?case
  proof (cases "store_message ?msg s")
    case None
    with ret show ?thesis by (cases x) auto
  next
    case (Some s1)
    with ret store_message_below_max [OF Some Cons.prems] Cons.IH [of s1] show ?thesis
      by (cases x) simp
  qed
qed simp

lemma nitro_inv_no_max:
  assumes "nitro_inv s" and "highestPos s \<noteq> MaxUint64"
  shows "map_of (messages s) MaxUint64 = None"
  using nitro_inv_entry [OF assms(1), of MaxUint64] assms(2)
  by (cases "map_of (messages s) MaxUint64") (auto simp: word_order.extremum_unique)

text \<open>
  C23. Taking in a payload returns exactly when none of its verified messages has the largest
  position. For that position the loop over the higher positions compares \<open>nextPos\<close> with
  \<open>highestPos\<close>, wraps around and never ends, with the lock held. No other payload, however
  it is made up, keeps the method from returning.
\<close>

theorem parse_returns_exactly:
  assumes "length tx < 2 ^ 63" and "nitro_inv s" and "highestPos s \<noteq> MaxUint64"
  shows "(\<exists>r s'. parseEspressoTransaction L tx l1Height s = Some (r, s')) \<longleftrightarrow>
    (\<forall>(p, x) \<in> set (accepted L s l1Height tx). p \<noteq> MaxUint64)"
proof -
  have "ParseNitroMessagesFromHotShot L tx \<noteq> None"
    using parse_total [OF assms(1)] by simp
  then show ?thesis
    using store_list_returns_iff [OF assms(3) nitro_inv_no_max [OF assms(2,3)]]
    by (simp add: parse_returns_iff)
qed

theorem parse_returns_exactly_witness:
  "parseEspressoTransaction sample_nitro (sample_tx MaxUint64) 50 sample_start = None
    \<and> parseEspressoTransaction sample_nitro (sample_tx 4) 50 sample_start \<noteq> None"
proof -
  have len: "length (sample_tx p) < 2 ^ 63" for p
    by (simp add: sample_tx_def v0_payload_def sample_frames_def)
  have inv: "nitro_inv sample_start" and hi: "highestPos sample_start \<noteq> MaxUint64"
    and mon: "monitor sample_start = NewBatcherAddressMonitor sample_nitro sample_ranges"
    using nitro_inv_new by (simp_all add: sample_states)
  have h: "(50 :: u64) \<le> 100" by simp
  note iff = parse_returns_exactly [OF len inv hi, of sample_nitro _ 50, unfolded sample_accepted(1) [OF mon h]]
  show ?thesis using iff [of MaxUint64] iff [of 4] by (auto simp: not_Some_eq [symmetric])
qed

section \<open>Counting\<close>

lemma counted_positions_exist:
  fixes ms :: "(u64 \<times> message_and_pos) list"
  assumes "length ms < 2 ^ 64"
  shows "\<exists>k. map_of ms (c + of_nat k) = None"
proof (rule ccontr)
  assume "\<nexists>k. map_of ms (c + of_nat k) = None"
  then have "map_of ms q \<noteq> None" for q
  proof -
    have "c + of_nat (unat (q - c)) = q" by simp
    with \<open>\<nexists>k. map_of ms (c + of_nat k) = None\<close> show ?thesis by metis
  qed
  then have "UNIV \<subseteq> fst ` set ms" by (auto simp: map_of_eq_None_iff)
  then have "card (UNIV :: u64 set) \<le> card (fst ` set ms)" by (intro card_mono) auto
  also have "\<dots> \<le> length ms" by (meson card_image_le card_length finite_set order_trans)
  finally show False using assms by (simp add: card_word)
qed

lemma count_loop_runs:
  assumes "\<And>k. k < n \<Longrightarrow> map_of ms (c + of_nat k) \<noteq> None" and "map_of ms (c + of_nat n) = None"
  shows "count_loop ms c = Some (c + of_nat n)"
  using assms
proof (induction n arbitrary: c)
  case 0
  then show ?case by (subst count_loop_step) simp
next
  case (Suc n)
  have "count_loop ms (c + 1) = Some (c + 1 + of_nat n)"
  proof (rule Suc.IH)
    show "map_of ms (c + 1 + of_nat k) \<noteq> None" if "k < n" for k
      using Suc.prems(1) [of "Suc k"] that by (simp add: add_ac)
    show "map_of ms (c + 1 + of_nat n) = None" using Suc.prems(2) by (simp add: add_ac)
  qed
  moreover have "map_of ms c \<noteq> None" using Suc.prems(1) [of 0] by simp
  ultimately show ?case by (subst count_loop_step) (auto simp: add_ac)
qed

text \<open>
  \<open>GetMessageCount\<close> always returns, and returns the first position from the current one on
  (wrapping past the largest) that is not buffered; every position before it is buffered. A Go
  map cannot hold all positions, which is why the loop ends.
\<close>

theorem message_count_exact:
  assumes "length (messages s) < 2 ^ 64"
  shows "\<exists>n. GetMessageCount s = Some (currentMessagePos s + of_nat n)
    \<and> GetMsg s (currentMessagePos s + of_nat n) = None
    \<and> (\<forall>k < n. GetMsg s (currentMessagePos s + of_nat k) \<noteq> None)"
proof -
  let ?free = "\<lambda>k. map_of (messages s) (currentMessagePos s + of_nat k) = None"
  define n where "n = (LEAST k. ?free k)"
  have "?free n" unfolding n_def using counted_positions_exist [OF assms] by (rule LeastI_ex)
  moreover have "\<not> ?free k" if "k < n" for k using that not_less_Least unfolding n_def by blast
  ultimately show ?thesis
    using count_loop_runs [of n "messages s" "currentMessagePos s"]
    by (auto simp: GetMessageCount_def GetMsg_def)
qed

theorem message_count_exact_witness: "GetMessageCount sample_end = Some 6"
proof -
  have "length (messages sample_end) < 2 ^ 64" by (simp add: sample_states)
  from message_count_exact [OF this] obtain n where
    n: "GetMessageCount sample_end = Some (4 + of_nat n)" "GetMsg sample_end (4 + of_nat n) = None"
      "\<forall>k < n. GetMsg sample_end (4 + of_nat k) \<noteq> None"
    by (auto simp: sample_states)
  have known: "GetMsg sample_end (4 + of_nat 0) \<noteq> None" "GetMsg sample_end (4 + of_nat 1) \<noteq> None"
    "GetMsg sample_end (4 + of_nat 2) = None"
    by (simp_all add: GetMsg_def sample_states)
  have "n \<noteq> 0" "n \<noteq> 1" using n(2) known(1,2) by (metis, metis)
  moreover have "\<not> 2 < n" using n(3) known(3) by metis
  ultimately have "n = 2" by simp
  with n(1) show ?thesis by simp
qed

end
