(* ===== verification/Nitro_Fetch.thy ===== *)
theory Nitro_Fetch
  imports Nitro_Progress
begin

text \<open>
  \<open>QueueMessagesFromHotshot\<close> and the loop of \<open>Start\<close> as wholes. The parse function is a
  parameter of the method in the code, so its contract is a locale; \<open>parseEspressoTransaction\<close>
  provides it. Then: how far a call moves, and that the loop catches up with the chain.
\<close>

section \<open>The parse function as an interface\<close>

locale payload_parser =
  fixes parseFn :: "bytes \<Rightarrow> u64 \<Rightarrow> nitro_streamer \<Rightarrow> (('e + unit) \<times> nitro_streamer) option"
    and inv :: "nitro_streamer \<Rightarrow> bool"
  assumes parse_inv: "parseFn tx h s = Some (r, s') \<Longrightarrow> inv s \<Longrightarrow> inv s'"
    and parse_next: "parseFn tx h s = Some (r, s') \<Longrightarrow> nextHotshotBlockNum s' = nextHotshotBlockNum s"
    and inv_forward: "inv s \<Longrightarrow> nextHotshotBlockNum s \<le> b \<Longrightarrow> inv (s\<lparr>nextHotshotBlockNum := b\<rparr>)"
begin

lemma payloads_keep:
  "parse_payloads parseFn h txs s = Some s' \<Longrightarrow> inv s
    \<Longrightarrow> inv s' \<and> nextHotshotBlockNum s' = nextHotshotBlockNum s"
proof (induction txs arbitrary: s)
  case (Cons tx txs)
  from Cons.prems(1) obtain r s1 where s1: "parseFn tx h s = Some (r, s1)"
    and rest: "parse_payloads parseFn h txs s1 = Some s'"
    by (auto split: bind_splits)
  from Cons.IH [OF rest parse_inv [OF s1 Cons.prems(2)]] parse_next [OF s1] show ?case by simp
qed simp

text \<open>
  A call that fails changes nothing. One that succeeds keeps the invariant, and moves the next
  block to the end of the range, which is at most 100 blocks further and never back.
\<close>

lemma queue_keeps:
  assumes "QueueMessagesFromHotshot C parseFn s = Some (r, s')" and "inv s"
  shows "(case r of
      Inl err \<Rightarrow> fetch_range C (nextHotshotBlockNum s) (namespace_id s) = Inl err \<and> s' = s
    | Inr _ \<Rightarrow> \<exists>to d. fetch_range C (nextHotshotBlockNum s) (namespace_id s) = Inr (to, d)
        \<and> inv s' \<and> nextHotshotBlockNum s' = to \<and> nextHotshotBlockNum s \<le> to
        \<and> unat to - unat (nextHotshotBlockNum s) \<le> 100)"
proof (cases "fetch_range C (nextHotshotBlockNum s) (namespace_id s)")
  case (Inl err)
  with assms(1) show ?thesis
    by (auto simp: QueueMessagesFromHotshot_def fetchNextHotshotBlock_def)
next
  case (Inr v)
  obtain to d where v: "v = (to, d)" by (cases v)
  note fwd = fetch_range_forward [OF Inr [unfolded v]]
  show ?thesis
  proof (cases d)
    case None
    with assms(1) Inr v have "r = Inr ()" "s' = s\<lparr>nextHotshotBlockNum := to\<rparr>"
      by (simp_all add: QueueMessagesFromHotshot_def fetchNextHotshotBlock_def)
    with Inr v fwd inv_forward [OF assms(2)] show ?thesis by simp
  next
    case (Some hd)
    obtain h blocks where hd: "hd = (h, blocks)" by (cases hd)
    from assms(1) Inr v Some hd obtain s1 where r: "r = Inr ()"
      and s1: "parse_payloads parseFn h (concat blocks) s = Some s1"
      and s': "s' = (if nextHotshotBlockNum s1 = nextHotshotBlockNum s
        then s1\<lparr>nextHotshotBlockNum := to\<rparr> else s1)"
      by (auto simp: QueueMessagesFromHotshot_def fetchNextHotshotBlock_def parse_blocks_concat
          split: bind_splits)
    from payloads_keep [OF s1 assms(2)] inv_forward [of s1 to] fwd show ?thesis
      by (simp add: r s' Inr v)
  qed
qed

end

interpretation espresso_parser: payload_parser "parseEspressoTransaction L" nitro_inv for L
proof unfold_locales
  fix tx h s r s'
  assume p: "parseEspressoTransaction L tx h s = Some (r, s')"
  show "nitro_inv s \<Longrightarrow> nitro_inv s'" by (rule parse_keeps_inv [OF p])
  show "nextHotshotBlockNum s' = nextHotshotBlockNum s" using parse_frame [OF p] by simp
next
  fix s b
  show "nitro_inv s \<Longrightarrow> nextHotshotBlockNum s \<le> b \<Longrightarrow> nitro_inv (s\<lparr>nextHotshotBlockNum := b\<rparr>)"
    by (rule nitro_inv_forward)
qed

text \<open>
  A call of \<open>QueueMessagesFromHotshot\<close> that fails leaves the streamer as it was. One that
  succeeds keeps the invariant, moves the next block to the end of the fetched range, which is
  never behind it and at most 100 blocks ahead.
\<close>

theorem queue_moves_forward:
  assumes "QueueMessagesFromHotshot C (parseEspressoTransaction L) s = Some (r, s')" and "nitro_inv s"
  shows "(case r of
      Inl err \<Rightarrow> fetch_range C (nextHotshotBlockNum s) (namespace_id s) = Inl err \<and> s' = s
    | Inr _ \<Rightarrow> \<exists>to d. fetch_range C (nextHotshotBlockNum s) (namespace_id s) = Inr (to, d)
        \<and> nitro_inv s' \<and> nextHotshotBlockNum s' = to \<and> nextHotshotBlockNum s \<le> to
        \<and> unat to - unat (nextHotshotBlockNum s) \<le> 100)"
  using assms by (rule espresso_parser.queue_keeps)

lemma sample_queue:
  "QueueMessagesFromHotshot sample_client (parseEspressoTransaction sample_nitro) sample_start
    = Some (Inr (), sample_end)"
proof -
  have "parse_blocks (parseEspressoTransaction sample_nitro) 50 [[sample_tx 4, sample_tx 5]] sample_start = Some sample_two"
    by (simp add: sample_parses)
  moreover have "nextHotshotBlockNum sample_start = 10" "namespace_id sample_start = 1"
    "nextHotshotBlockNum sample_two = 10"
    by (simp_all add: sample_states)
  ultimately show ?thesis
    using sample_nitro_fetch
    by (simp add: QueueMessagesFromHotshot_def fetchNextHotshotBlock_def sample_end_def)
qed

theorem queue_moves_forward_witness:
  "nitro_inv sample_end \<and> nextHotshotBlockNum sample_end = 11
    \<and> unat (11 :: u64) - unat (nextHotshotBlockNum sample_start) \<le> 100"
proof -
  have "nitro_inv sample_start" unfolding sample_start_def by (rule nitro_inv_new)
  from queue_moves_forward [OF sample_queue this] show ?thesis
    by (auto simp: sample_states)
qed

section \<open>Catching up\<close>

text \<open>A payload that cannot keep the parser from returning, for the streamer it is read by.\<close>

definition harmless :: "'k nitro_lib \<Rightarrow> nitro_streamer \<Rightarrow> bytes \<Rightarrow> bool" where
  "harmless L s tx = (length tx < 2 ^ 63 \<and> (\<forall>h. \<forall>(p, x) \<in> set (accepted L s h tx). p \<noteq> MaxUint64))"

lemma accepted_cong:
  assumes "monitor s' = monitor s" and "namespace_id s' = namespace_id s"
  shows "accepted L s' h tx = accepted L s h tx"
  unfolding accepted_def ChainID_def assms by (rule refl)

lemma harmless_cong:
  assumes "monitor s' = monitor s" and "namespace_id s' = namespace_id s"
  shows "harmless L s' tx = harmless L s tx"
  unfolding harmless_def accepted_cong [OF assms] by (rule refl)

lemma store_list_below_max:
  "store_list xs s = Some s' \<Longrightarrow> nitro_inv s \<Longrightarrow> highestPos s \<noteq> MaxUint64 \<Longrightarrow> highestPos s' \<noteq> MaxUint64"
proof (induction xs arbitrary: s)
  case (Cons x xs)
  from Cons.prems(1) obtain s1 where s1: "store_message
      \<lparr>MessageWithMeta = snd x, Pos = fst x, HotshotHeight = nextHotshotBlockNum s\<rparr> s = Some s1"
    and rest: "store_list xs s1 = Some s'"
    by (auto split: bind_splits)
  have "nitro_inv s1" using nitro_inv_store [OF Cons.prems(2) s1] by simp
  moreover have "highestPos s1 \<noteq> MaxUint64"
    using store_message_below_max [OF s1 Cons.prems(3) nitro_inv_no_max [OF Cons.prems(2,3)]] by simp
  ultimately show ?case by (rule Cons.IH [OF rest])
qed simp

lemma harmless_parses:
  assumes "harmless L s tx" and "nitro_inv s" and "highestPos s \<noteq> MaxUint64"
  shows "\<exists>r s'. parseEspressoTransaction L tx h s = Some (r, s') \<and> nitro_inv s'
    \<and> highestPos s' \<noteq> MaxUint64 \<and> nextHotshotBlockNum s' = nextHotshotBlockNum s
    \<and> namespace_id s' = namespace_id s \<and> monitor s' = monitor s"
proof -
  have "ParseNitroMessagesFromHotShot L tx \<noteq> None"
    using parse_total [of tx L] assms(1) by (simp add: harmless_def)
  moreover have "store_list (accepted L s h tx) s \<noteq> None"
    unfolding store_list_returns_iff [OF assms(3) nitro_inv_no_max [OF assms(2,3)]]
    using assms(1) by (simp add: harmless_def)
  ultimately obtain r s' where p: "parseEspressoTransaction L tx h s = Some (r, s')"
    using parse_returns_iff by blast
  with parse_keeps_inv [OF p assms(2)] parse_frame [OF p] store_list_below_max [OF parse_stores [OF p] assms(2,3)]
  show ?thesis by blast
qed

lemma harmless_payloads:
  assumes "\<And>tx. tx \<in> set txs \<Longrightarrow> harmless L s tx" and "nitro_inv s" and "highestPos s \<noteq> MaxUint64"
  shows "\<exists>s'. parse_payloads (parseEspressoTransaction L) h txs s = Some s' \<and> nitro_inv s'
    \<and> highestPos s' \<noteq> MaxUint64 \<and> nextHotshotBlockNum s' = nextHotshotBlockNum s
    \<and> namespace_id s' = namespace_id s \<and> monitor s' = monitor s"
  using assms
proof (induction txs arbitrary: s)
  case (Cons tx txs)
  from harmless_parses [OF Cons.prems(1) [OF list.set_intros(1)] Cons.prems(2,3), of h] obtain r s1 where
    s1: "parseEspressoTransaction L tx h s = Some (r, s1)" "nitro_inv s1" "highestPos s1 \<noteq> MaxUint64"
      "nextHotshotBlockNum s1 = nextHotshotBlockNum s"
    and fr: "namespace_id s1 = namespace_id s" "monitor s1 = monitor s" by blast
  have "harmless L s1 tx'" if "tx' \<in> set txs" for tx'
    unfolding harmless_cong [OF fr(2,1)] by (rule Cons.prems(1)) (simp add: that)
  from Cons.IH [OF this s1(2,3)] s1(1,4) fr show ?case by simp
qed simp

text \<open>A client that answers every call, with a latest block and harmless payloads.\<close>

definition answering :: "'k nitro_lib \<Rightarrow> nitro_streamer \<Rightarrow> nitro_client \<Rightarrow> u64 \<Rightarrow> bool" where
  "answering L s C latest =
    (FetchLatestBlockHeight C = Inr latest
     \<and> (\<forall>b. \<exists>f. FetchHeaderByHeight C b = Inr f)
     \<and> (\<forall>b e. \<exists>d. FetchNamespaceTransactionsInRange C b e (namespace_id s) = Inr d
          \<and> (\<forall>txs \<in> set d. \<forall>tx \<in> set txs. harmless L s tx)))"

lemma answering_range:
  assumes "answering L s C latest" and "b \<le> latest"
  shows "\<exists>d. fetch_range C b (namespace_id s) = Inr (range_end b latest, d)
    \<and> (\<forall>h blocks. d = Some (h, blocks) \<longrightarrow> (\<forall>tx \<in> set (concat blocks). harmless L s tx))"
proof -
  let ?e = "range_end b latest"
  have latest: "FetchLatestBlockHeight C = Inr latest" using assms(1) by (simp add: answering_def)
  obtain d where d: "FetchNamespaceTransactionsInRange C b ?e (namespace_id s) = Inr d"
    and ok: "\<forall>tx \<in> set (concat d). harmless L s tx"
    using assms(1) unfolding answering_def set_concat by blast
  obtain f where f: "FetchHeaderByHeight C (?e - 1) = Inr f"
    using assms(1) unfolding answering_def by blast
  have "fetch_range C b (namespace_id s)
      = Inr (?e, if b = ?e \<or> d = [] then None else Some (case f of None \<Rightarrow> 0 | Some n \<Rightarrow> n, d))"
    using assms(2) unfolding fetch_range_def latest sum.case Let_def range_end_def [symmetric]
    by (simp add: d f not_less [symmetric])
  with ok show ?thesis by auto
qed

lemma answering_cong:
  assumes "monitor s' = monitor s" and "namespace_id s' = namespace_id s"
  shows "answering L s' C latest = answering L s C latest"
  unfolding answering_def harmless_cong [OF assms] assms(2) by (rule refl)

lemma answering_round:
  assumes "answering L s C latest" and "nextHotshotBlockNum s \<le> latest"
    and "nitro_inv s" and "highestPos s \<noteq> MaxUint64"
  shows "\<exists>s'. start_round L C clock s e = Some (s', reset_debouncer e, NoLog)
    \<and> nextHotshotBlockNum s' = range_end (nextHotshotBlockNum s) latest
    \<and> nitro_inv s' \<and> highestPos s' \<noteq> MaxUint64 \<and> answering L s' C latest"
proof -
  let ?b = "nextHotshotBlockNum s" and ?to = "range_end (nextHotshotBlockNum s) latest"
  from answering_range [OF assms(1,2)] obtain d where d: "fetch_range C ?b (namespace_id s) = Inr (?to, d)"
    and ok: "\<And>h blocks. d = Some (h, blocks) \<Longrightarrow> \<forall>tx \<in> set (concat blocks). harmless L s tx" by blast
  have fwd: "?b \<le> ?to" using range_end_bounds [OF assms(2)] by simp
  obtain s1 where s1: "nitro_inv s1" "highestPos s1 \<noteq> MaxUint64" "nextHotshotBlockNum s1 = ?b"
      "namespace_id s1 = namespace_id s" "monitor s1 = monitor s"
    and q: "QueueMessagesFromHotshot C (parseEspressoTransaction L) s = Some (Inr (), s1\<lparr>nextHotshotBlockNum := ?to\<rparr>)"
  proof (cases d)
    case None
    with d assms(3,4) show ?thesis
      by (intro that [of s]) (simp_all add: QueueMessagesFromHotshot_def fetchNextHotshotBlock_def)
  next
    case (Some hd)
    obtain h blocks where hd: "hd = (h, blocks)" by (cases hd)
    from harmless_payloads [OF _ assms(3,4), of "concat blocks" L h] ok Some hd obtain s1 where
      "parse_payloads (parseEspressoTransaction L) h (concat blocks) s = Some s1" "nitro_inv s1"
      "highestPos s1 \<noteq> MaxUint64" "nextHotshotBlockNum s1 = ?b"
      "namespace_id s1 = namespace_id s" "monitor s1 = monitor s" by blast
    with d Some hd show ?thesis
      by (intro that [of s1])
        (simp_all add: QueueMessagesFromHotshot_def fetchNextHotshotBlock_def parse_blocks_concat)
  qed
  from q have "start_round L C clock s e = Some (s1\<lparr>nextHotshotBlockNum := ?to\<rparr>, reset_debouncer e, NoLog)"
    by (simp add: start_round_def)
  moreover have "nitro_inv (s1\<lparr>nextHotshotBlockNum := ?to\<rparr>)"
    using s1(1,3) fwd by (intro nitro_inv_forward) simp_all
  moreover have "answering L (s1\<lparr>nextHotshotBlockNum := ?to\<rparr>) C latest"
    using assms(1) s1(4,5) by (subst answering_cong [of _ s]) simp_all
  ultimately show ?thesis using s1(2) by auto
qed

lemma range_end_unat:
  assumes "b \<le> latest"
  shows "unat (range_end b latest) = min (unat latest) (unat b + 100)"
proof (cases "latest - b > HOTSHOT_RANGE_LIMIT")
  case True
  with assms have far: "unat latest - unat b > 100" "unat b \<le> unat latest"
    by (auto simp: HOTSHOT_RANGE_LIMIT_def word_less_nat_alt word_le_nat_alt unat_sub)
  then have "unat (b + HOTSHOT_RANGE_LIMIT) = unat b + 100"
    using unat_u64_bound [of latest] by (subst unat_add_u64) (simp_all add: HOTSHOT_RANGE_LIMIT_def)
  with far True show ?thesis by (simp add: range_end_def)
next
  case False
  with assms have "unat latest \<le> unat b + 100"
    by (simp add: HOTSHOT_RANGE_LIMIT_def word_less_nat_alt word_le_nat_alt unat_sub)
  with False show ?thesis by (simp add: range_end_def)
qed

lemma answering_rounds:
  assumes "answering L s C latest" and "nextHotshotBlockNum s \<le> latest"
    and "nitro_inv s" and "highestPos s \<noteq> MaxUint64"
  shows "\<exists>s'. start_rounds L (replicate k (C, clock)) s e = Some (s', replicate k NoLog)
    \<and> unat (nextHotshotBlockNum s') = min (unat latest) (unat (nextHotshotBlockNum s) + 100 * k)"
  using assms
proof (induction k arbitrary: s e)
  case 0
  then show ?case by (simp add: word_le_nat_alt)
next
  case (Suc k)
  from answering_round [OF Suc.prems, of clock e] obtain s1 where
    r: "start_round L C clock s e = Some (s1, reset_debouncer e, NoLog)"
    and n: "nextHotshotBlockNum s1 = range_end (nextHotshotBlockNum s) latest"
    and s1: "nitro_inv s1" "highestPos s1 \<noteq> MaxUint64" "answering L s1 C latest" by blast
  have "nextHotshotBlockNum s1 \<le> latest" using range_end_bounds [OF Suc.prems(2)] by (simp add: n)
  from Suc.IH [OF s1(3) this s1(1,2), of "reset_debouncer e"] obtain s' where
    "start_rounds L (replicate k (C, clock)) s1 (reset_debouncer e) = Some (s', replicate k NoLog)"
    "unat (nextHotshotBlockNum s') = min (unat latest) (unat (nextHotshotBlockNum s1) + 100 * k)" by blast
  with r show ?case by (auto simp: n range_end_unat [OF Suc.prems(2)] min_def)
qed

text \<open>
  C14. With a client that answers and payloads without the largest position, the loop of
  \<open>Start\<close> catches up: every round returns without logging an error, and after \<open>k\<close> rounds the
  next block is \<open>100 k\<close> blocks further or the latest block.
\<close>

theorem start_catches_up:
  assumes "answering L s C latest" and "nextHotshotBlockNum s \<le> latest"
    and "nitro_inv s" and "highestPos s \<noteq> MaxUint64"
  shows "\<exists>s'. Start L (replicate k (C, clock)) s = Some (s', replicate k NoLog)
    \<and> unat (nextHotshotBlockNum s') = min (unat latest) (unat (nextHotshotBlockNum s) + 100 * k)"
  unfolding Start_def using assms by (rule answering_rounds)

theorem start_catches_up_witness:
  "\<exists>s'. Start sample_nitro (replicate 3 (sample_client, 0, 0, 0)) sample_start = Some (s', replicate 3 NoLog)
    \<and> unat (nextHotshotBlockNum s') = 11"
proof -
  have "length (sample_tx p) < 2 ^ 63" for p
    by (simp add: sample_tx_def v0_payload_def sample_frames_def)
  then have "harmless sample_nitro sample_start (sample_tx p)" if "p \<noteq> MaxUint64" for p
    using that sample_accepted_pos by (fastforce simp: harmless_def)
  then have "answering sample_nitro sample_start sample_client 11"
    by (simp add: answering_def sample_client_def)
  moreover have "nitro_inv sample_start" unfolding sample_start_def by (rule nitro_inv_new)
  moreover have "nextHotshotBlockNum sample_start = 10" "highestPos sample_start \<noteq> MaxUint64"
    by (simp_all add: sample_states)
  ultimately show ?thesis
    using start_catches_up [of sample_nitro sample_start sample_client 11 3 "(0, 0, 0)"] by simp
qed

end
