(* ===== verification/Nitro_Refine.thy ===== *)
theory Nitro_Refine
  imports Nitro_Sample_Run "HOL-Library.Sublist"
begin

text \<open>
  The abstract view of the Nitro streamer: a position and a map in which the first verified
  message of a position wins. Every run of the interleaving is a run of this view, and without a
  \<open>Reset\<close> its content is a function of the position and of the sequence of verified messages
  alone, so two nodes that verified the same messages hold the same ones. Whether they do
  depends on how the ranges were cut, which \<open>Nitro_Polling\<close> shows.
\<close>

section \<open>The first write wins\<close>

record first_write =
  fw_pos :: u64
  fw_msgs :: "u64 \<rightharpoonup> message_with_metadata"

fun fw_offer :: "(u64 \<times> message_with_metadata) list \<Rightarrow> first_write \<Rightarrow> first_write" where
  "fw_offer [] f = f"
| "fw_offer ((p, m) # xs) f =
    fw_offer xs (if p < fw_pos f \<or> fw_msgs f p \<noteq> None then f
                 else f\<lparr>fw_msgs := (fw_msgs f)(p \<mapsto> m)\<rparr>)"

text \<open>\<open>FwAdvance p\<close> is an advance from the position \<open>p\<close>.\<close>

datatype fw_event =
    FwQuiet
  | FwOffer "(u64 \<times> message_with_metadata) list"
  | FwReset u64
  | FwAdvance u64
  | FwAdvanceTo u64

fun fw_do :: "fw_event \<Rightarrow> first_write \<Rightarrow> first_write" where
  "fw_do FwQuiet f = f"
| "fw_do (FwOffer xs) f = fw_offer xs f"
| "fw_do (FwReset q) f = \<lparr>fw_pos = q, fw_msgs = Map.empty\<rparr>"
| "fw_do (FwAdvance q) f = \<lparr>fw_pos = q + 1, fw_msgs = (fw_msgs f)(q := None)\<rparr>"
| "fw_do (FwAdvanceTo q) f =
    (if q \<le> fw_pos f then f
     else \<lparr>fw_pos = q, fw_msgs = (\<lambda>p. if p < q then None else fw_msgs f p)\<rparr>)"

definition fw_run :: "fw_event list \<Rightarrow> first_write \<Rightarrow> first_write" where
  "fw_run es f = fold fw_do es f"

definition fw_view :: "nitro_streamer \<Rightarrow> first_write" where
  "fw_view s = \<lparr>fw_pos = currentMessagePos s,
    fw_msgs = (\<lambda>p. map_option MessageWithMeta (map_of (messages s) p))\<rparr>"

lemma fw_view_simps [simp]:
  "fw_pos (fw_view s) = currentMessagePos s"
  "fw_msgs (fw_view s) p = map_option MessageWithMeta (map_of (messages s) p)"
  by (simp_all add: fw_view_def)

lemma first_write_eqI: "fw_pos f = fw_pos g \<Longrightarrow> (\<And>p. fw_msgs f p = fw_msgs g p) \<Longrightarrow> f = (g :: first_write)"
  by (cases f; cases g) (simp add: fun_eq_iff)

section \<open>Every operation commutes with the view\<close>

lemma fw_view_store_message:
  assumes "store_message msg s = Some s'"
  shows "fw_view s' = fw_offer [(Pos msg, MessageWithMeta msg)] (fw_view s)"
  using assms
proof (cases rule: store_message_cases)
  case same
  then show ?thesis by auto
next
  case (stored h hi)
  from stored(1) have "\<not> Pos msg < currentMessagePos s" by (simp add: not_less)
  with stored(2) show ?thesis
    by (intro first_write_eqI) (simp_all add: stored(6) update_conv')
qed

lemma fw_offer_append: "fw_offer (xs @ ys) f = fw_offer ys (fw_offer xs f)"
  by (induction xs arbitrary: f) auto

lemma fw_view_store_list:
  "store_list xs s = Some s' \<Longrightarrow> fw_view s' = fw_offer xs (fw_view s)"
proof (induction xs arbitrary: s)
  case (Cons x xs)
  from Cons.prems obtain s1 where s1: "store_message
      \<lparr>MessageWithMeta = snd x, Pos = fst x, HotshotHeight = nextHotshotBlockNum s\<rparr> s = Some s1"
    and rest: "store_list xs s1 = Some s'"
    by (auto split: bind_splits)
  have "fw_offer (x # xs) (fw_view s) = fw_offer xs (fw_offer [x] (fw_view s))"
    using fw_offer_append [of "[x]" xs] by simp
  then show ?case using Cons.IH [OF rest] fw_view_store_message [OF s1] by simp
qed simp

lemmas fw_view_parse = fw_view_store_list [OF parse_stores]

lemma fw_view_Reset: "fw_view (Reset_nitro q b s) = fw_do (FwReset q) (fw_view s)"
  by (intro first_write_eqI) (simp_all add: Reset_nitro_def)

lemma fw_view_Advance: "fw_view (Advance s) = fw_do (FwAdvance (currentMessagePos s)) (fw_view s)"
  by (intro first_write_eqI) (simp_all add: Advance_def)

lemma fw_view_AdvanceTo:
  assumes "nitro_inv s"
  shows "fw_view (AdvanceTo q s) = fw_do (FwAdvanceTo q) (fw_view s)"
proof (cases "q \<le> currentMessagePos s")
  case False
  have "map_of (messages s) p = None" if "p < currentMessagePos s" for p
    using that nitro_inv_entry [OF assms, of p] by (cases "map_of (messages s) p") auto
  with False show ?thesis
    by (intro first_write_eqI) (auto simp: AdvanceTo_def delete_range_map not_le)
qed (simp add: AdvanceTo_def)

section \<open>Runs\<close>

definition fw_event_of :: "'k nitro_lib \<Rightarrow> nitro_conf \<Rightarrow> nitro_event \<Rightarrow> fw_event" where
  "fw_event_of L c e =
    (case e of
       BeginQueue C \<Rightarrow> FwQuiet
     | ParseNext \<Rightarrow>
         (case snd c of
            Parsing b to l1Height (tx # txs) \<Rightarrow> FwOffer (accepted L (fst c) l1Height tx)
          | _ \<Rightarrow> FwQuiet)
     | CommitBlock \<Rightarrow> FwQuiet
     | ResetCall q b \<Rightarrow> FwReset q
     | AdvanceCall \<Rightarrow> FwAdvance (currentMessagePos (fst c))
     | AdvanceToCall q \<Rightarrow> FwAdvanceTo q)"

text \<open>A run of the interleaving with its abstract events.\<close>

inductive nitro_trace :: "'k nitro_lib \<Rightarrow> nitro_conf \<Rightarrow> fw_event list \<Rightarrow> nitro_conf \<Rightarrow> bool" for L where
  trace_nil: "nitro_trace L c [] c"
| trace_cons: "nitro_step L c e d \<Longrightarrow> nitro_trace L d es f \<Longrightarrow> nitro_trace L c (fw_event_of L c e # es) f"

lemma nitro_step_view:
  assumes "nitro_step L c e d" and "conf_inv c"
  shows "fw_view (fst d) = fw_do (fw_event_of L c e) (fw_view (fst c))"
  using assms(1)
proof cases
  case (parse_payload tx l1Height s r s' b to txs)
  then show ?thesis using fw_view_parse [OF parse_payload(4)] by (simp add: fw_event_of_def)
next
  case (commit_block s b to l1Height)
  then show ?thesis by (simp add: fw_event_of_def fw_view_def)
next
  case (reset_call s pc q b)
  then show ?thesis by (simp add: fw_event_of_def fw_view_Reset)
next
  case (advance_call s pc)
  then show ?thesis by (simp add: fw_event_of_def fw_view_Advance)
next
  case (advance_to_call s pc q)
  then show ?thesis
    using assms(2) fw_view_AdvanceTo [of s q] by (simp add: fw_event_of_def conf_inv_def del: fw_do.simps)
qed (simp_all add: fw_event_of_def)

lemma nitro_trace_view:
  "nitro_trace L c es d \<Longrightarrow> conf_inv c \<Longrightarrow> fw_view (fst d) = fw_run es (fw_view (fst c)) \<and> conf_inv d"
proof (induction rule: nitro_trace.induct)
  case (trace_cons c e d es f)
  then show ?case
    using nitro_step_view [OF trace_cons.hyps(1)] conf_inv_step [OF trace_cons.hyps(1)]
    by (simp add: fw_run_def)
qed (simp add: fw_run_def)

definition fw_start :: "u64 \<Rightarrow> first_write" where
  "fw_start q = \<lparr>fw_pos = q, fw_msgs = Map.empty\<rparr>"

lemma new_trace_view:
  assumes "nitro_trace L (NewEspressoStreamer_nitro L ns b ranges start, Idle) es (s, pc)"
  shows "fw_view s = fw_run es (fw_start start) \<and> nitro_inv s"
proof -
  have "conf_inv (NewEspressoStreamer_nitro L ns b ranges start, Idle)"
    by (simp add: conf_inv_def nitro_inv_new)
  moreover have "fw_view (NewEspressoStreamer_nitro L ns b ranges start) = fw_start start"
    by (simp add: fw_view_def fw_start_def NewEspressoStreamer_nitro_def)
  ultimately show ?thesis using nitro_trace_view [OF assms] by (simp add: conf_inv_def)
qed

text \<open>
  C8. The Nitro streamer refines the first-write map. Whatever the goroutine and the callers of
  \<open>Reset\<close>, \<open>Advance\<close> and \<open>AdvanceTo\<close> do and however they interleave, the state reached from a
  new streamer shows exactly the abstract map after the abstract events: a payload offers its
  verified messages in order, the first one at a position at or above the current one stays
  until the position is passed. \<open>Peek\<close> and \<open>GetMsg\<close> read this map.
\<close>

theorem nitro_refines_first_write:
  assumes "nitro_trace L (NewEspressoStreamer_nitro L ns b ranges start, Idle) es (s, pc)"
  shows "fw_view s = fw_run es (fw_start start)
    \<and> map_option MessageWithMeta (Peek_nitro s)
        = fw_msgs (fw_run es (fw_start start)) (fw_pos (fw_run es (fw_start start)))
    \<and> (\<forall>p. map_option MessageWithMeta (GetMsg s p) = fw_msgs (fw_run es (fw_start start)) p)"
proof -
  have "fw_run es (fw_start start) = fw_view s" using new_trace_view [OF assms] by simp
  then show ?thesis by (simp add: Peek_nitro_def GetMsg_def)
qed


text \<open>The run of the sample fetch with its abstract events.\<close>

lemma sample_trace:
  "nitro_trace sample_nitro (sample_start, Idle)
    [FwQuiet, FwOffer [(4, sample_msg 1 [9])], FwOffer [(5, sample_msg 1 [9])], FwQuiet] (sample_end, Idle)"
proof -
  have mon: "monitor sample_start = NewBatcherAddressMonitor sample_nitro sample_ranges"
    "monitor sample_one = NewBatcherAddressMonitor sample_nitro sample_ranges"
    by (simp_all add: sample_states)
  have h: "(50 :: u64) \<le> 100" by simp
  note acc = sample_accepted(1) [OF mon(1) h] sample_accepted(1) [OF mon(2) h]
  from trace_cons [OF sample_steps(1) trace_cons [OF sample_steps(2)
      trace_cons [OF sample_steps(3) trace_cons [OF sample_steps(4) trace_nil]]]]
  show ?thesis by (simp add: fw_event_of_def acc)
qed

lemma nitro_refines_first_write_witness:
  "map_option MessageWithMeta (GetMsg sample_end 5) = Some (sample_msg 1 [9])
    \<and> map_option MessageWithMeta (GetMsg sample_end 6) = None"
  using nitro_refines_first_write [OF sample_trace [unfolded sample_start_def]]
  by (simp add: fw_run_def fw_start_def)

section \<open>What the map holds\<close>

text \<open>The verified messages of a run, in the order they were offered.\<close>

definition offers :: "fw_event list \<Rightarrow> (u64 \<times> message_with_metadata) list" where
  "offers es = concat (map (\<lambda>e. case e of FwOffer xs \<Rightarrow> xs | _ \<Rightarrow> []) es)"

text \<open>No \<open>Reset\<close>, and no \<open>Advance\<close> from the largest position, which would wrap to 0.\<close>

definition forward_only :: "fw_event list \<Rightarrow> bool" where
  "forward_only es = ((\<forall>q. FwReset q \<notin> set es) \<and> FwAdvance MaxUint64 \<notin> set es)"

definition fw_exact :: "(u64 \<times> message_with_metadata) list \<Rightarrow> first_write \<Rightarrow> bool" where
  "fw_exact xs f = (\<forall>p. fw_msgs f p = (if p < fw_pos f then None else map_of xs p))"

lemma fw_offer_exact: "fw_exact xs f \<Longrightarrow> fw_exact (xs @ ys) (fw_offer ys f) \<and> fw_pos (fw_offer ys f) = fw_pos f"
proof (induction ys arbitrary: xs f)
  case (Cons y ys)
  obtain p m where y: "y = (p, m)" by (cases y)
  let ?f = "if p < fw_pos f \<or> fw_msgs f p \<noteq> None then f else f\<lparr>fw_msgs := (fw_msgs f)(p \<mapsto> m)\<rparr>"
  have "fw_exact (xs @ [y]) ?f"
    using Cons.prems by (auto simp: fw_exact_def y map_add_def split: option.splits)
  from Cons.IH [OF this] show ?case by (simp add: y)
qed simp

lemma fw_advance_exact:
  assumes "fw_exact xs f" and "fw_pos f \<noteq> MaxUint64"
  shows "fw_exact xs (fw_do (FwAdvance (fw_pos f)) f)"
proof -
  have "p < fw_pos f + 1 \<longleftrightarrow> p \<le> fw_pos f" for p
    using assms(2) by (simp add: u_plus_one word_less_nat_alt word_le_nat_alt less_Suc_eq_le)
  with assms show ?thesis by (auto simp: fw_exact_def order.order_iff_strict)
qed

lemma fw_run_exact:
  assumes "forward_only es" and "fw_exact xs f"
    and "\<And>q es1 es2. es = es1 @ FwAdvance q # es2 \<Longrightarrow> q = fw_pos (fw_run es1 f)"
  shows "fw_exact (xs @ offers es) (fw_run es f)"
  using assms
proof (induction es arbitrary: xs f)
  case (Cons e es)
  have fwd: "forward_only es" using Cons.prems(1) by (auto simp: forward_only_def)
  have adv: "q = fw_pos (fw_run es1 (fw_do e f))" if "es = es1 @ FwAdvance q # es2" for q es1 es2
    using Cons.prems(3) [of "e # es1" q es2] that by (simp add: fw_run_def)
  have "fw_exact (xs @ offers [e]) (fw_do e f)"
  proof (cases e)
    case (FwOffer ys)
    then show ?thesis using fw_offer_exact [OF Cons.prems(2), of ys] by (simp add: offers_def)
  next
    case (FwAdvance q)
    then have q: "q = fw_pos f" "q \<noteq> MaxUint64"
      using Cons.prems(3) [of "[]" q es] Cons.prems(1) by (auto simp: fw_run_def forward_only_def)
    with FwAdvance fw_advance_exact [OF Cons.prems(2)] show ?thesis by (simp add: offers_def)
  next
    case (FwAdvanceTo q)
    then show ?thesis using Cons.prems(2) by (auto simp: fw_exact_def offers_def not_le)
  qed (use Cons.prems in \<open>auto simp: forward_only_def offers_def\<close>)
  from Cons.IH [OF fwd this adv] show ?case by (simp add: fw_run_def offers_def)
qed (simp add: offers_def fw_run_def)


lemma nitro_trace_advances:
  "nitro_trace L c es d \<Longrightarrow> conf_inv c \<Longrightarrow> es = es1 @ FwAdvance q # es2
    \<Longrightarrow> q = fw_pos (fw_run es1 (fw_view (fst c)))"
proof (induction arbitrary: es1 rule: nitro_trace.induct)
  case (trace_cons c e d es f)
  show ?case
  proof (cases es1)
    case Nil
    with trace_cons.prems(2) show ?thesis
      by (auto simp: fw_run_def fw_event_of_def split: nitro_event.splits queue_pc.splits list.splits)
  next
    case (Cons x xs)
    with trace_cons.prems(2) have "x = fw_event_of L c e" "es = xs @ FwAdvance q # es2" by simp_all
    with trace_cons.IH [OF conf_inv_step [OF trace_cons.hyps(1) trace_cons.prems(1)]] Cons
      nitro_step_view [OF trace_cons.hyps(1) trace_cons.prems(1)]
    show ?thesis by (simp add: fw_run_def)
  qed
qed simp

lemma nitro_holds_first:
  assumes run: "nitro_trace L (NewEspressoStreamer_nitro L ns b ranges start, Idle) es (s, pc)"
    and "forward_only es"
  shows "map_option MessageWithMeta (GetMsg s p)
    = (if p < currentMessagePos s then None else map_of (offers es) p)"
proof -
  let ?c = "(NewEspressoStreamer_nitro L ns b ranges start, Idle)"
  have inv: "conf_inv ?c" by (simp add: conf_inv_def nitro_inv_new)
  have view: "fw_view (fst ?c) = fw_start start"
    by (simp add: fw_view_def fw_start_def NewEspressoStreamer_nitro_def)
  have "fw_exact ([] @ offers es) (fw_run es (fw_start start))"
  proof (rule fw_run_exact [OF assms(2)])
    show "fw_exact [] (fw_start start)" by (simp add: fw_exact_def fw_start_def)
    show "q = fw_pos (fw_run es1 (fw_start start))" if "es = es1 @ FwAdvance q # es2" for q es1 es2
      using nitro_trace_advances [OF run inv that] by (simp only: view)
  qed
  moreover have "fw_run es (fw_start start) = fw_view s" using new_trace_view [OF run] by simp
  ultimately show ?thesis by (simp add: fw_exact_def GetMsg_def)
qed

text \<open>
  C16. Two nodes agree. Two streamers start anywhere, with their own clients, ranges, interleavings
  and advances, but without a \<open>Reset\<close> and without advancing over the largest position. If the
  verified messages that one of them read are a prefix of those the other read, then at every
  position where both hold a message it is the same one, namely the first that the sequence
  has for it, whatever later messages claim the same position.
\<close>

theorem nodes_agree:
  assumes "nitro_trace L (NewEspressoStreamer_nitro L ns b ranges start, Idle) es (s, pc)"
    and "nitro_trace L' (NewEspressoStreamer_nitro L' ns' b' ranges' start', Idle) es' (s', pc')"
    and "forward_only es" and "forward_only es'" and "prefix (offers es) (offers es')"
    and "GetMsg s p = Some m" and "GetMsg s' p = Some m'"
  shows "MessageWithMeta m = MessageWithMeta m' \<and> map_of (offers es') p = Some (MessageWithMeta m')"
proof -
  have "map_of (offers es) p = Some (MessageWithMeta m)"
    using nitro_holds_first [OF assms(1,3), of p] assms(6) by (simp split: if_splits)
  moreover have "map_of (offers es') p = Some (MessageWithMeta m')"
    using nitro_holds_first [OF assms(2,4), of p] assms(7) by (simp split: if_splits)
  ultimately show ?thesis using assms(5) by (auto elim!: prefixE)
qed

lemma nodes_agree_witness:
  "GetMsg sample_two 4 = Some (snd (sample_entry 4)) \<and> GetMsg sample_end 4 = Some (snd (sample_entry 4))
    \<and> map_of (offers [FwQuiet, FwOffer [(4, sample_msg 1 [9])], FwOffer [(5, sample_msg 1 [9])], FwQuiet]) 4
        = Some (sample_msg 1 [9])"
proof -
  have held: "GetMsg sample_end 4 = Some (snd (sample_entry 4))" "GetMsg sample_two 4 = Some (snd (sample_entry 4))"
    by (simp_all add: GetMsg_def sample_states)
  have fwd: "forward_only [FwQuiet, FwOffer [(4, sample_msg 1 [9])], FwOffer [(5, sample_msg 1 [9])], FwQuiet]"
    by (simp add: forward_only_def)
  note run = sample_trace [unfolded sample_start_def]
  show ?thesis
    using nodes_agree [OF run run fwd fwd prefix_order.order_refl held(1,1)] held by (simp add: sample_entry_def)
qed

end
