(* ===== verification/Nitro_End_To_End.thy ===== *)
theory Nitro_End_To_End
  imports Nitro_Refine Nitro_Progress
begin

text \<open>
  From the writer to the reader: a payload that the batcher builds and signs with the
  functions of \<open>nitro/utils.go\<close>, taken in by a streamer, is read back message by message with
  \<open>Peek\<close> and \<open>Advance\<close>.
\<close>

section \<open>Reading\<close>

text \<open>\<open>n\<close> rounds of \<open>Peek\<close> and \<open>Advance\<close>.\<close>

fun consume :: "nat \<Rightarrow> nitro_streamer \<Rightarrow> message_with_metadata option list \<times> nitro_streamer" where
  "consume 0 s = ([], s)"
| "consume (Suc n) s =
    (let (ms, s') = consume n (Advance s)
     in (map_option MessageWithMeta (Peek_nitro s) # ms, s'))"

lemma consume_exact:
  assumes "fw_exact xs (fw_view s)" and "unat (currentMessagePos s) + n < 2 ^ 64"
  shows "\<exists>s'. consume n s = (map (\<lambda>i. map_of xs (currentMessagePos s + of_nat i)) [0..<n], s')
    \<and> currentMessagePos s' = currentMessagePos s + of_nat n \<and> fw_exact xs (fw_view s')"
  using assms
proof (induction n arbitrary: s)
  case (Suc n)
  have top: "currentMessagePos s \<noteq> MaxUint64"
    using Suc.prems(2) by (auto simp: unsigned_minus_1_eq_mask mask_eq_exp_minus_1)
  have view: "fw_view (Advance s) = fw_do (FwAdvance (fw_pos (fw_view s))) (fw_view s)"
    by (simp add: fw_view_Advance del: fw_do.simps)
  have "fw_exact xs (fw_view (Advance s))"
    unfolding view by (rule fw_advance_exact [OF Suc.prems(1)]) (simp add: top)
  moreover have pos: "currentMessagePos (Advance s) = currentMessagePos s + 1" by (simp add: Advance_def)
  moreover have "unat (currentMessagePos (Advance s)) + n < 2 ^ 64"
    using Suc.prems(2) top by (simp add: pos u_plus_one)
  ultimately obtain s' where s': "consume n (Advance s)
      = (map (\<lambda>i. map_of xs (currentMessagePos s + 1 + of_nat i)) [0..<n], s')"
    "currentMessagePos s' = currentMessagePos s + 1 + of_nat n" "fw_exact xs (fw_view s')"
    using Suc.IH [of "Advance s"] by auto
  have "map_option MessageWithMeta (Peek_nitro s) = map_of xs (currentMessagePos s)"
    using Suc.prems(1) by (simp add: fw_exact_def Peek_nitro_def)
  with s' show ?case
    by (simp add: upt_conv_Cons map_Suc_upt [symmetric] add_ac del: upt_Suc)
qed simp


section \<open>From the batcher to the reader\<close>

text \<open>A payload of the writers, signed by an authorised key, is accepted with all its messages.\<close>

lemma signed_payload_accepted:
  assumes built: "BuildRawHotShotPayload ps f maxSize = (payload, cnt)" and cnt: "0 < cnt"
    and signed: "SignHotShotPayload payload signer = Inr data" "signer payload = Inr quote"
      "length quote = 65" "length data < 2 ^ 63"
    and rlp: "\<And>p bs. p \<in> set ps \<Longrightarrow> f p = Inr bs \<Longrightarrow> bs \<noteq> [] \<and> rlp_decode_message L bs = Inr (msg p)"
    and key: "sig_to_pub L (Keccak256Hash L payload) quote = Inr key"
      "IsValid (monitor s) (pubkey_to_address L key) l1Height"
    and len: "length ps < 2 ^ 64"
  shows "cnt \<le> length ps \<and> accepted L s l1Height data = map (\<lambda>p. (p, msg p)) (take cnt ps)
    \<and> parseEspressoTransaction L data l1Height s
      = map_option (Pair (Inr ())) (store_list (map (\<lambda>p. (p, msg p)) (take cnt ps)) s)"
proof -
  obtain fs where fs: "cnt \<le> length ps" "payload = v0_frames fs" "data = v0_payload quote fs"
    "decode_v0_frames L fs = Inr (map (\<lambda>p. \<lparr>v0_pos = p, v0_message = msg p\<rparr>) (take cnt ps))"
    by (rule build_sign_frames [OF built signed(1,2) rlp])
  define m where "m = \<lparr>v0_signature = quote, v0_hash = Keccak256Hash L payload,
     v0_messages = map (\<lambda>p. \<lparr>v0_pos = p, v0_message = msg p\<rparr>) (take cnt ps)\<rparr>"
  have "Unmarshal_v0 L data = Some (Inr m)"
    using Unmarshal_v0_payload [OF signed(4) [unfolded fs(3)] fs(4)] by (simp add: fs(2,3) m_def)
  with v0_prefix [OF signed(3), of fs]
  have parse: "ParseNitroMessagesFromHotShot L data = Some (Inr (V0Payload m))"
    by (simp add: ParseNitroMessagesFromHotShot_def fs(3))
  have list: "counted (payload_list (V0Payload m)) = map (\<lambda>p. (p, msg p)) (take cnt ps)"
    using len by (simp add: m_def comp_def)
  have "fst (NextMessage (MessageIterator (V0Payload m)) 0) \<noteq> None"
    unfolding nitro_next.ended_iff remaining_MessageIterator list using cnt fs(1) by auto
  then obtain y where some: "fst (NextMessage (MessageIterator (V0Payload m)) 0) = Some y" by blast
  have ver: "VerifySignature L (IsValid (monitor s)) (ChainID s) l1Height (V0Payload m) = Inr (V0Payload m)"
    using key by (simp add: VerifySignature_v0_def check_signer_def m_def Let_def)
  have "accepted L s l1Height data = map (\<lambda>p. (p, msg p)) (take cnt ps)"
    using some ver by (simp add: accepted_def parse list del: payload_list.simps VerifySignature.simps NextMessage.simps MessageIterator.simps)
  moreover have "parseEspressoTransaction L data l1Height s
      = map_option (Pair (Inr ())) (store_list (map (\<lambda>p. (p, msg p)) (take cnt ps)) s)"
    using some ver
    by (simp add: parseEspressoTransaction_def parse store_messages_list remaining_MessageIterator list
        del: payload_list.simps VerifySignature.simps NextMessage.simps MessageIterator.simps)
  ultimately show ?thesis using fs(1) by simp
qed

lemma map_of_consecutive:
  fixes start :: u64
  assumes "i < n" and "unat start + n < 2 ^ 64"
  shows "map_of (map (\<lambda>j. (start + of_nat j, g j)) [0..<n]) (start + of_nat i) = Some (g i)"
proof -
  have pos: "unat (start + of_nat j) = unat start + j" if "j < n" for j
    using assms(2) that by (simp add: unat_word_ariths take_bit_nat_eq_self unat_of_nat)
  have "distinct (map fst (map (\<lambda>j. (start + of_nat j, g j)) [0..<n]))"
    using pos by (auto simp: distinct_map comp_def intro!: inj_onI) (metis add_left_cancel)
  moreover have "(start + of_nat i, g i) \<in> set (map (\<lambda>j. (start + of_nat j, g j)) [0..<n])"
    using assms(1) by auto
  ultimately show ?thesis by (rule map_of_is_SomeI)
qed

text \<open>
  C11. What the batcher writes the reader reads. The batcher takes the messages from position
  \<open>start\<close> on as far as the size limit allows, builds and signs the payload; its 65-byte
  signature recovers to a key whose address may sign at the L1 height of the range. A streamer
  waiting at \<open>start\<close> with an empty buffer takes the payload in, and then \<open>Peek\<close> and \<open>Advance\<close>,
  repeated, give out exactly the batcher's messages in their order; after the last one the
  position is behind it and nothing is left.
\<close>

theorem batcher_to_consumer:
  assumes built: "BuildRawHotShotPayload (map (\<lambda>i. start + of_nat i) [0..<n]) f maxSize = (payload, cnt)"
    and cnt: "0 < cnt" and room: "unat start + n < 2 ^ 64 - 1"
    and signed: "SignHotShotPayload payload signer = Inr data" "signer payload = Inr quote"
      "length quote = 65" "length data < 2 ^ 63"
    and rlp: "\<And>i bs. i < n \<Longrightarrow> f (start + of_nat i) = Inr bs \<Longrightarrow>
      bs \<noteq> [] \<and> rlp_decode_message L bs = Inr (msg (start + of_nat i))"
    and key: "sig_to_pub L (Keccak256Hash L payload) quote = Inr key"
      "IsValid (monitor s) (pubkey_to_address L key) l1Height"
    and state: "currentMessagePos s = start" "messages s = []" "highestPos s \<noteq> MaxUint64"
  shows "\<exists>s' s''. parseEspressoTransaction L data l1Height s = Some (Inr (), s')
    \<and> consume cnt s' = (map (\<lambda>i. Some (msg (start + of_nat i))) [0..<cnt], s'')
    \<and> currentMessagePos s'' = start + of_nat cnt \<and> Peek_nitro s'' = None"
proof -
  let ?ps = "map (\<lambda>i. start + of_nat i) [0..<n]"
  have "length ?ps < 2 ^ 64" using room by simp
  have rlp': "bs \<noteq> [] \<and> rlp_decode_message L bs = Inr (msg p)" if "p \<in> set ?ps" "f p = Inr bs" for p bs
  proof -
    from that(1) obtain i where "i < n" "p = start + of_nat i" by auto
    with rlp [of i bs] that(2) show ?thesis by simp
  qed
  from signed_payload_accepted [OF built cnt signed rlp' key \<open>length ?ps < 2 ^ 64\<close>]
  have le: "cnt \<le> n" and parse: "parseEspressoTransaction L data l1Height s
      = map_option (Pair (Inr ())) (store_list (map (\<lambda>p. (p, msg p)) (take cnt ?ps)) s)" by simp_all
  define xs where "xs = map (\<lambda>i. (start + of_nat i :: u64, msg (start + of_nat i))) [0..<cnt]"
  have xs: "map (\<lambda>p. (p, msg p)) (take cnt ?ps) = xs"
    using le by (simp add: xs_def take_map comp_def min_def)
  have pos: "unat (start + of_nat i) = unat start + i" if "i \<le> cnt" for i
    using room le that by (simp add: unat_word_ariths take_bit_nat_eq_self unat_of_nat)
  have "p \<noteq> MaxUint64" if "(p, x) \<in> set xs" for p x
    using that pos le room by (auto simp: xs_def unsigned_minus_1_eq_mask mask_eq_exp_minus_1 dest!: arg_cong [of _ _ unat])
  then have "store_list xs s \<noteq> None"
    using store_list_returns_iff [of s xs] state(2,3) by auto
  then obtain s' where s': "store_list xs s = Some s'" by blast
  have "fw_exact [] (fw_view s)" by (simp add: fw_exact_def state(2))
  then have ex: "fw_exact xs (fw_view s')" and start: "currentMessagePos s' = start"
    using fw_offer_exact [of "[]" "fw_view s" xs] fw_view_store_list [OF s'] store_list_frame [OF s'] state(1) by simp_all
  have "unat start + cnt < 2 ^ 64" using le room by simp
  with consume_exact [OF ex, of cnt] start obtain s'' where s'':
    "consume cnt s' = (map (\<lambda>i. map_of xs (start + of_nat i)) [0..<cnt], s'')"
    "currentMessagePos s'' = start + of_nat cnt" "fw_exact xs (fw_view s'')" by auto
  have reads: "map_of xs (start + of_nat i) = Some (msg (start + of_nat i))" if "i < cnt" for i
    unfolding xs_def by (rule map_of_consecutive [OF that \<open>unat start + cnt < 2 ^ 64\<close>])
  have "map_of xs (start + of_nat cnt) = None"
    using pos by (auto simp: map_of_eq_None_iff xs_def dest!: arg_cong [of _ _ unat])
  then have "fw_msgs (fw_view s'') (start + of_nat cnt) = None"
    using s''(3) unfolding fw_exact_def by simp
  then have "Peek_nitro s'' = None" using s''(2) by (simp add: Peek_nitro_def)
  moreover have "consume cnt s' = (map (\<lambda>i. Some (msg (start + of_nat i))) [0..<cnt], s'')"
    unfolding s''(1) using reads by (simp cong: map_cong)
  ultimately show ?thesis
    using parse s' s''(2) by (simp add: xs)
qed


lemma batcher_to_consumer_witness:
  "\<exists>data s' s''. parseEspressoTransaction sample_nitro data 50 sample_start = Some (Inr (), s')
    \<and> consume 2 s' = ([Some (sample_msg 1 [4]), Some (sample_msg 1 [5])], s'')
    \<and> currentMessagePos s'' = 6 \<and> Peek_nitro s'' = None"
proof -
  let ?f = "\<lambda>p :: u64. Inr (be_bytes 8 (1 :: u64) @ [ucast p]) :: nitro_err + bytes"
  let ?fs = "[(4, be_bytes 8 (1 :: u64) @ [4]), (5, be_bytes 8 (1 :: u64) @ [5])] :: (u64 \<times> bytes) list"
  let ?sign = "\<lambda>bs. Inr (sample_sign 5 (sample_hash bs)) :: nitro_err + bytes"
  let ?data = "v0_payload (sample_sign 5 (sample_hash (v0_frames ?fs))) ?fs"
  have built: "BuildRawHotShotPayload (map (\<lambda>i. 4 + of_nat i) [0..<2]) ?f 5000 = (v0_frames ?fs, 2)"
    by (simp add: BuildRawHotShotPayload_def MAX_ATTESTATION_QUOTE_SIZE_def v0_frame_def upt_rec
        del: be_bytes.simps)
  have signed: "SignHotShotPayload (v0_frames ?fs) ?sign = Inr ?data"
    by (simp add: SignHotShotPayload_def v0_payload_def)
  have small: "length ?data < 2 ^ 63" by (simp add: v0_payload_def)
  have rlp: "bs \<noteq> [] \<and> rlp_decode_message sample_nitro bs = Inr (sample_msg 1 [ucast (4 + of_nat i :: u64)])"
    if "?f (4 + of_nat i) = Inr bs" for i bs
    using that by (auto simp del: be_bytes.simps)
  have key: "sig_to_pub sample_nitro (Keccak256Hash sample_nitro (v0_frames ?fs))
      (sample_sign 5 (sample_hash (v0_frames ?fs))) = Inr 5"
    by (simp add: sample_nitro_def sample_sign_def)
  have valid: "IsValid (monitor sample_start) (pubkey_to_address sample_nitro 5) 50"
    using sample_valid [of 50] by (simp add: sample_states)
  have state: "currentMessagePos sample_start = 4" "messages sample_start = []" "highestPos sample_start \<noteq> MaxUint64"
    by (simp_all add: sample_states)
  have "unat (4 :: u64) + 2 < 2 ^ 64 - 1" by simp
  from batcher_to_consumer [where msg = "\<lambda>p. sample_msg 1 [ucast p]", OF built _ this signed refl
      length_sample_sign small rlp key valid state]
  show ?thesis by (auto simp: upt_rec)
qed

end
