(* ===== verification/Nitro_Chain.thy ===== *)
theory Nitro_Chain
  imports Nitro_End_To_End Nitro_Fetch
begin

text \<open>
  The Nitro streamer against a whole HotShot chain: the loop of \<open>Start\<close> takes in every payload
  up to the latest block, and \<open>Peek\<close> and \<open>Advance\<close> then give out the messages in the order of
  their positions, whatever order, copies and unverifiable payloads the chain has.
\<close>

section \<open>Reading payloads\<close>

text \<open>
  HotShot as one chain: the payloads of the namespace by block, and the L1 height that the
  header of a block names (0 for none).
\<close>

definition serves_nitro :: "nitro_client \<Rightarrow> u64 \<Rightarrow> u64 \<Rightarrow> (nat \<Rightarrow> bytes list) \<Rightarrow> (u64 \<Rightarrow> u64) \<Rightarrow> bool" where
  "serves_nitro C latest ns chain height =
    (FetchLatestBlockHeight C = Inr latest
     \<and> (\<forall>b. \<exists>f. FetchHeaderByHeight C b = Inr f \<and> height b = (case f of None \<Rightarrow> 0 | Some n \<Rightarrow> n))
     \<and> (\<forall>from until. from < until \<longrightarrow> until \<le> latest \<longrightarrow>
          FetchNamespaceTransactionsInRange C from until ns = Inr (map chain [unat from..<unat until])))"

lemma payloads_exact:
  assumes "parse_payloads (parseEspressoTransaction L) h txs s = Some s'" and "fw_exact xs (fw_view s)"
  shows "fw_exact (xs @ concat (map (accepted L s h) txs)) (fw_view s') \<and> currentMessagePos s' = currentMessagePos s"
  using assms
proof (induction txs arbitrary: s xs)
  case (Cons tx txs)
  from Cons.prems(1) obtain r s1 where s1: "parseEspressoTransaction L tx h s = Some (r, s1)"
    and rest: "parse_payloads (parseEspressoTransaction L) h txs s1 = Some s'"
    by (auto split: bind_splits)
  have "fw_exact (xs @ accepted L s h tx) (fw_view s1)"
    using fw_offer_exact [OF Cons.prems(2)] by (simp add: fw_view_parse [OF s1])
  from Cons.IH [OF rest this] parse_frame [OF s1] show ?case
    by (simp add: accepted_cong [of s1 s])
qed simp

text \<open>What the payloads of the blocks \<open>[from, to)\<close> verify to at the L1 height \<open>h\<close>, in order and as a set.\<close>

definition verified_list ::
  "'k nitro_lib \<Rightarrow> nitro_streamer \<Rightarrow> (nat \<Rightarrow> bytes list) \<Rightarrow> u64 \<Rightarrow> nat \<Rightarrow> nat \<Rightarrow> (u64 \<times> message_with_metadata) list" where
  "verified_list L s chain h from to = concat (map (accepted L s h) (concat (map chain [from..<to])))"

definition verified_in ::
  "'k nitro_lib \<Rightarrow> nitro_streamer \<Rightarrow> (nat \<Rightarrow> bytes list) \<Rightarrow> u64 \<Rightarrow> nat \<Rightarrow> nat \<Rightarrow> (u64 \<times> message_with_metadata) set" where
  "verified_in L s chain h from to = (\<Union>b \<in> {from..<to}. \<Union>tx \<in> set (chain b). set (accepted L s h tx))"

lemma set_verified_list: "set (verified_list L s chain h from to) = verified_in L s chain h from to"
  by (simp add: verified_list_def verified_in_def)

lemma chain_round_list:
  assumes srv: "serves_nitro C latest (namespace_id s) chain height" and le: "nextHotshotBlockNum s \<le> latest"
    and inv: "nitro_inv s" "highestPos s \<noteq> MaxUint64"
    and ok: "\<forall>b. \<forall>tx \<in> set (chain b). harmless L s tx" and ex: "fw_exact xs (fw_view s)"
  shows "\<exists>s'. start_round L C clock s e = Some (s', reset_debouncer e, NoLog)
    \<and> nextHotshotBlockNum s' = range_end (nextHotshotBlockNum s) latest
    \<and> nitro_inv s' \<and> highestPos s' \<noteq> MaxUint64 \<and> namespace_id s' = namespace_id s \<and> monitor s' = monitor s
    \<and> currentMessagePos s' = currentMessagePos s
    \<and> fw_exact (xs @ verified_list L s chain (height (range_end (nextHotshotBlockNum s) latest - 1))
          (unat (nextHotshotBlockNum s)) (unat (range_end (nextHotshotBlockNum s) latest))) (fw_view s')"
proof -
  let ?b = "nextHotshotBlockNum s"
  let ?to = "range_end ?b latest" and ?txs = "\<lambda>from to. concat (map chain [unat from..<unat to])"
  have bounds: "?b \<le> ?to" "?to \<le> latest" using range_end_bounds [OF le] by simp_all
  have latest: "FetchLatestBlockHeight C = Inr latest" using srv by (simp add: serves_nitro_def)
  obtain f where f: "FetchHeaderByHeight C (?to - 1) = Inr f" "height (?to - 1) = (case f of None \<Rightarrow> 0 | Some n \<Rightarrow> n)"
    using srv unfolding serves_nitro_def by blast
  have range: "fetch_range C ?b (namespace_id s)
      = Inr (?to, if ?b = ?to then None else Some (height (?to - 1), map chain [unat ?b..<unat ?to]))"
  proof (cases "?b = ?to")
    case True
    then show ?thesis
      using le unfolding fetch_range_def latest sum.case Let_def range_end_def [symmetric] by (simp add: not_less [symmetric])
  next
    case False
    then have lt: "?b < ?to" using bounds(1) by simp
    then have d: "FetchNamespaceTransactionsInRange C ?b ?to (namespace_id s) = Inr (map chain [unat ?b..<unat ?to])"
      using srv bounds(2) unfolding serves_nitro_def by blast
    have "map chain [unat ?b..<unat ?to] \<noteq> []" using lt by (simp add: word_less_nat_alt)
    then show ?thesis
      using le False unfolding fetch_range_def latest sum.case Let_def range_end_def [symmetric]
      by (simp add: d f not_less [symmetric])
  qed
  obtain s1 where s1: "parse_payloads (parseEspressoTransaction L) (height (?to - 1)) (?txs ?b ?to) s = Some s1"
    "nitro_inv s1" "highestPos s1 \<noteq> MaxUint64" "nextHotshotBlockNum s1 = ?b" "namespace_id s1 = namespace_id s"
    "monitor s1 = monitor s"
    using harmless_payloads [OF _ inv, of "?txs ?b ?to" L "height (?to - 1)"] ok by fastforce
  let ?s' = "s1\<lparr>nextHotshotBlockNum := ?to\<rparr>"
  have "QueueMessagesFromHotshot C (parseEspressoTransaction L) s = Some (Inr (), ?s')"
  proof (cases "?b = ?to")
    case True
    then have "s1 = s" using s1(1) by simp
    with True show ?thesis by (simp add: QueueMessagesFromHotshot_def fetchNextHotshotBlock_def range)
  next
    case False
    with s1(1,4) show ?thesis
      by (simp add: QueueMessagesFromHotshot_def fetchNextHotshotBlock_def range parse_blocks_concat)
  qed
  then have "start_round L C clock s e = Some (?s', reset_debouncer e, NoLog)" by (simp add: start_round_def)
  moreover have "nitro_inv ?s'" using s1(2,4) bounds(1) by (intro nitro_inv_forward) simp_all
  moreover note payloads_exact [OF s1(1) ex]
  moreover have "fw_view ?s' = fw_view s1" by (simp add: fw_view_def)
  ultimately show ?thesis
    using s1 by (intro exI [of _ ?s']) (simp add: verified_list_def)
qed

lemma chain_round:
  assumes "serves_nitro C latest (namespace_id s) chain height" and "nextHotshotBlockNum s \<le> latest"
    and "nitro_inv s" "highestPos s \<noteq> MaxUint64"
    and "\<forall>b. \<forall>tx \<in> set (chain b). harmless L s tx" and "fw_exact xs (fw_view s)"
  shows "\<exists>s' ys. start_round L C clock s e = Some (s', reset_debouncer e, NoLog)
    \<and> nextHotshotBlockNum s' = range_end (nextHotshotBlockNum s) latest
    \<and> nitro_inv s' \<and> highestPos s' \<noteq> MaxUint64 \<and> namespace_id s' = namespace_id s \<and> monitor s' = monitor s
    \<and> currentMessagePos s' = currentMessagePos s \<and> fw_exact (xs @ ys) (fw_view s')
    \<and> set ys = verified_in L s chain (height (range_end (nextHotshotBlockNum s) latest - 1))
        (unat (nextHotshotBlockNum s)) (unat (range_end (nextHotshotBlockNum s) latest))"
  using chain_round_list [OF assms, of clock e] set_verified_list by metis

lemma verified_in_cong:
  assumes "monitor s' = monitor s" and "namespace_id s' = namespace_id s"
  shows "verified_in L s' chain h from to = verified_in L s chain h from to"
  unfolding verified_in_def accepted_cong [OF assms] by (rule refl)

text \<open>
  After some rounds: everything stored was verified in some range, and everything that verifies at
  the L1 heights of the next 100 blocks was stored.
\<close>

definition stored_up_to ::
  "'k nitro_lib \<Rightarrow> nitro_streamer \<Rightarrow> (nat \<Rightarrow> bytes list) \<Rightarrow> (u64 \<Rightarrow> u64) \<Rightarrow> u64 \<Rightarrow> nat \<Rightarrow> nat
    \<Rightarrow> (u64 \<times> message_with_metadata) set \<Rightarrow> bool" where
  "stored_up_to L s chain height latest from to ys =
    (ys \<subseteq> (\<Union>b. \<Union>h. \<Union>tx \<in> set (chain b). set (accepted L s (height h) tx))
     \<and> (\<forall>b tx p. from \<le> b \<longrightarrow> b < to \<longrightarrow> tx \<in> set (chain b) \<longrightarrow>
          (\<forall>e. b \<le> unat e \<longrightarrow> unat e < b + 100 \<longrightarrow> e < latest \<longrightarrow> p \<in> fst ` set (accepted L s (height e) tx)) \<longrightarrow>
          p \<in> fst ` ys))"

lemma round_stored:
  assumes le: "from \<le> latest"
  shows "stored_up_to L s chain height latest (unat from) (unat (range_end from latest))
    (verified_in L s chain (height (range_end from latest - 1)) (unat from) (unat (range_end from latest)))"
proof -
  let ?to = "range_end from latest"
  have bounds: "from \<le> ?to" "?to \<le> latest" "unat ?to - unat from \<le> 100" using range_end_bounds [OF le] by simp_all
  have "p \<in> fst ` verified_in L s chain (height (?to - 1)) (unat from) (unat ?to)"
    if b: "unat from \<le> b" "b < unat ?to" and tx: "tx \<in> set (chain b)"
      and p: "\<forall>e. b \<le> unat e \<longrightarrow> unat e < b + 100 \<longrightarrow> e < latest \<longrightarrow> p \<in> fst ` set (accepted L s (height e) tx)"
    for b tx p
  proof -
    have "?to \<noteq> 0" using b(2) by auto
    then have u: "unat (?to - 1) = unat ?to - 1" by (simp add: unat_minus_one)
    then have "b \<le> unat (?to - 1)" "unat (?to - 1) < b + 100" "?to - 1 < latest"
      using b bounds by (simp_all add: word_less_nat_alt word_le_nat_alt)
    then have "p \<in> fst ` set (accepted L s (height (?to - 1)) tx)" using p by blast
    then show ?thesis using b tx by (fastforce simp: verified_in_def)
  qed
  then show ?thesis by (auto simp: stored_up_to_def) (auto simp: verified_in_def)
qed

lemma stored_up_to_trans:
  assumes "stored_up_to L s chain height latest from mid ys" and "stored_up_to L s chain height latest mid to zs"
  shows "stored_up_to L s chain height latest from to (ys \<union> zs)"
proof -
  have "p \<in> fst ` (ys \<union> zs)"
    if "from \<le> b" "b < to" "tx \<in> set (chain b)"
      "\<forall>e. b \<le> unat e \<longrightarrow> unat e < b + 100 \<longrightarrow> e < latest \<longrightarrow> p \<in> fst ` set (accepted L s (height e) tx)" for b tx p
  proof (cases "b < mid")
    case True
    then have "p \<in> fst ` ys" using assms(1) that unfolding stored_up_to_def by blast
    then show ?thesis by blast
  next
    case False
    then have "mid \<le> b" by simp
    then have "p \<in> fst ` zs" using assms(2) that unfolding stored_up_to_def by blast
    then show ?thesis by blast
  qed
  then show ?thesis using assms by (simp add: stored_up_to_def)
qed

lemma chain_rounds:
  assumes "serves_nitro C latest (namespace_id s) chain height" and "nextHotshotBlockNum s \<le> latest"
    and "nitro_inv s" "highestPos s \<noteq> MaxUint64"
    and "\<forall>b. \<forall>tx \<in> set (chain b). harmless L s tx" and "fw_exact xs (fw_view s)"
  shows "\<exists>s' ys. start_rounds L (replicate k (C, clock)) s e = Some (s', replicate k NoLog)
    \<and> currentMessagePos s' = currentMessagePos s \<and> fw_exact (xs @ ys) (fw_view s')
    \<and> stored_up_to L s chain height latest (unat (nextHotshotBlockNum s))
        (min (unat latest) (unat (nextHotshotBlockNum s) + 100 * k)) (set ys)"
  using assms
proof (induction k arbitrary: s e xs)
  case 0
  then show ?case
    by (intro exI [of _ s] exI [of _ "[]"]) (auto simp: stored_up_to_def word_le_nat_alt)
next
  case (Suc k)
  let ?b = "nextHotshotBlockNum s" and ?to = "range_end (nextHotshotBlockNum s) latest"
  obtain s1 ys where r: "start_round L C clock s e = Some (s1, reset_debouncer e, NoLog)"
    and s1: "nextHotshotBlockNum s1 = ?to" "nitro_inv s1" "highestPos s1 \<noteq> MaxUint64"
      "namespace_id s1 = namespace_id s" "monitor s1 = monitor s" "currentMessagePos s1 = currentMessagePos s"
    and ex: "fw_exact (xs @ ys) (fw_view s1)"
    and ys: "set ys = verified_in L s chain (height (?to - 1)) (unat ?b) (unat ?to)"
    using chain_round [where clock = clock and e = e, OF Suc.prems] by blast
  have to: "?to \<le> latest" "unat ?to = min (unat latest) (unat ?b + 100)"
    using range_end_bounds [OF Suc.prems(2)] range_end_unat [OF Suc.prems(2)] by simp_all
  have "\<forall>b. \<forall>tx \<in> set (chain b). harmless L s1 tx"
    using Suc.prems(5) by (simp add: harmless_cong [OF s1(5,4)])
  then obtain s' zs where s': "start_rounds L (replicate k (C, clock)) s1 (reset_debouncer e) = Some (s', replicate k NoLog)"
    "currentMessagePos s' = currentMessagePos s1" "fw_exact ((xs @ ys) @ zs) (fw_view s')"
    "stored_up_to L s1 chain height latest (unat ?to) (min (unat latest) (unat ?to + 100 * k)) (set zs)"
    using Suc.IH [of s1 "xs @ ys" "reset_debouncer e"] Suc.prems(1) s1 to(1) ex by auto
  have "stored_up_to L s chain height latest (unat ?to) (min (unat latest) (unat ?to + 100 * k)) (set zs)"
    using s'(4) unfolding stored_up_to_def accepted_cong [OF s1(5,4)] .
  with round_stored [OF Suc.prems(2), of L s chain height]
  have "stored_up_to L s chain height latest (unat ?b) (min (unat latest) (unat ?to + 100 * k)) (set ys \<union> set zs)"
    unfolding ys [symmetric] by (rule stored_up_to_trans)
  moreover have "min (unat latest) (unat ?to + 100 * k) = min (unat latest) (unat ?b + 100 * Suc k)"
    using to(2) by simp
  ultimately show ?case
    using r s' s1(6) by (intro exI [of _ s'] exI [of _ "ys @ zs"]) simp
qed

section \<open>The messages come out in order\<close>

text \<open>
  C7. The sequencer's messages come out in the order of their positions. A client serves one
  chain up to the block \<open>latest\<close>; a streamer whose buffer is empty waits at a position. Let
  every message that verifies in the chain be the sequencer's message \<open>M p\<close> for its position
  \<open>p\<close>, and let each of the next \<open>n\<close> positions be in some payload from the streamer's block on
  that verifies at the L1 height of every block up to 99 later (the range it is read with
  ends within these). Then the loop of \<open>Start\<close> takes the chain in without an error, one round for 100 blocks, and \<open>n\<close> times
  \<open>Peek\<close> and \<open>Advance\<close> return exactly the next \<open>n\<close> messages in their order, whatever order,
  copies, foreign or malformed payloads the blocks have.
\<close>

theorem nitro_chain_delivered:
  assumes srv: "serves_nitro C latest (namespace_id s) chain height"
    and state: "nextHotshotBlockNum s \<le> latest" "nitro_inv s" "highestPos s \<noteq> MaxUint64" "messages s = []"
    and small: "\<forall>b. \<forall>tx \<in> set (chain b). harmless L s tx"
    and honest: "\<And>b tx h p x. tx \<in> set (chain b) \<Longrightarrow> (p, x) \<in> set (accepted L s (height h) tx) \<Longrightarrow> x = M p"
    and posted: "\<And>i. i < n \<Longrightarrow> \<exists>b tx. unat (nextHotshotBlockNum s) \<le> b \<and> b < unat latest \<and> tx \<in> set (chain b)
      \<and> (\<forall>e. b \<le> unat e \<longrightarrow> unat e < b + 100 \<longrightarrow> e < latest \<longrightarrow>
           currentMessagePos s + of_nat i \<in> fst ` set (accepted L s (height e) tx))"
    and rounds: "unat latest \<le> unat (nextHotshotBlockNum s) + 100 * k"
    and room: "unat (currentMessagePos s) + n < 2 ^ 64"
  shows "\<exists>s' s''. Start L (replicate k (C, clock)) s = Some (s', replicate k NoLog)
    \<and> consume n s' = (map (\<lambda>i. Some (M (currentMessagePos s + of_nat i))) [0..<n], s'')
    \<and> currentMessagePos s'' = currentMessagePos s + of_nat n"
proof -
  define e0 where "e0 = \<lparr>firstSeen = None, lastLog = None, duration = 3 * 60 * 10 ^ 9, interval = 60 * 10 ^ 9\<rparr>"
  have "fw_exact [] (fw_view s)" by (simp add: fw_exact_def state(4))
  from chain_rounds [where k = k and clock = clock and e = e0, OF srv state(1-3) small this]
  obtain s' ys where run: "Start L (replicate k (C, clock)) s = Some (s', replicate k NoLog)"
    and pos: "currentMessagePos s' = currentMessagePos s" and ex: "fw_exact ys (fw_view s')"
    and st: "stored_up_to L s chain height latest (unat (nextHotshotBlockNum s)) (unat latest) (set ys)"
    using rounds by (auto simp: Start_def e0_def min_absorb1)
  have true: "x = M p" if "(p, x) \<in> set ys" for p x
    using st that honest unfolding stored_up_to_def by blast
  have read: "map_of ys (currentMessagePos s + of_nat i) = Some (M (currentMessagePos s + of_nat i))" if "i < n" for i
  proof -
    have "currentMessagePos s + of_nat i \<in> fst ` set ys"
      using st posted [OF that] unfolding stored_up_to_def by blast
    then obtain x where x: "map_of ys (currentMessagePos s + of_nat i) = Some x"
      by (cases "map_of ys (currentMessagePos s + of_nat i)") (auto simp: map_of_eq_None_iff)
    with true [OF map_of_SomeD [OF x]] show ?thesis by simp
  qed
  from consume_exact [OF ex, of n] pos room obtain s'' where
    "consume n s' = (map (\<lambda>i. map_of ys (currentMessagePos s + of_nat i)) [0..<n], s'')"
    "currentMessagePos s'' = currentMessagePos s + of_nat n" by auto
  with read run show ?thesis by (auto cong: map_cong)
qed

text \<open>The message of position 5 is in block 10, the one of position 4 behind undecodable bytes in block 11.\<close>

definition sample_nitro_chain :: "nat \<Rightarrow> bytes list" where
  "sample_nitro_chain b = (if b = 10 then [sample_tx 5] else if b = 11 then [[1, 2], sample_tx 4, sample_tx 5] else [])"

definition nitro_chain_client :: nitro_client where
  "nitro_chain_client =
    \<lparr>FetchLatestBlockHeight = Inr 12, FetchHeaderByHeight = (\<lambda>_. Inr (Some 50)),
     FetchNamespaceTransactionsInRange = (\<lambda>from until ns. Inr (map sample_nitro_chain [unat from..<unat until]))\<rparr>"

lemma short_undecodable: "accepted L s h [1, 2] = []"
proof -
  have "\<not> HasPrefix [1, 2] version0Peek" "\<not> HasPrefix [1, 2] version1HeaderPeek" by code_simp+
  then show ?thesis by (simp add: accepted_def ParseNitroMessagesFromHotShot_def)
qed

lemma nitro_chain_delivered_witness:
  "\<exists>s' s''. Start sample_nitro [(nitro_chain_client, 0, 0, 0)] sample_start = Some (s', [NoLog])
    \<and> consume 2 s' = ([Some (sample_msg 1 [9]), Some (sample_msg 1 [9])], s'') \<and> currentMessagePos s'' = 6"
proof -
  have st: "nextHotshotBlockNum sample_start = 10" "highestPos sample_start \<noteq> MaxUint64" "messages sample_start = []"
    "currentMessagePos sample_start = 4" "namespace_id sample_start = 1"
    "monitor sample_start = NewBatcherAddressMonitor sample_nitro sample_ranges"
    by (simp_all add: sample_states)
  have acc: "accepted sample_nitro sample_start 50 (sample_tx p) = [(p, sample_msg 1 [9])]" for p
    by (rule sample_accepted(1) [OF st(6)]) simp
  have "length (sample_tx p) < 2 ^ 63" for p
    by (simp add: sample_tx_def v0_payload_def sample_frames_def)
  then have harm: "harmless sample_nitro sample_start (sample_tx p)" if "p \<noteq> MaxUint64" for p
    using that sample_accepted_pos by (fastforce simp: harmless_def)
  have "\<exists>s' s''. Start sample_nitro (replicate 1 (nitro_chain_client, (0, 0, 0))) sample_start = Some (s', replicate 1 NoLog)
    \<and> consume 2 s' = (map (\<lambda>i. Some ((\<lambda>_ :: u64. sample_msg 1 [9]) (currentMessagePos sample_start + of_nat i))) [0..<2], s'')
    \<and> currentMessagePos s'' = currentMessagePos sample_start + of_nat 2"
  proof (rule nitro_chain_delivered [where latest = 12 and chain = sample_nitro_chain and height = "\<lambda>_. 50"])
    show "serves_nitro nitro_chain_client 12 (namespace_id sample_start) sample_nitro_chain (\<lambda>_. 50)"
      by (simp add: serves_nitro_def nitro_chain_client_def)
    show "nitro_inv sample_start" unfolding sample_start_def by (rule nitro_inv_new)
    show "\<forall>b. \<forall>tx \<in> set (sample_nitro_chain b). harmless sample_nitro sample_start tx"
      using harm by (auto simp: sample_nitro_chain_def) (simp add: harmless_def short_undecodable)
    show "x = sample_msg 1 [9]" if "tx \<in> set (sample_nitro_chain b)" "(p, x) \<in> set (accepted sample_nitro sample_start 50 tx)"
      for b tx and h :: u64 and p x
      using that by (auto simp: sample_nitro_chain_def acc short_undecodable split: if_splits)
    show "\<exists>b tx. unat (nextHotshotBlockNum sample_start) \<le> b \<and> b < unat (12 :: u64) \<and> tx \<in> set (sample_nitro_chain b)
      \<and> (\<forall>e. b \<le> unat e \<longrightarrow> unat e < b + 100 \<longrightarrow> e < 12 \<longrightarrow>
           currentMessagePos sample_start + of_nat i \<in> fst ` set (accepted sample_nitro sample_start 50 tx))"
      if "i < 2" for i
      by (rule exI [of _ 11], rule exI [of _ "sample_tx (4 + of_nat i)"])
        (use that in \<open>auto simp: st acc sample_nitro_chain_def less_2_cases_iff\<close>)
  qed (simp_all add: st)
  then show ?thesis by (simp add: st numeral_2_eq_2 del: consume.simps)
qed

end
