(* ===== verification/Nitro_Reset.thy ===== *)
theory Nitro_Reset
  imports Nitro_Chain
begin

text \<open>
  What callers see of the streamer: the invariant of every reachable state, messages in the
  order of their positions, and a \<open>Reset\<close> that comes at any point of a fetch.
\<close>

section \<open>Every reachable state\<close>

text \<open>
  In every state reached by any interleaving of the reader with the other callers, every
  buffered entry is stored under its own position, at or above the consumer's position, and
  its HotShot height is at most the next block to read and at most the height of every entry
  at a later position. So \<open>Peek\<close> gives out exactly the consumer's position.
\<close>

theorem nitro_streamer_invariant:
  assumes "nitro_reach L ok (NewEspressoStreamer_nitro L ns b0 ranges start) (s, pc) log"
    and "GetMsg s p = Some m"
  shows "Pos m = p \<and> currentMessagePos s \<le> p \<and> HotshotHeight m \<le> nextHotshotBlockNum s
    \<and> (\<forall>q m'. GetMsg s q = Some m' \<longrightarrow> p \<le> q \<longrightarrow> HotshotHeight m \<le> HotshotHeight m')
    \<and> (\<forall>m'. Peek_nitro s = Some m' \<longrightarrow> Pos m' = currentMessagePos s)"
proof -
  have inv: "nitro_inv s" using conf_inv_reach [OF assms(1)] by (simp add: conf_inv_def)
  note m = assms(2) [unfolded GetMsg_def]
  have "HotshotHeight m \<le> HotshotHeight m'" if "GetMsg s q = Some m'" "p \<le> q" for q m'
    using nitro_inv_mono [OF inv m] that unfolding GetMsg_def by blast
  moreover have "Pos m' = currentMessagePos s" if "Peek_nitro s = Some m'" for m'
    using nitro_inv_entry [OF inv that [unfolded Peek_nitro_def]] by simp
  ultimately show ?thesis using nitro_inv_entry [OF inv m] by blast
qed

theorem nitro_streamer_invariant_witness:
  "Pos (snd (sample_entry 5)) = 5 \<and> HotshotHeight (snd (sample_entry 5)) \<le> nextHotshotBlockNum sample_end"
proof -
  have "GetMsg sample_end 5 = Some (snd (sample_entry 5))" by (simp add: GetMsg_def sample_states)
  from nitro_streamer_invariant [OF sample_reach(2) [unfolded sample_start_def] this]
  show ?thesis by blast
qed

section \<open>Reset during a fetch\<close>

text \<open>Parsing a first part of the payloads of a range.\<close>

lemma parse_payloads_prefix:
  "parse_payloads (parseEspressoTransaction L) h xs s = Some s'
    \<Longrightarrow> nitro_steps L (s, Parsing b to h (xs @ ys)) (replicate (length xs) ParseNext) (s', Parsing b to h ys)"
proof (induction xs arbitrary: s)
  case (Cons tx txs)
  from Cons.prems obtain r s1 where "parseEspressoTransaction L tx h s = Some (r, s1)"
    "parse_payloads (parseEspressoTransaction L) h txs s1 = Some s'"
    by (auto split: bind_splits)
  with Cons.IH show ?case by (auto intro: parse_payload)
qed simp

lemma Reset_nitro_frame:
  "namespace_id s' = namespace_id s \<Longrightarrow> monitor s' = monitor s \<Longrightarrow> Reset_nitro p b s' = Reset_nitro p b s"
  by (simp add: Reset_nitro_def)

lemma parse_payloads_frame:
  "parse_payloads (parseEspressoTransaction L) h txs s = Some s' \<Longrightarrow>
    nextHotshotBlockNum s' = nextHotshotBlockNum s \<and> namespace_id s' = namespace_id s \<and> monitor s' = monitor s"
proof (induction txs arbitrary: s)
  case (Cons tx txs)
  from Cons.prems obtain r s1 where s1: "parseEspressoTransaction L tx h s = Some (r, s1)"
    and rest: "parse_payloads (parseEspressoTransaction L) h txs s1 = Some s'"
    by (auto split: bind_splits)
  from Cons.IH [OF rest] parse_frame [OF s1] show ?case by simp
qed simp

text \<open>The events of a run determine it, so what one run with them shows holds of every such run.\<close>

lemma nitro_step_deterministic:
  assumes "nitro_step L c e d" and "nitro_step L c e d'"
  shows "d' = d"
  using assms by cases (use assms(2) in \<open>auto elim: nitro_step.cases\<close>)

lemma nitro_steps_deterministic: "nitro_steps L c es d \<Longrightarrow> nitro_steps L c es d' \<Longrightarrow> d' = d"
proof (induction rule: nitro_steps.induct)
  case (steps_step c e c' es c'')
  from steps_step.prems obtain c1 where "nitro_step L c e c1" "nitro_steps L c1 es d'" by auto
  with nitro_step_deterministic [OF steps_step.hyps(1)] steps_step.IH show ?case by blast
qed simp

lemma reset_mid_fetch_run:
  assumes "fetch_range C (nextHotshotBlockNum s) (namespace_id s) = Inr (to, Some (h, blocks))"
    and "concat blocks = xs @ ys"
    and "parse_payloads (parseEspressoTransaction L) h xs s = Some s1"
    and "parse_payloads (parseEspressoTransaction L) h ys (Reset_nitro p b s) = Some s2"
  shows "nitro_steps L (s, Idle)
    (BeginQueue C # replicate (length xs) ParseNext @ ResetCall p b # replicate (length ys) ParseNext @ [CommitBlock])
    (if b = nextHotshotBlockNum s then s2\<lparr>nextHotshotBlockNum := to\<rparr> else s2, Idle)"
proof -
  let ?b = "nextHotshotBlockNum s"
  have rs: "Reset_nitro p b s1 = Reset_nitro p b s"
    using parse_payloads_frame [OF assms(3)] by (intro Reset_nitro_frame) simp_all
  have s2: "nextHotshotBlockNum s2 = b" using parse_payloads_frame [OF assms(4)] by (simp add: Reset_nitro_def)
  have begin_: "nitro_step L (s, Idle) (BeginQueue C) (s, Parsing ?b to h (xs @ ys))"
    using begin_range [OF assms(1), of L] assms(2) by simp
  have before: "nitro_steps L (s, Parsing ?b to h (xs @ ys)) (replicate (length xs) ParseNext) (s1, Parsing ?b to h ys)"
    by (rule parse_payloads_prefix [OF assms(3)])
  have reset: "nitro_step L (s1, Parsing ?b to h ys) (ResetCall p b) (Reset_nitro p b s, Parsing ?b to h ys)"
    using reset_call [of L s1 "Parsing ?b to h ys" p b] unfolding rs .
  have "nitro_step L (s2, Parsing ?b to h []) CommitBlock
      (if b = ?b then s2\<lparr>nextHotshotBlockNum := to\<rparr> else s2, Idle)"
    using commit_block [of L s2 ?b to h] unfolding s2 .
  then have "nitro_steps L (s2, Parsing ?b to h []) [CommitBlock]
      (if b = ?b then s2\<lparr>nextHotshotBlockNum := to\<rparr> else s2, Idle)"
    by (intro steps_step [OF _ steps_refl])
  from nitro_steps_append [OF parse_payloads_steps [OF assms(4), of ?b to] this]
  show ?thesis by (intro steps_step [OF begin_] nitro_steps_append [OF before] steps_step [OF reset])
qed

text \<open>
  C38. A \<open>Reset\<close> to the position \<open>p\<close> and the block \<open>b\<close> at any point of a fetch, after the
  payloads \<open>xs\<close> of the range and before its payloads \<open>ys\<close>. Every run of these events ends in one
  state. If \<open>b\<close> is not the block the fetch started from, the next block is \<open>b\<close>: the call does
  not jump to the end of its range. If it is, the comparison at the end of the call cannot tell
  the \<open>Reset\<close> from none, and the next block is the end of the range. In both cases the buffer holds exactly
  the first messages at or above \<open>p\<close> that \<open>ys\<close> verified to. So with \<open>b\<close> the start block the
  messages that only \<open>xs\<close> had are lost: they are not in the buffer, and the next fetch begins
  after the range; a \<open>Reset\<close> before the first payload loses nothing.
\<close>

theorem reset_during_fetch:
  assumes "fetch_range C (nextHotshotBlockNum s) (namespace_id s) = Inr (to, Some (h, blocks))"
    and "concat blocks = xs @ ys"
    and "parse_payloads (parseEspressoTransaction L) h xs s = Some s1"
    and "parse_payloads (parseEspressoTransaction L) h ys (Reset_nitro p b s) = Some s2"
  shows "\<exists>t. (\<forall>c. nitro_steps L (s, Idle)
        (BeginQueue C # replicate (length xs) ParseNext @ ResetCall p b # replicate (length ys) ParseNext @ [CommitBlock])
        c \<longleftrightarrow> c = (t, Idle))
    \<and> nextHotshotBlockNum t = (if b = nextHotshotBlockNum s then to else b) \<and> nextHotshotBlockNum s < to
    \<and> currentMessagePos t = p
    \<and> (\<forall>q. map_option MessageWithMeta (GetMsg t q)
          = (if q < p then None else map_of (concat (map (accepted L s h) ys)) q))"
proof -
  let ?t = "if b = nextHotshotBlockNum s then s2\<lparr>nextHotshotBlockNum := to\<rparr> else s2"
  note run = reset_mid_fetch_run [OF assms]
  have "nitro_steps L (s, Idle)
      (BeginQueue C # replicate (length xs) ParseNext @ ResetCall p b # replicate (length ys) ParseNext @ [CommitBlock]) c
      \<longleftrightarrow> c = (?t, Idle)" for c
    using run nitro_steps_deterministic [OF run] by blast
  moreover have "nextHotshotBlockNum s2 = b" using parse_payloads_frame [OF assms(4)] by (simp add: Reset_nitro_def)
  moreover have "nextHotshotBlockNum s < to" using assms(1) by (cases rule: fetch_range_cases) simp_all
  moreover have "fw_exact [] (fw_view (Reset_nitro p b s))" by (simp add: fw_exact_def Reset_nitro_def)
  note exact = payloads_exact [OF assms(4) this]
  have "accepted L (Reset_nitro p b s) h = accepted L s h"
    by (intro ext accepted_cong) (simp_all add: Reset_nitro_def)
  with exact have "fw_exact (concat (map (accepted L s h) ys)) (fw_view s2)" by simp
  moreover have "currentMessagePos s2 = p" using exact by (simp add: Reset_nitro_def)
  ultimately show ?thesis by (intro exI [of _ ?t]) (simp add: fw_exact_def GetMsg_def)
qed

text \<open>A \<open>Reset\<close> to the start block between the two payloads: the message at position 4 is lost.\<close>

theorem reset_during_fetch_witness:
  "\<exists>t. nitro_steps sample_nitro (sample_start, Idle)
      [BeginQueue sample_client, ParseNext, ResetCall 4 10, ParseNext, CommitBlock] (t, Idle)
    \<and> nextHotshotBlockNum t = 11 \<and> map_option MessageWithMeta (GetMsg t 4) = None
    \<and> map_option MessageWithMeta (GetMsg t 5) = Some (sample_msg 1 [9])"
proof -
  have st: "nextHotshotBlockNum sample_start = 10" "namespace_id sample_start = 1"
    "monitor sample_start = NewBatcherAddressMonitor sample_nitro sample_ranges"
    by (simp_all add: sample_states)
  have f: "fetch_range sample_client (nextHotshotBlockNum sample_start) (namespace_id sample_start)
      = Inr (11, Some (50, [[sample_tx 4, sample_tx 5]]))"
    by (simp add: st sample_nitro_fetch)
  have cut: "concat [[sample_tx 4, sample_tx 5]] = [sample_tx 4] @ [sample_tx 5]" by simp
  have before: "parse_payloads (parseEspressoTransaction sample_nitro) 50 [sample_tx 4] sample_start = Some sample_one"
    by (simp add: sample_parses)
  have after: "parse_payloads (parseEspressoTransaction sample_nitro) 50 [sample_tx 5] (Reset_nitro 4 10 sample_start)
      = Some ((Reset_nitro 4 10 sample_start)\<lparr>messages := [sample_entry 5], highestPos := 5\<rparr>)"
    by (simp add: sample_accepted(2) Reset_nitro_def sample_states store_message_def Let_def lower_height_above)
  have acc: "accepted sample_nitro sample_start 50 (sample_tx 5) = [(5, sample_msg 1 [9])]"
    by (rule sample_accepted(1) [OF st(3)]) simp
  from reset_during_fetch [OF f cut before after] obtain t where
    "nitro_steps sample_nitro (sample_start, Idle) (BeginQueue sample_client # replicate (length [sample_tx 4]) ParseNext
       @ ResetCall 4 10 # replicate (length [sample_tx 5]) ParseNext @ [CommitBlock]) (t, Idle)"
    "nextHotshotBlockNum t = (if 10 = nextHotshotBlockNum sample_start then 11 else 10)"
    "\<forall>q. map_option MessageWithMeta (GetMsg t q)
      = (if q < 4 then None else map_of (concat (map (accepted sample_nitro sample_start 50) [sample_tx 5])) q)"
    by blast
  then show ?thesis by (intro exI [of _ t]) (simp add: st acc del: nitro_steps_simps)
qed

end
