(* ===== verification/Nitro_Polling.thy ===== *)
theory Nitro_Polling
  imports Nitro_Chain
begin

text \<open>
  What a Nitro streamer holds as a function of when it polled. All payloads of a fetched range
  are verified with the L1 height of the header of the range's last block, and the ranges end
  where the chain ended at the polls; so the polls decide which messages are accepted.
\<close>

section \<open>Polls of one chain\<close>

text \<open>The next block after a poll at which the latest block is \<open>h\<close>.\<close>

definition poll_end :: "u64 \<Rightarrow> u64 \<Rightarrow> u64" where
  "poll_end b h = (if b \<le> h then range_end b h else b)"

text \<open>What the polls from the block \<open>b\<close> at the latest blocks \<open>hs\<close> verify, in order.\<close>

fun polled ::
  "'k nitro_lib \<Rightarrow> nitro_streamer \<Rightarrow> (nat \<Rightarrow> bytes list) \<Rightarrow> (u64 \<Rightarrow> u64) \<Rightarrow> u64 \<Rightarrow> u64 list
    \<Rightarrow> (u64 \<times> message_with_metadata) list" where
  "polled L s chain height b [] = []"
| "polled L s chain height b (h # hs) =
    verified_list L s chain (height (poll_end b h - 1)) (unat b) (unat (poll_end b h))
    @ polled L s chain height (poll_end b h) hs"

lemma verified_list_cong:
  assumes "monitor s' = monitor s" and "namespace_id s' = namespace_id s"
  shows "verified_list L s' chain h from to = verified_list L s chain h from to"
  unfolding verified_list_def accepted_cong [OF assms] by (rule refl)

lemma polled_cong:
  assumes "monitor s' = monitor s" and "namespace_id s' = namespace_id s"
  shows "polled L s' chain height b hs = polled L s chain height b hs"
  by (induction hs arbitrary: b) (simp_all add: verified_list_cong [OF assms])

lemma poll_round:
  assumes srv: "serves_nitro C h (namespace_id s) chain height"
    and inv: "nitro_inv s" "highestPos s \<noteq> MaxUint64"
    and ok: "\<forall>b. \<forall>tx \<in> set (chain b). harmless L s tx" and ex: "fw_exact xs (fw_view s)"
  shows "\<exists>s'. start_round L C clock s e = Some (s', reset_debouncer e, NoLog)
    \<and> nextHotshotBlockNum s' = poll_end (nextHotshotBlockNum s) h
    \<and> nitro_inv s' \<and> highestPos s' \<noteq> MaxUint64 \<and> namespace_id s' = namespace_id s \<and> monitor s' = monitor s
    \<and> currentMessagePos s' = currentMessagePos s
    \<and> fw_exact (xs @ verified_list L s chain (height (poll_end (nextHotshotBlockNum s) h - 1))
          (unat (nextHotshotBlockNum s)) (unat (poll_end (nextHotshotBlockNum s) h))) (fw_view s')"
proof (cases "nextHotshotBlockNum s \<le> h")
  case True
  with chain_round_list [OF srv True inv ok ex] show ?thesis by (simp add: poll_end_def)
next
  case False
  then have "fetch_range C (nextHotshotBlockNum s) (namespace_id s) = Inr (nextHotshotBlockNum s, None)"
    using srv by (simp add: fetch_range_def serves_nitro_def not_le)
  then have "start_round L C clock s e = Some (s, reset_debouncer e, NoLog)"
    by (simp add: start_round_def QueueMessagesFromHotshot_def fetchNextHotshotBlock_def)
  with False inv ex show ?thesis by (simp add: poll_end_def verified_list_def)
qed

lemma poll_rounds:
  assumes "list_all2 (\<lambda>r h. serves_nitro (fst r) h (namespace_id s) chain height) rounds hs"
    and "nitro_inv s" "highestPos s \<noteq> MaxUint64"
    and "\<forall>b. \<forall>tx \<in> set (chain b). harmless L s tx" and "fw_exact xs (fw_view s)"
  shows "\<exists>s'. start_rounds L rounds s e = Some (s', replicate (length hs) NoLog)
    \<and> nextHotshotBlockNum s' = fold (\<lambda>h b. poll_end b h) hs (nextHotshotBlockNum s)
    \<and> currentMessagePos s' = currentMessagePos s
    \<and> fw_exact (xs @ polled L s chain height (nextHotshotBlockNum s) hs) (fw_view s')"
  using assms
proof (induction hs arbitrary: rounds s e xs rule: list.induct)
  case (Cons h hs)
  from Cons.prems(1) obtain C clock rest where rounds: "rounds = (C, clock) # rest"
    and srv: "serves_nitro C h (namespace_id s) chain height"
    and srvs: "list_all2 (\<lambda>r h. serves_nitro (fst r) h (namespace_id s) chain height) rest hs"
    by (auto simp: list_all2_Cons2)
  let ?to = "poll_end (nextHotshotBlockNum s) h"
  from poll_round [OF srv Cons.prems(2,3,4,5), of clock e] obtain s1 where
    s1: "start_round L C clock s e = Some (s1, reset_debouncer e, NoLog)" "nextHotshotBlockNum s1 = ?to"
      "nitro_inv s1" "highestPos s1 \<noteq> MaxUint64" "namespace_id s1 = namespace_id s" "monitor s1 = monitor s"
      "currentMessagePos s1 = currentMessagePos s"
    and ex: "fw_exact (xs @ verified_list L s chain (height (?to - 1)) (unat (nextHotshotBlockNum s)) (unat ?to))
      (fw_view s1)"
    by blast
  have ok: "\<forall>b. \<forall>tx \<in> set (chain b). harmless L s1 tx"
    using Cons.prems(4) by (simp add: harmless_cong [OF s1(6,5)])
  from Cons.IH [OF srvs [folded s1(5)] s1(3,4) ok ex, of "reset_debouncer e"] s1 show ?case
    by (auto simp: rounds polled_cong [OF s1(6,5)])
qed simp

text \<open>
  C40. The polls decide what a node holds. On one chain, a new streamer whose loop polls it when
  the latest block is \<open>hs\<close>, any list of heights, ends at the block those polls reach and holds, at
  every position from its start on, exactly the first message of that position among those that
  the payloads of each range verify to at the L1 height of the header of the range's last block.
  So whether a message is accepted depends on where the polls cut the chain, not on its own
  block alone. In the example below two nodes end at the same block, and the one that polled
  once more holds a message that the other has rejected and passed.
\<close>

theorem range_end_decides_acceptance:
  assumes "list_all2 (\<lambda>r h. serves_nitro (fst r) h ns chain height) rounds hs"
    and "\<forall>b. \<forall>tx \<in> set (chain b). harmless L (NewEspressoStreamer_nitro L ns b0 ranges start) tx"
  shows "\<exists>s. Start L rounds (NewEspressoStreamer_nitro L ns b0 ranges start) = Some (s, replicate (length hs) NoLog)
    \<and> nextHotshotBlockNum s = fold (\<lambda>h b. poll_end b h) hs b0 \<and> currentMessagePos s = start
    \<and> (\<forall>p. map_option MessageWithMeta (GetMsg s p) =
          (if p < start then None
           else map_of (polled L (NewEspressoStreamer_nitro L ns b0 ranges start) chain height b0 hs) p))"
proof -
  let ?s = "NewEspressoStreamer_nitro L ns b0 ranges start"
  have new: "namespace_id ?s = ns" "nextHotshotBlockNum ?s = b0" "currentMessagePos ?s = start"
    "highestPos ?s \<noteq> MaxUint64" "fw_exact [] (fw_view ?s)"
    by (simp_all add: NewEspressoStreamer_nitro_def fw_exact_def)
  have "list_all2 (\<lambda>r h. serves_nitro (fst r) h (namespace_id ?s) chain height) rounds hs"
    using assms(1) by (simp only: new(1))
  from poll_rounds [OF this nitro_inv_new new(4) assms(2) new(5)] obtain s where
    "Start L rounds ?s = Some (s, replicate (length hs) NoLog)" "nextHotshotBlockNum s = fold (\<lambda>h b. poll_end b h) hs b0"
    "currentMessagePos s = start" "fw_exact (polled L ?s chain height b0 hs) (fw_view s)"
    unfolding Start_def new append_Nil by blast
  then show ?thesis by (intro exI [of _ s]) (simp add: fw_exact_def GetMsg_def)
qed

text \<open>
  The chain of the example: block 10 carries a payload at position 4 signed by the address 5;
  the header of block 10 names the finalized L1 block 50, later headers name 51. The address
  may sign up to the L1 height 50. \<open>poll_client h\<close> is this chain at the height \<open>h\<close>.
\<close>

definition poll_chain :: "nat \<Rightarrow> bytes list" where
  "poll_chain b = (if b = 10 then [sample_tx 4] else [])"

definition poll_height :: "u64 \<Rightarrow> u64" where
  "poll_height b = (if b \<le> 10 then 50 else 51)"

definition poll_client :: "u64 \<Rightarrow> nitro_client" where
  "poll_client h =
    \<lparr>FetchLatestBlockHeight = Inr h, FetchHeaderByHeight = (\<lambda>b. Inr (Some (poll_height b))),
     FetchNamespaceTransactionsInRange = (\<lambda>from until ns. Inr (map poll_chain [unat from..<unat until]))\<rparr>"

definition poll_start :: nitro_streamer where
  "poll_start = NewEspressoStreamer_nitro sample_nitro 1 10
    [\<lparr>cfg_address = ''aaaaa'', cfg_from = 0, cfg_to = 50\<rparr>] 4"

lemma poll_client_serves: "serves_nitro (poll_client h) h ns poll_chain poll_height"
  by (simp add: serves_nitro_def poll_client_def)

lemma poll_valid: "IsValid (monitor poll_start) 5 h \<longleftrightarrow> h \<le> 50"
  by (simp add: poll_start_def NewEspressoStreamer_nitro_def IsValid_monitor sample_nitro_def)

lemma poll_accepted:
  "accepted sample_nitro poll_start h (sample_tx p) = (if h \<le> 50 then [(p, sample_msg 1 [9])] else [])"
proof (cases "h \<le> 50")
  case True
  then show ?thesis using sample_accepted_if(1) [of poll_start h p] by (simp add: poll_valid)
next
  case False
  then have "\<not> IsValid (monitor poll_start) 5 h" by (simp add: poll_valid)
  then show ?thesis
    using False by (simp add: accepted_def sample_tx_parses sample_verifies del: VerifySignature.simps)
qed

lemma poll_polled:
  "polled sample_nitro poll_start poll_chain poll_height 10 [11, 12] = [(4, sample_msg 1 [9])]"
  "polled sample_nitro poll_start poll_chain poll_height 10 [12] = []"
proof -
  have ends: "poll_end 10 11 = 11" "poll_end 11 12 = 12" "poll_end 10 12 = 12"
    by (simp_all add: poll_end_def range_end_def HOTSHOT_RANGE_LIMIT_def)
  have unats: "unat (10 :: u64) = 10" "unat (11 :: u64) = 11" "unat (12 :: u64) = 12" by simp_all
  have blocks: "concat (map poll_chain [10..<11]) = [sample_tx 4]" "concat (map poll_chain [11..<12]) = []"
    "concat (map poll_chain [10..<12]) = [sample_tx 4]"
    by (simp_all add: poll_chain_def upt_rec)
  show "polled sample_nitro poll_start poll_chain poll_height 10 [11, 12] = [(4, sample_msg 1 [9])]"
    "polled sample_nitro poll_start poll_chain poll_height 10 [12] = []"
    by (simp_all only: polled.simps ends unats verified_list_def blocks)
      (simp_all add: poll_accepted poll_height_def)
qed

lemma range_end_decides_acceptance_witness:
  "\<exists>often late. Start sample_nitro [(poll_client 11, 0, 0, 0), (poll_client 12, 0, 0, 0)] poll_start
      = Some (often, [NoLog, NoLog])
    \<and> Start sample_nitro [(poll_client 12, 0, 0, 0)] poll_start = Some (late, [NoLog])
    \<and> nextHotshotBlockNum often = 12 \<and> nextHotshotBlockNum late = 12
    \<and> map_option MessageWithMeta (GetMsg often 4) = Some (sample_msg 1 [9]) \<and> GetMsg late 4 = None"
proof -
  have ok: "\<forall>b. \<forall>tx \<in> set (poll_chain b). harmless sample_nitro poll_start tx"
    unfolding poll_chain_def harmless_def
    by (auto simp: poll_accepted) (simp add: sample_tx_def v0_payload_def sample_frames_def)
  have ends: "fold (\<lambda>h b. poll_end b h) [11, 12] 10 = 12" "fold (\<lambda>h b. poll_end b h) [12] 10 = 12"
    by (simp_all add: poll_end_def range_end_def HOTSHOT_RANGE_LIMIT_def)
  have polls: "list_all2 (\<lambda>r h. serves_nitro (fst r) h 1 poll_chain poll_height)
      [(poll_client 11, 0, 0, 0), (poll_client 12, 0, 0, 0)] [11, 12]"
    "list_all2 (\<lambda>r h. serves_nitro (fst r) h 1 poll_chain poll_height) [(poll_client 12, 0, 0, 0)] [12]"
    by (simp_all add: poll_client_serves)
  note run = range_end_decides_acceptance [OF _ ok [unfolded poll_start_def], folded poll_start_def]
  from run [OF polls(1), unfolded ends poll_polled] run [OF polls(2), unfolded ends poll_polled]
  obtain often late where "Start sample_nitro [(poll_client 11, 0, 0, 0), (poll_client 12, 0, 0, 0)] poll_start
      = Some (often, replicate (length [11 :: u64, 12]) NoLog)" "nextHotshotBlockNum often = 12"
    "\<forall>p. map_option MessageWithMeta (GetMsg often p) = (if p < 4 then None else map_of [(4, sample_msg 1 [9])] p)"
    "Start sample_nitro [(poll_client 12, 0, 0, 0)] poll_start = Some (late, replicate (length [12 :: u64]) NoLog)"
    "nextHotshotBlockNum late = 12"
    "\<forall>p. map_option MessageWithMeta (GetMsg late p) = (if p < 4 then None else map_of [] p)"
    by blast
  moreover from this(3,6) have "map_option MessageWithMeta (GetMsg often 4) = Some (sample_msg 1 [9])"
    "map_option MessageWithMeta (GetMsg late 4) = None"
    by simp_all
  then have "map_option MessageWithMeta (GetMsg often 4) = Some (sample_msg 1 [9])" "GetMsg late 4 = None"
    by (simp_all only: option.map_disc_iff)
  ultimately show ?thesis by - (rule exI [of _ often], rule exI [of _ late], simp only: list.size replicate.simps, simp)
qed

end
