(* ===== verification/Nitro_Lifecycle.thy ===== *)
theory Nitro_Lifecycle
  imports Nitro_Resume
begin

text \<open>
  \<open>Start\<close> and \<open>StopAndWait\<close> of \<open>nitro/nitro_streamer.go\<close>: the goroutines, their contexts, the stored
  cancel function and the wait group. Every \<open>Start\<close> adds a goroutine with a context of its own;
  goroutines and callers are interleaved by the steps of \<open>Nitro_Concurrency\<close>, so nothing here
  depends on there being only one goroutine.
\<close>

section \<open>Goroutines and contexts\<close>

record routine =
  rt_done :: bool                      \<comment> \<open>its context is done\<close>
  rt_pc :: "queue_pc option"           \<comment> \<open>\<open>Some Idle\<close>: at the top of the loop; \<open>None\<close>: returned\<close>

record nitro_system =
  sys_streamer :: nitro_streamer
  sys_routines :: "routine list"       \<comment> \<open>in the order of the calls of \<open>Start\<close>\<close>
  sys_cancel :: "nat option"           \<comment> \<open>the goroutine whose context \<open>s.cancel\<close> ends, or nil\<close>

definition update_routine :: "nat \<Rightarrow> (routine \<Rightarrow> routine) \<Rightarrow> nitro_system \<Rightarrow> nitro_system" where
  "update_routine i f c = c\<lparr>sys_routines := (sys_routines c)[i := f (sys_routines c ! i)]\<rparr>"

definition end_context :: "nat \<Rightarrow> nitro_system \<Rightarrow> nitro_system" where
  "end_context i = update_routine i (\<lambda>r. r\<lparr>rt_done := True\<rparr>)"

abbreviation "routine c i \<equiv> sys_routines c ! i"

lemma update_routine_simps [simp]:
  "sys_streamer (update_routine i f c) = sys_streamer c"
  "sys_cancel (update_routine i f c) = sys_cancel c"
  "length (sys_routines (update_routine i f c)) = length (sys_routines c)"
  "j < length (sys_routines c) \<Longrightarrow> routine (update_routine i f c) j = (if i = j then f (routine c j) else routine c j)"
  by (simp_all add: update_routine_def)

text \<open>\<open>Start\<close>, called with a context that may be done already: \<open>s.cancel\<close> is overwritten.\<close>

definition Start_call :: "bool \<Rightarrow> nitro_system \<Rightarrow> nitro_system" where
  "Start_call ctx_done c =
    c\<lparr>sys_routines := sys_routines c @ [\<lparr>rt_done = ctx_done, rt_pc = Some Idle\<rparr>],
      sys_cancel := Some (length (sys_routines c))\<rparr>"

text \<open>\<open>StopAndWait\<close>: it cancels, and then waits until every goroutine has returned.\<close>

definition StopAndWait_cancel :: "nitro_system \<Rightarrow> nitro_system" where
  "StopAndWait_cancel c =
    (case sys_cancel c of None \<Rightarrow> c | Some i \<Rightarrow> end_context i c)"

definition wait_returns :: "nitro_system \<Rightarrow> bool" where
  "wait_returns c = (\<forall>r \<in> set (sys_routines c). rt_pc r = None)"

definition fresh_system :: "nitro_streamer \<Rightarrow> nitro_system" where
  "fresh_system s = \<lparr>sys_streamer = s, sys_routines = [], sys_cancel = None\<rparr>"

section \<open>Steps\<close>

fun in_routine :: "nitro_event \<Rightarrow> bool" where
  "in_routine (BeginQueue C) = True" | "in_routine ParseNext = True" | "in_routine CommitBlock = True"
| "in_routine (ResetCall pos b) = False" | "in_routine AdvanceCall = False"
| "in_routine (AdvanceToCall pos) = False"

datatype sys_event =
    StartCall bool
  | StopCall
  | ContextEnds nat                    \<comment> \<open>the context that \<open>Start\<close> was given\<close>
  | LeaveLoop nat
  | RoutineStep nat nitro_event
  | MethodCall nitro_event

inductive sys_step :: "'k nitro_lib \<Rightarrow> nitro_system \<Rightarrow> sys_event \<Rightarrow> nitro_system \<Rightarrow> bool" for L where
  start_call: "sys_step L c (StartCall ctx_done) (Start_call ctx_done c)"
| stop_call: "sys_step L c StopCall (StopAndWait_cancel c)"
| context_ends: "sys_step L c (ContextEnds i) (end_context i c)"
| leave_loop:
    "i < length (sys_routines c) \<Longrightarrow> rt_done (routine c i) \<Longrightarrow> rt_pc (routine c i) = Some Idle
      \<Longrightarrow> sys_step L c (LeaveLoop i) (update_routine i (\<lambda>r. r\<lparr>rt_pc := None\<rparr>) c)"
| routine_step:
    "i < length (sys_routines c) \<Longrightarrow> rt_pc (routine c i) = Some pc
      \<Longrightarrow> pc = Idle \<longrightarrow> \<not> rt_done (routine c i) \<Longrightarrow> in_routine e
      \<Longrightarrow> nitro_step L (sys_streamer c, pc) e (s', pc')
      \<Longrightarrow> sys_step L c (RoutineStep i e) (update_routine i (\<lambda>r. r\<lparr>rt_pc := Some pc'\<rparr>) (c\<lparr>sys_streamer := s'\<rparr>))"
| method_call:
    "\<not> in_routine e \<Longrightarrow> nitro_step L (sys_streamer c, Idle) e (s', Idle)
      \<Longrightarrow> sys_step L c (MethodCall e) (c\<lparr>sys_streamer := s'\<rparr>)"

inductive sys_steps :: "'k nitro_lib \<Rightarrow> nitro_system \<Rightarrow> sys_event list \<Rightarrow> nitro_system \<Rightarrow> bool" for L where
  sys_refl: "sys_steps L c [] c"
| sys_more: "sys_step L c e c' \<Longrightarrow> sys_steps L c' es c'' \<Longrightarrow> sys_steps L c (e # es) c''"

inductive_simps sys_steps_simps [simp]: "sys_steps L c [] c'" "sys_steps L c (e # es) c'"

lemmas system_defs = Start_call_def StopAndWait_cancel_def end_context_def update_routine_def

text \<open>An invariant of the steps is one of the runs.\<close>

lemma sys_steps_invariant:
  assumes "sys_steps L c es c'" and "I c"
    and "\<And>c e c'. sys_step L c e c' \<Longrightarrow> e \<in> set es \<Longrightarrow> I c \<Longrightarrow> I c'"
  shows "I c'"
  using assms by (induction rule: sys_steps.induct) auto

section \<open>Invariants shared by all goroutines\<close>

text \<open>
  An invariant of the interleaving of one goroutine that speaks of the streamer and of the
  goroutine apart holds for any number of goroutines.
\<close>

definition all_hold :: "(nitro_conf \<Rightarrow> bool) \<Rightarrow> nitro_system \<Rightarrow> bool" where
  "all_hold I c \<longleftrightarrow> I (sys_streamer c, Idle)
    \<and> (\<forall>r \<in> set (sys_routines c). \<forall>pc. rt_pc r = Some pc \<longrightarrow> I (sys_streamer c, pc))"

locale shared_invariant =
  fixes L :: "'k nitro_lib" and I :: "nitro_conf \<Rightarrow> bool"
  assumes step: "nitro_step L c e c' \<Longrightarrow> I c \<Longrightarrow> I c'"
    and apart: "I (s, pc) \<Longrightarrow> I (s', pc') \<Longrightarrow> I (s, pc')"
begin

lemma all_hold_update:
  assumes "all_hold I c" and "\<And>pc. i < length (sys_routines c) \<Longrightarrow> rt_pc (f (routine c i)) = Some pc
    \<Longrightarrow> I (sys_streamer c, pc)"
  shows "all_hold I (update_routine i f c)"
proof (cases "i < length (sys_routines c)")
  case True
  with assms show ?thesis
    by (auto simp: all_hold_def update_routine_def dest: set_update_subset_insert [THEN subsetD])
qed (use assms(1) in \<open>simp add: update_routine_def all_hold_def list_update_beyond\<close>)

lemma all_hold_end: "all_hold I c \<Longrightarrow> all_hold I (end_context i c)"
  unfolding end_context_def by (rule all_hold_update) (auto simp: all_hold_def dest: nth_mem)

lemma all_hold_streamer:
  assumes "all_hold I c" and "I (s', pc)"
  shows "all_hold I (c\<lparr>sys_streamer := s'\<rparr>)"
  using assms(1) apart [OF assms(2)] by (auto simp: all_hold_def)

lemma all_hold_step:
  assumes "sys_step L c e c'" and "all_hold I c"
  shows "all_hold I c'"
  using assms
proof cases
  case (routine_step i pc e s' pc')
  then have "I (sys_streamer c, pc)" using assms(2) unfolding all_hold_def by (metis nth_mem)
  with routine_step step have I: "I (s', pc')" by blast
  from all_hold_streamer [OF assms(2) I] I show ?thesis
    unfolding routine_step(2) by (intro all_hold_update) auto
next
  case (method_call e s')
  then have "I (s', Idle)" using assms(2) step unfolding all_hold_def by blast
  from all_hold_streamer [OF assms(2) this] show ?thesis by (simp add: method_call)
next
  case stop_call
  with assms(2) show ?thesis by (auto simp: StopAndWait_cancel_def intro: all_hold_end split: option.split)
next
  case (context_ends i)
  with assms(2) show ?thesis by (auto intro: all_hold_end)
next
  case (start_call ctx_done)
  with assms(2) show ?thesis by (auto simp: all_hold_def Start_call_def)
next
  case (leave_loop i)
  with assms(2) show ?thesis by (auto intro: all_hold_update)
qed

lemma life_cycle:
  assumes "sys_steps L (fresh_system s) es c" and "I (s, Idle)"
  shows "I (sys_streamer c, Idle)"
proof -
  have "all_hold I c"
  proof (rule sys_steps_invariant [OF assms(1)])
    show "all_hold I (fresh_system s)" using assms(2) by (simp add: all_hold_def fresh_system_def)
  qed (rule all_hold_step)
  then show ?thesis by (simp add: all_hold_def)
qed

end

interpretation shape: shared_invariant L conf_inv for L :: "'k nitro_lib"
proof
  show "nitro_step L c e c' \<Longrightarrow> conf_inv c \<Longrightarrow> conf_inv c'" for c e c' by (rule conf_inv_step)
qed (simp add: conf_inv_def)

interpretation signed: shared_invariant L "signed_inv L ranges ns" for L :: "'k nitro_lib" and ranges ns
proof
  show "nitro_step L c e c' \<Longrightarrow> signed_inv L ranges ns c \<Longrightarrow> signed_inv L ranges ns c'" for c e c'
    by (rule signed_inv_step)
qed (simp add: signed_inv_def)

section \<open>Properties\<close>

text \<open>
  C6. However the streamer is started, stopped and started again, also with several goroutines
  at once, and whatever its callers do meanwhile: its entries are stored under their own
  position, at or above the consumer's, with heights that grow with the positions up to the next
  block (\<open>nitro_inv\<close>), and every message it can hand out is covered by the signature of
  an authorised address.
\<close>

theorem life_cycle_safe:
  assumes "sys_steps L (fresh_system (NewEspressoStreamer_nitro L ns b0 ranges start)) es c"
  shows "nitro_inv (sys_streamer c)
    \<and> (\<forall>p e. GetMsg (sys_streamer c) p = Some e \<longrightarrow>
        signed_in_payload L ranges p (MessageWithMeta e) \<or> signed_in_feed L ranges ns p (MessageWithMeta e))"
proof
  show "nitro_inv (sys_streamer c)"
    using shape.life_cycle [OF assms] by (simp add: conf_inv_def nitro_inv_new)
  have "signed_inv L ranges ns (sys_streamer c, Idle)"
    by (rule signed.life_cycle [OF assms]) (simp add: signed_inv_def NewEspressoStreamer_nitro_def)
  then show "\<forall>p e. GetMsg (sys_streamer c) p = Some e \<longrightarrow>
      signed_in_payload L ranges p (MessageWithMeta e) \<or> signed_in_feed L ranges ns p (MessageWithMeta e)"
    by (simp add: signed_inv_def GetMsg_def)
qed

text \<open>What a goroutine has left to do once its context is done, in steps.\<close>

fun steps_left :: "queue_pc option \<Rightarrow> nat" where
  "steps_left None = 0"
| "steps_left (Some Idle) = 1"
| "steps_left (Some (Parsing b to h txs)) = length txs + 2"

fun by_routine :: "nat \<Rightarrow> sys_event \<Rightarrow> bool" where
  "by_routine i (LeaveLoop j) = (i = j)"
| "by_routine i (RoutineStep j e) = (i = j)"
| "by_routine i (StartCall d) = False" | "by_routine i StopCall = False"
| "by_routine i (ContextEnds j) = False" | "by_routine i (MethodCall e) = False"

lemma sys_step_routine:
  assumes "sys_step L c e c'" and "i < length (sys_routines c)"
  shows "i < length (sys_routines c')" and "rt_done (routine c i) \<Longrightarrow> rt_done (routine c' i)"
    and "\<not> by_routine i e \<Longrightarrow> rt_pc (routine c' i) = rt_pc (routine c i)"
  using assms by (auto elim!: sys_step.cases simp: Start_call_def StopAndWait_cancel_def end_context_def nth_append split: option.splits)

lemma parsing_step:
  assumes "nitro_step L (s, Parsing b to h txs) e (s', pc')" and "in_routine e"
  shows "Suc (steps_left (Some pc')) = steps_left (Some (Parsing b to h txs))"
  using assms by (auto elim!: nitro_step.cases)

lemma steps_left_step:
  assumes "sys_step L c e c'" and "i < length (sys_routines c)" and "rt_done (routine c i)"
  shows "steps_left (rt_pc (routine c' i)) + (if by_routine i e then 1 else 0) = steps_left (rt_pc (routine c i))"
proof (cases "by_routine i e")
  case True
  from assms(1) show ?thesis
  proof cases
    case (leave_loop j)
    with True assms(2) show ?thesis by (simp add: update_routine_def)
  next
    case (routine_step j pc e s' pc')
    with True assms(3) obtain b to h txs where "pc = Parsing b to h txs" by (cases pc) auto
    with parsing_step routine_step True assms(2) show ?thesis by (simp add: update_routine_def)
  qed (use True in simp_all)
qed (simp add: sys_step_routine [OF assms(1,2)])

text \<open>After the context of goroutine \<open>i\<close> is done, its steps and what it has left add up.\<close>

lemma steps_left_run:
  assumes "sys_steps L c es c'" and "i < length (sys_routines c)" and "rt_done (routine c i)"
  shows "steps_left (rt_pc (routine c' i)) + length (filter (by_routine i) es) = steps_left (rt_pc (routine c i))
    \<and> i < length (sys_routines c') \<and> rt_done (routine c' i)"
  using assms
proof (induction rule: sys_steps.induct)
  case (sys_more c e c' es c'')
  note st = sys_more.hyps(1) sys_more.prems(1)
  from sys_more.IH sys_step_routine(1,2) [OF st] sys_more.prems(2) steps_left_step [OF st sys_more.prems(2)]
  show ?case by auto
qed simp

lemma done_routine_moves:
  assumes "i < length (sys_routines c)" and "rt_done (routine c i)" and "rt_pc (routine c i) = Some pc"
  shows "(\<exists>e c'. by_routine i e \<and> sys_step L c e c')
    \<or> (\<exists>b to h tx txs. pc = Parsing b to h (tx # txs) \<and> parseEspressoTransaction L tx h (sys_streamer c) = None)"
proof (cases pc)
  case Idle
  with assms have "sys_step L c (LeaveLoop i) (update_routine i (\<lambda>r. r\<lparr>rt_pc := None\<rparr>) c)"
    by (intro leave_loop) simp_all
  moreover have "by_routine i (LeaveLoop i)" by simp
  ultimately show ?thesis by blast
next
  case (Parsing b to h txs)
  have go: ?thesis if "nitro_step L (sys_streamer c, pc) e (s', pc')" "in_routine e" for e s' pc'
  proof -
    from that Parsing have "sys_step L c (RoutineStep i e)
        (update_routine i (\<lambda>r. r\<lparr>rt_pc := Some pc'\<rparr>) (c\<lparr>sys_streamer := s'\<rparr>))"
      by (intro routine_step [OF assms(1,3)]) simp_all
    moreover have "by_routine i (RoutineStep i e)" by simp
    ultimately show ?thesis by blast
  qed
  show ?thesis
  proof (cases txs)
    case Nil
    from commit_block [of L "sys_streamer c" b to h] Parsing Nil show ?thesis by (intro go [of CommitBlock]) simp_all
  next
    case (Cons tx txs')
    show ?thesis
    proof (cases "parseEspressoTransaction L tx h (sys_streamer c)")
      case None
      with Parsing Cons show ?thesis by blast
    next
      case (Some r)
      obtain x s' where "r = (x, s')" by fastforce
      with Some parse_payload [of L tx h "sys_streamer c" x s' b to txs'] Parsing Cons show ?thesis
        by (intro go [of ParseNext]) simp_all
    qed
  qed
qed

lemma returned_stays:
  assumes "sys_step L c e c'" and "i < length (sys_routines c)" and "rt_pc (routine c i) = None"
  shows "rt_pc (routine c' i) = None"
proof (cases "by_routine i e")
  case True
  with assms show ?thesis by (auto elim!: sys_step.cases)
qed (simp add: sys_step_routine(3) [OF assms(1,2)] assms(3))

lemma no_start_length:
  "sys_step L c e c' \<Longrightarrow> \<forall>d. e \<noteq> StartCall d \<Longrightarrow> length (sys_routines c') = length (sys_routines c)"
  by (auto elim!: sys_step.cases simp: StopAndWait_cancel_def end_context_def split: option.splits)

lemma method_only_removes:
  assumes "nitro_step L (s, Idle) e (s', pc)" and "\<not> in_routine e" and "map_of (messages s') p = Some m"
  shows "map_of (messages s) p = Some m"
  using assms by (auto elim!: nitro_step.cases
      simp: Reset_nitro_def Advance_def AdvanceTo_def delete_range_map split: if_splits)

lemma stopped_is_quiet:
  assumes "sys_steps L c es c'" and "wait_returns c" and "\<forall>d. StartCall d \<notin> set es"
  shows "wait_returns c' \<and> (\<forall>p e. GetMsg (sys_streamer c') p = Some e \<longrightarrow> GetMsg (sys_streamer c) p = Some e)"
  using assms
proof (induction rule: sys_steps.induct)
  case (sys_more c e c' es c'')
  have "length (sys_routines c') = length (sys_routines c)"
    using sys_more.prems(2) by (intro no_start_length [OF sys_more.hyps(1)]) auto
  with sys_more.prems(1) have "wait_returns c'"
    using returned_stays [OF sys_more.hyps(1)] by (simp add: wait_returns_def all_set_conv_all_nth)
  moreover from sys_more.hyps(1) have "\<forall>p m. GetMsg (sys_streamer c') p = Some m \<longrightarrow> GetMsg (sys_streamer c) p = Some m"
  proof cases
    case (routine_step i pc e s' pc')
    with sys_more.prems(1) have False by (auto simp: wait_returns_def dest!: nth_mem)
    then show ?thesis ..
  next
    case (method_call e s')
    then show ?thesis by (auto simp: GetMsg_def dest: method_only_removes)
  qed (auto simp: Start_call_def StopAndWait_cancel_def end_context_def split: option.splits)
  ultimately show ?case using sys_more.IH sys_more.prems(2) by simp
qed simp

text \<open>
  C24. \<open>StopAndWait\<close> after one \<open>Start\<close> returns, and then nothing is read any more. When \<open>s.cancel\<close>
  is that of goroutine \<open>i\<close> and the others have returned, then after the cancel goroutine \<open>i\<close> takes at
  most one step per payload of its range and two more, and as long as the wait is not over it
  can take one, unless it parses a payload that never returns (\<open>parse_returns_exactly\<close>). Once
  the wait is over, no message is added until the next \<open>Start\<close>.
\<close>

theorem stop_and_wait_returns:
  assumes one: "sys_cancel c = Some i" "i < length (sys_routines c)"
      "\<forall>j < length (sys_routines c). j \<noteq> i \<longrightarrow> rt_pc (routine c j) = None"
    and run: "sys_steps L (StopAndWait_cancel c) es c'" and no_start: "\<forall>d. StartCall d \<notin> set es"
  shows "length (filter (by_routine i) es) \<le> steps_left (rt_pc (routine c i))
    \<and> (wait_returns c' \<or> (\<exists>e c''. by_routine i e \<and> sys_step L c' e c'')
        \<or> (\<exists>b to h tx txs. rt_pc (routine c' i) = Some (Parsing b to h (tx # txs))
             \<and> parseEspressoTransaction L tx h (sys_streamer c') = None))
    \<and> (wait_returns c' \<longrightarrow> (\<forall>es' c''. sys_steps L c' es' c'' \<longrightarrow> (\<forall>d. StartCall d \<notin> set es') \<longrightarrow>
         wait_returns c'' \<and> (\<forall>p e. GetMsg (sys_streamer c'') p = Some e \<longrightarrow> GetMsg (sys_streamer c') p = Some e)))"
proof (intro conjI)
  let ?c = "StopAndWait_cancel c"
  have c: "i < length (sys_routines ?c)" "rt_done (routine ?c i)" "rt_pc (routine ?c i) = rt_pc (routine c i)"
    using one by (simp_all add: StopAndWait_cancel_def end_context_def)
  note left = steps_left_run [OF run c(1,2), unfolded c(3)]
  then show "length (filter (by_routine i) es) \<le> steps_left (rt_pc (routine c i))" by linarith
  have others: "\<forall>j < length (sys_routines c'). j \<noteq> i \<longrightarrow> rt_pc (routine c' j) = None"
  proof (rule sys_steps_invariant [OF run])
    show "\<forall>j < length (sys_routines ?c). j \<noteq> i \<longrightarrow> rt_pc (routine ?c j) = None"
      using one by (simp add: StopAndWait_cancel_def end_context_def)
  next
    fix c e c'
    assume st: "sys_step L c e c'" and e: "e \<in> set es"
      and none: "\<forall>j < length (sys_routines c). j \<noteq> i \<longrightarrow> rt_pc (routine c j) = None"
    have "length (sys_routines c') = length (sys_routines c)"
      using no_start e by (intro no_start_length [OF st]) auto
    with none returned_stays [OF st]
    show "\<forall>j < length (sys_routines c'). j \<noteq> i \<longrightarrow> rt_pc (routine c' j) = None" by auto
  qed
  show "wait_returns c' \<or> (\<exists>e c''. by_routine i e \<and> sys_step L c' e c'')
      \<or> (\<exists>b to h tx txs. rt_pc (routine c' i) = Some (Parsing b to h (tx # txs))
           \<and> parseEspressoTransaction L tx h (sys_streamer c') = None)"
  proof (cases "rt_pc (routine c' i)")
    case None
    with others have "wait_returns c'" by (auto simp: wait_returns_def in_set_conv_nth)
    then show ?thesis ..
  next
    case (Some pc)
    from done_routine_moves [OF _ _ Some] left Some show ?thesis by auto
  qed
qed (use stopped_is_quiet in blast)

text \<open>
  C25. A second \<open>Start\<close> while a goroutine \<open>i\<close> runs overwrites the cancel function of its context:
  until the caller ends the context it gave to the first \<open>Start\<close> itself, no \<open>StopAndWait\<close>
  returns, whatever is called.
\<close>

theorem second_start_blocks_stop:
  assumes "i < length (sys_routines c)" and "rt_pc (routine c i) \<noteq> None" and "\<not> rt_done (routine c i)"
    and "sys_steps L (Start_call ctx_done c) es c'" and "ContextEnds i \<notin> set es"
  shows "\<not> wait_returns c'"
proof -
  let ?I = "\<lambda>c. i < length (sys_routines c) \<and> rt_pc (routine c i) \<noteq> None \<and> \<not> rt_done (routine c i) \<and> sys_cancel c \<noteq> Some i"
  have "?I c'"
  proof (rule sys_steps_invariant [OF assms(4)])
    show "?I (Start_call ctx_done c)" using assms(1-3) by (simp add: Start_call_def nth_append)
  next
    fix c e c'
    assume "sys_step L c e c'" and "e \<in> set es" and "?I c"
    then show "?I c'"
      using assms(5) by cases (auto simp: Start_call_def StopAndWait_cancel_def end_context_def nth_append split: option.splits)
  qed
  then show ?thesis by (auto simp: wait_returns_def dest: nth_mem)
qed

text \<open>A life cycle: \<open>Start\<close>, a fetch of one block, \<open>StopAndWait\<close> before its second payload.\<close>

definition sample_system :: "nitro_streamer \<Rightarrow> queue_pc \<Rightarrow> bool \<Rightarrow> nitro_system" where
  "sample_system s pc ctx_done =
    \<lparr>sys_streamer = s, sys_routines = [\<lparr>rt_done = ctx_done, rt_pc = Some pc\<rparr>], sys_cancel = Some 0\<rparr>"

definition sample_stopped :: nitro_system where
  "sample_stopped = \<lparr>sys_streamer = sample_end, sys_routines = [\<lparr>rt_done = True, rt_pc = None\<rparr>], sys_cancel = Some 0\<rparr>"

lemma sample_system_step:
  assumes "nitro_step L (s, pc) e (s', pc')" and "in_routine e" and "pc = Idle \<longrightarrow> \<not> ctx_done"
  shows "sys_step L (sample_system s pc ctx_done) (RoutineStep 0 e) (sample_system s' pc' ctx_done)"
  using assms sys_step.routine_step [of 0 "sample_system s pc ctx_done" pc e L s' pc']
  by (simp add: sample_system_def update_routine_def)

lemma sample_life_cycle:
  "sys_steps sample_nitro (fresh_system sample_start)
    [StartCall False, RoutineStep 0 (BeginQueue sample_client), RoutineStep 0 ParseNext, StopCall]
    (sample_system sample_one (Parsing 10 11 50 [sample_tx 5]) True)"
  "sys_steps sample_nitro (sample_system sample_one (Parsing 10 11 50 [sample_tx 5]) True)
    [RoutineStep 0 ParseNext, RoutineStep 0 CommitBlock, LeaveLoop 0] sample_stopped"
proof -
  have "sys_step sample_nitro (fresh_system sample_start) (StartCall False) (sample_system sample_start Idle False)"
    using start_call [of sample_nitro "fresh_system sample_start" False]
    by (simp add: Start_call_def fresh_system_def sample_system_def)
  moreover note sample_system_step [OF sample_steps(1), where ctx_done = False, simplified]
    sample_system_step [OF sample_steps(2), where ctx_done = False, simplified]
  moreover have "sys_step sample_nitro (sample_system sample_one (Parsing 10 11 50 [sample_tx 5]) False) StopCall
      (sample_system sample_one (Parsing 10 11 50 [sample_tx 5]) True)"
    using stop_call [of sample_nitro "sample_system sample_one (Parsing 10 11 50 [sample_tx 5]) False"]
    by (simp add: StopAndWait_cancel_def end_context_def update_routine_def sample_system_def)
  ultimately show "sys_steps sample_nitro (fresh_system sample_start)
      [StartCall False, RoutineStep 0 (BeginQueue sample_client), RoutineStep 0 ParseNext, StopCall]
      (sample_system sample_one (Parsing 10 11 50 [sample_tx 5]) True)"
    by (intro sys_more sys_refl) simp_all
  have "sys_step sample_nitro (sample_system sample_end Idle True) (LeaveLoop 0) sample_stopped"
    using leave_loop [of 0 "sample_system sample_end Idle True" sample_nitro]
    by (simp add: sample_system_def sample_stopped_def update_routine_def)
  with sample_system_step [OF sample_steps(3), where ctx_done = True, simplified]
    sample_system_step [OF sample_steps(4), where ctx_done = True, simplified]
  show "sys_steps sample_nitro (sample_system sample_one (Parsing 10 11 50 [sample_tx 5]) True)
      [RoutineStep 0 ParseNext, RoutineStep 0 CommitBlock, LeaveLoop 0] sample_stopped"
    by (intro sys_more sys_refl) simp_all
qed

lemma life_cycle_safe_witness:
  "nitro_inv sample_one \<and> (signed_in_payload sample_nitro sample_ranges 4 (sample_msg 1 [9])
    \<or> signed_in_feed sample_nitro sample_ranges 1 4 (sample_msg 1 [9]))"
proof -
  have "GetMsg sample_one 4 = Some (snd (sample_entry 4))" by (simp add: GetMsg_def sample_states)
  moreover note life_cycle_safe [OF sample_life_cycle(1) [unfolded sample_start_def]]
  ultimately show ?thesis
    by (auto simp: sample_system_def sample_entry_def dest!: spec [of _ 4])
qed

lemma stop_and_wait_returns_witness:
  "length (filter (by_routine 0) [RoutineStep 0 ParseNext, RoutineStep 0 CommitBlock, LeaveLoop 0])
      \<le> steps_left (Some (Parsing 10 11 50 [sample_tx 5])) \<and> wait_returns sample_stopped"
proof -
  let ?c = "sample_system sample_one (Parsing 10 11 50 [sample_tx 5]) False"
  have "StopAndWait_cancel ?c = sample_system sample_one (Parsing 10 11 50 [sample_tx 5]) True"
    by (simp add: StopAndWait_cancel_def end_context_def update_routine_def sample_system_def)
  with sample_life_cycle(2) have "sys_steps sample_nitro (StopAndWait_cancel ?c)
      [RoutineStep 0 ParseNext, RoutineStep 0 CommitBlock, LeaveLoop 0] sample_stopped" by simp
  from stop_and_wait_returns [OF _ _ _ this, of 0] show ?thesis
    by (simp add: sample_system_def wait_returns_def sample_stopped_def)
qed

lemma second_start_blocks_stop_witness:
  "\<not> wait_returns (StopAndWait_cancel (Start_call False (sample_system sample_start Idle False)))"
proof -
  let ?c = "sample_system sample_start Idle False"
  have "sys_steps sample_nitro (Start_call False ?c) [StopCall] (StopAndWait_cancel (Start_call False ?c))"
    by (intro sys_more [OF stop_call] sys_refl)
  from second_start_blocks_stop [OF _ _ _ this, of 0] show ?thesis by (simp add: sample_system_def)
qed

end
