(* ===== verification/Spec2Isabelle.thy ===== *)
theory Spec2Isabelle
  imports Prelude Batch_Buffer Op_Types Op_Streamer Op_Invariant Op_Sample Op_Delivery Op_Authentic
    Op_Update Op_Progress Op_Forks Streamer_Interface Buffered_Streamer Buffered_Replay Espresso_Batch
    Batch_Authenticator Batch_Authenticator_Calls Batch_Authenticator_Logs Batch_Authenticator_Events
    Op_End_To_End Op_Chain_State Op_Chain Buffered_End_To_End Buffered_Chain
    Go_Bytes Nitro_Types Nitro_Codec_V0 Nitro_V0_Frames Nitro_Sample Nitro_Payload Nitro_Codec_V1
    Nitro_V1_Frames Nitro_Monitor Nitro_Messages Nitro_Verify Nitro_Streamer Nitro_Invariant Nitro_Interface
    Nitro_Concurrency Nitro_Sample_Run Nitro_Resume Nitro_Progress Nitro_Fetch Nitro_Reset
    Nitro_Refine Nitro_End_To_End Nitro_Chain Nitro_Polling Nitro_Lifecycle
begin

text \<open>
  The Espresso streamers: a verification library for the Go packages \<open>op\<close>, \<open>op/derivation\<close> and
  \<open>nitro\<close>, which read transactions of one rollup from the HotShot chain, check who signed them
  and hand them to the rollup node in order.

  The program. \<open>op/op_streamer.go\<close> reads ranges of HotShot blocks (\<open>Update\<close>), decodes and
  checks every batch against the finalized L1 (\<open>processEspressoTransaction\<close>, \<open>CheckBatch\<close>),
  orders what it keeps in a bounded buffer (\<open>op/batch_buffer.go\<close>) and gives the batches out by
  number (\<open>HasNext\<close>, \<open>Peek\<close>, \<open>Next\<close>); \<open>Refresh\<close>, \<open>Reset\<close> and \<open>SetProperHead\<close> move it back. The
  interface is \<open>op/interface.go\<close>; \<open>op/buffered_streamer.go\<close> wraps any implementation of it with
  a window that can be replayed. \<open>op/derivation/espresso_batch.go\<close> is the batch itself. The
  package \<open>nitro\<close> does the same for Nitro chains: \<open>nitro/utils.go\<close> and the binary types hold the
  two wire formats and the signatures, \<open>nitro/batch_addr_monitor.go\<close> the addresses that may
  sign, and \<open>nitro/nitro_streamer.go\<close> a goroutine that fetches while callers read and move the
  position.

  Theories and sources.

    \<^item> \<open>Prelude\<close>, \<open>Go_Bytes\<close>: machine types, results, slices and copies with their bounds panics
      (\<open>None\<close>), big-endian coding, \<open>slices.BinarySearchFunc\<close>.
    \<^item> \<open>Batch_Buffer\<close>: \<open>op/batch_buffer.go\<close>. The contract of an ordered bounded buffer is the
      locale \<open>pending_buffer\<close>, which the buffer interprets.
    \<^item> \<open>Op_Types\<close>, \<open>Op_Streamer\<close>: state and methods of \<open>BatchStreamer\<close>. Clients, caches, decoder
      and light client are the record \<open>env\<close> over a world \<open>'w\<close> that every remote call may change;
      a method returns the new state and world.
    \<^item> \<open>Op_Invariant\<close>: the invariant \<open>streamer_ok\<close>, one preservation lemma per method, and the
      locales \<open>intake_invariant\<close> and \<open>reading_invariant\<close>, which lift a property kept by the
      smallest steps to \<open>Update\<close>. \<open>Op_Delivery\<close> is the refinement of an automaton over the next
      number, \<open>Op_Authentic\<close> what accepted batches prove, \<open>Op_Update\<close> and \<open>Op_Progress\<close> reading
      positions, rewinds and termination, \<open>Op_Forks\<close> several batches of one number.
    \<^item> \<open>Streamer_Interface\<close>, \<open>Buffered_Streamer\<close>, \<open>Buffered_Replay\<close>: the interface as a record of
      methods with its contract as the locales \<open>batch_source\<close> and \<open>espresso_streamer\<close>
      (interpreted by \<open>BatchStreamer\<close>), and the wrapper over any such record.
    \<^item> \<open>Espresso_Batch\<close>: \<open>op/derivation/espresso_batch.go\<close>, over a record \<open>derivation\<close> of RLP,
      signatures and the Optimism derivation functions.
    \<^item> \<open>Batch_Authenticator\<close>: \<open>op/bindings/batch_authenticator.go\<close>, over a record \<open>bind_lib\<close> of the
      library behind the generated code, has its ABI, constructors and reads;
      \<open>Batch_Authenticator_Calls\<close> the transactions, sessions and raw access;
      \<open>Batch_Authenticator_Logs\<close> the code that turns logs into events, once for every event, over a
      record \<open>bind_log_lib\<close>, with the laws of an event's struct as the locale \<open>event_struct\<close>, which
      the nine events of \<open>Batch_Authenticator_Events\<close> interpret. There the cases of a \<open>select\<close> are
      arguments or labels, so a theorem covers every schedule.
    \<^item> \<open>Op_End_To_End\<close> puts streamer, batch format and binding together (\<open>wired\<close>) and follows a
      batch from the signed bytes to \<open>Next\<close>. \<open>Op_Chain_State\<close> and \<open>Op_Chain\<close> follow a whole HotShot
      chain through rounds of \<open>Update\<close> and \<open>Next\<close> (\<open>update_next\<close>), with the invariant that a batch
      to come is held, is still to be read, or has its block marked for a rewind (\<open>due\<close>).
      \<open>Buffered_End_To_End\<close> lifts a guarantee on the batches of any inner streamer to the wrapper
      (locale \<open>batch_gate\<close>), \<open>Buffered_Chain\<close> the delivery of the chain.
    \<^item> \<open>Nitro_Types\<close>, \<open>Nitro_Codec_V0\<close>, \<open>Nitro_Codec_V1\<close>: the messages and the two wire formats,
      over a record \<open>nitro_lib\<close> of RLP, JSON, Keccak and signature recovery. \<open>Nitro_V0_Frames\<close> and
      \<open>Nitro_V1_Frames\<close> define the formats as plain concatenations and show the buffer-filling
      encoders and the offset-driven parsers equal to them. \<open>Nitro_Payload\<close> has the writers of
      \<open>nitro/utils.go\<close>, \<open>Nitro_Messages\<close> its hashes, verification, iterators and the dispatch on
      the version, \<open>Nitro_Monitor\<close> the addresses and the log debouncer. \<open>Nitro_Verify\<close> shows what
      parsing, iterating (locale \<open>position_iterator\<close>) and verifying guarantee.
    \<^item> \<open>Nitro_Streamer\<close>: \<open>nitro/nitro_streamer.go\<close>. \<open>Nitro_Invariant\<close> has its invariant
      \<open>nitro_inv\<close>; \<open>Nitro_Interface\<close> is the interface of its callers (locale \<open>message_source\<close>);
      \<open>Nitro_Concurrency\<close> splits \<open>QueueMessagesFromHotshot\<close> where the code gives up
      the lock and interleaves it with the other methods (\<open>nitro_step\<close>, \<open>nitro_reach\<close>);
      \<open>Nitro_Resume\<close>, \<open>Nitro_Progress\<close>, \<open>Nitro_Fetch\<close> (locale \<open>payload_parser\<close>) and
      \<open>Nitro_Reset\<close> hold its properties. \<open>Nitro_Refine\<close> is its refinement of a map in which the
      first verified message of a position wins, with what two nodes have in common;
      \<open>Nitro_End_To_End\<close> follows messages from the payload writers to \<open>Peek\<close> and \<open>Advance\<close>, and
      \<open>Nitro_Chain\<close> those of a whole HotShot chain through the loop of \<open>Start\<close>, and
      \<open>Nitro_Polling\<close> says which of them a node holds, by the heights at which it polled;
      \<open>Nitro_Lifecycle\<close> has the goroutines, contexts and wait group of \<open>Start\<close> and \<open>StopAndWait\<close>, and
      carries invariants over to any number of goroutines (locale \<open>shared_invariant\<close>).
    \<^item> \<open>Op_Sample\<close>, \<open>Nitro_Sample\<close>, \<open>Nitro_Sample_Run\<close>: closed instances of the parameters on which
      the witnesses are evaluated.

  What is shown. Safety: a delivered batch is the decoding of exactly the signed bytes of a posted
  payload, signed by the batcher the contract registers for its L1 origin, through the buffered streamer
  as well; buffered messages are signed by an address authorised for their L1 height; delivered numbers
  are consecutive; spam changes nothing; nodes that verified the same messages agree, and what a node
  holds is exactly what the ranges cut by its polls verified to; a node that restarts from the named
  block misses nothing; no index, slice or parser panics; an event filter that ends without an error
  gave every event. Liveness and termination: an authorised batch that was posted is delivered, and so
  is the batcher's whole chain in the order of its numbers, whatever order, copies and noise HotShot
  has, as are the messages of a Nitro chain, \<open>Update\<close> and the Nitro loop return and make
  progress under stated conditions on the client, a full buffer is made good by a rewind,
  \<open>StopAndWait\<close> returns after one \<open>Start\<close>, and the exact cases in which a loop
  or a wait does not end. Functional behaviour: every verdict and error of \<open>CheckBatch\<close> and
  \<open>Insert\<close>, \<open>SetProperHead\<close>, \<open>Refresh\<close>, replay of the buffered
  streamer, \<open>GetMessageCount\<close>. Round trips of batches, blocks and both wire formats;
  equality of encoders and parsers with the formats; agreement of the generated binding with its ABI;
  what the feed hashes tell apart and what they do not.

  Loops and bounds. A loop that may run forever is a \<open>partial_function\<close> whose \<open>None\<close> means that
  it does not return, so every theorem about its result also says when there is one; there is
  no fuel. Other loops are structural, or have a measure. Positions, heights and lengths are
  64-bit words that wrap as in Go; byte strings are shorter than \<open>2 ^ 63\<close>, as every Go slice
  is. \<open>int\<close> of Go is 64 bits wide and holds lengths only, so it is \<open>int\<close> here.

  Not modelled. Of the contract's ABI the constructor and the errors, which no generated code
  reads. Logging and sleeping have no effect on the state, and a context that is done matters
  only where a loop looks at it. Where \<open>nitro/nitro_streamer.go\<close> reads
  \<open>nextHotshotBlockNum\<close> without the lock, the read is one step of the interleaving, which is
  what the word-sized read does on the supported machines; the data race itself is not
  modelled. The texts of errors are left out, their classes and fields are kept. RLP, JSON,
  Keccak and the signature scheme are parameters, with what the code relies on as hypotheses.
  Apart from these the sources have only imports, comments and type checks left.
\<close>

end
